(* ===== verification/Pglg_Prelude.thy ===== *)
theory Pglg_Prelude
  imports Complex_Main "HOL-Library.Word" "HOL-Library.Sublist"
begin

text \<open>
  Shared vocabulary of the development.

  \<^item> Types: an LSN is a 64-bit word and a relation OID a 32-bit word, as in the Go code; a
    \<open>time.Time\<close> is the integer number of nanoseconds since Go's zero time (1 January of
    year 1, UTC), so that \<open>t.IsZero()\<close> is \<open>t = 0\<close>; a \<open>time.Duration\<close> is an integer
    number of nanoseconds; Go strings and byte slices are lists of 8-bit characters.
  \<^item> Errors are values: \<open>fmt.Errorf\<close> keeps its format and arguments, and with \<open>%w\<close> the
    wrapped error, so that \<open>errors.Is\<close> and \<open>errors.As\<close> can walk the chain as Go does.
  \<^item> Metrics sent to the statsd client are values of a datatype.
  \<^item> The interface locales that several components instantiate: lossless codecs, monotone
    registers, and loops that consume a script of environment answers.
\<close>

section \<open>Types\<close>

type_synonym lsn = "64 word"
type_synonym oid = "32 word"
type_synonym gotime = int
type_synonym duration = int
type_synonym bytes = string

abbreviation (input) IsZero :: "gotime \<Rightarrow> bool" where
  "IsZero t \<equiv> t = 0"


abbreviation (input) Microsecond :: duration where "Microsecond \<equiv> 1000"
abbreviation (input) Second :: duration where "Second \<equiv> 1000000000"
abbreviation (input) Minute :: duration where "Minute \<equiv> 60000000000"
abbreviation (input) Hour :: duration where "Hour \<equiv> 3600000000000"

text \<open>Two's complement wrap-around of Go's \<open>int64\<close> arithmetic.\<close>

definition wrap64 :: "int \<Rightarrow> int" where
  "wrap64 i = (i + 2 ^ 63) mod 2 ^ 64 - 2 ^ 63"

text \<open>Go's integer division rounds toward zero.\<close>

definition go_quot :: "int \<Rightarrow> int \<Rightarrow> int" where
  "go_quot a b = sgn a * sgn b * (\<bar>a\<bar> div \<bar>b\<bar>)"

section \<open>Errors\<close>

datatype fmt_arg =
    FInt int
  | FStr string
  | FTime gotime
  | FSprintf string "fmt_arg list"          \<comment> \<open>a nested \<open>fmt.Sprintf\<close>\<close>
  | FJoin "fmt_arg list" string             \<comment> \<open>a nested \<open>strings.Join\<close>\<close>

datatype go_error =
    Errorf string "fmt_arg list"            \<comment> \<open>\<open>fmt.Errorf\<close> without \<open>%w\<close>\<close>
  | Wrapf string "fmt_arg list" go_error    \<comment> \<open>\<open>fmt.Errorf\<close> whose last verb is \<open>%w\<close>\<close>
  | PgError string string                   \<comment> \<open>\<open>*pgconn.PgError\<close>: SQLSTATE and message\<close>
  | ErrSlotBusy
  | ErrStandbyTimeout
  | ErrNoRows                               \<comment> \<open>\<open>pgx.ErrNoRows\<close>\<close>
  | Canceled                                \<comment> \<open>\<open>context.Canceled\<close>\<close>
  | DeadlineExceeded                        \<comment> \<open>\<open>context.DeadlineExceeded\<close>\<close>
  | ExtError string                         \<comment> \<open>any other error of a library\<close>

text \<open>\<open>errors.Is\<close> compares along the \<open>Unwrap\<close> chain; the sentinels it is used with are
  compared by value.\<close>

primrec errors_Is :: "go_error \<Rightarrow> go_error \<Rightarrow> bool" where
  "errors_Is (Errorf f as) t = (t = Errorf f as)"
| "errors_Is (Wrapf f as e) t = (t = Wrapf f as e \<or> errors_Is e t)"
| "errors_Is (PgError c m) t = (t = PgError c m)"
| "errors_Is ErrSlotBusy t = (t = ErrSlotBusy)"
| "errors_Is ErrStandbyTimeout t = (t = ErrStandbyTimeout)"
| "errors_Is ErrNoRows t = (t = ErrNoRows)"
| "errors_Is Canceled t = (t = Canceled)"
| "errors_Is DeadlineExceeded t = (t = DeadlineExceeded)"
| "errors_Is (ExtError m) t = (t = ExtError m)"

text \<open>\<open>errors.As(err, &pgErr)\<close>: the SQLSTATE of the first \<open>*pgconn.PgError\<close> of the chain.\<close>

fun errors_As_PgError :: "go_error \<Rightarrow> string option" where
  "errors_As_PgError (Wrapf f as e) = errors_As_PgError e"
| "errors_As_PgError (PgError c m) = Some c"
| "errors_As_PgError _ = None"

section \<open>Metrics\<close>

datatype metric =
    Incr string "string list"
  | Gauge string rat "string list"
  | Distribution string rat "string list"

definition seconds_of :: "duration \<Rightarrow> rat" where
  "seconds_of d = of_int d / 1000000000"

section \<open>Lemma collections\<close>

named_theorems wf_pres \<open>preservation of the components' invariants\<close>
named_theorems frame \<open>fields an operation leaves alone\<close>

lemma wrap64_id [simp]: "- (2 ^ 63) \<le> i \<Longrightarrow> i < 2 ^ 63 \<Longrightarrow> wrap64 i = i"
  by (simp add: wrap64_def)

lemma wrap64_range: "- (2 ^ 63) \<le> wrap64 i \<and> wrap64 i < 2 ^ 63"
  by (simp add: wrap64_def)

lemma go_quot_nonneg [simp]: "0 \<le> a \<Longrightarrow> 0 < b \<Longrightarrow> go_quot a b = a div b"
  by (cases "a = 0") (simp_all add: go_quot_def)

lemma le_div_iff:
  assumes "0 < (b :: int)"
  shows "a \<le> x div b \<longleftrightarrow> a * b \<le> x"
proof
  assume "a \<le> x div b"
  then have "a * b \<le> x div b * b" using assms by (intro mult_right_mono) simp_all
  also have "\<dots> \<le> x" using assms by (simp add: minus_mod_eq_div_mult [symmetric])
  finally show "a * b \<le> x" .
next
  assume "a * b \<le> x"
  then have "a * b div b \<le> x div b" using assms by (intro zdiv_mono1)
  then show "a \<le> x div b" using assms by simp
qed

lemma length_filter_mono:
  "(\<And>x. x \<in> set xs \<Longrightarrow> P x \<Longrightarrow> Q x) \<Longrightarrow> length (filter P xs) \<le> length (filter Q xs)"
  by (induction xs) (auto intro: le_SucI)

lemma max_word_le_iff: "max (a :: lsn) b \<le> c \<longleftrightarrow> a \<le> c \<and> b \<le> c"
  by simp

lemma filter_map_conc: "concat (map f (xs @ [x])) = concat (map f xs) @ f x"
  by simp

lemma distinct_map_inj_on:
  "inj_on f A \<Longrightarrow> set xs \<subseteq> A \<Longrightarrow> distinct (map f xs) = distinct xs"
  by (auto simp: distinct_map intro: inj_on_subset)

section \<open>Interfaces\<close>

text \<open>
  A lossless text encoding: \<open>dec\<close> recovers every valid value from its encoding. The clients
  need only this law: keys built by \<open>enc\<close> are as distinct as the values they encode.
\<close>

locale codec =
  fixes enc :: "'a \<Rightarrow> string"
    and dec :: "string \<Rightarrow> 'a option"
    and valid :: "'a \<Rightarrow> bool"
  assumes dec_enc: "valid x \<Longrightarrow> dec (enc x) = Some x"
begin

lemma enc_inj: "valid x \<Longrightarrow> valid y \<Longrightarrow> enc x = enc y \<longleftrightarrow> x = y"
  by (metis dec_enc option.inject)

lemma enc_inj_on: "inj_on enc {x. valid x}"
  by (rule inj_onI) (simp add: enc_inj)

lemma distinct_enc: "(\<And>x. x \<in> set xs \<Longrightarrow> valid x) \<Longrightarrow> distinct (map enc xs) = distinct xs"
  by (rule distinct_map_inj_on [OF enc_inj_on]) auto

lemma dec_image: "(\<And>x. x \<in> set xs \<Longrightarrow> valid x) \<Longrightarrow> map (dec \<circ> enc) xs = map Some xs"
  by (simp add: dec_enc)

end

text \<open>
  A register that only moves forward: writing a value leaves the larger of the old and the
  new one, and reading after any sequence of writes gives the largest of them.
\<close>

locale monotone_register =
  fixes rd :: "'s \<Rightarrow> 'v :: linorder"
    and wr :: "'v \<Rightarrow> 's \<Rightarrow> 's"
  assumes read_write: "rd (wr v s) = max (rd s) v"
begin

lemma write_mono: "rd s \<le> rd (wr v s)"
  by (simp add: read_write)

lemma write_reaches: "v \<le> rd (wr v s)"
  by (simp add: read_write)

lemma writes_mono: "rd s \<le> rd (fold wr vs s)"
proof (induction vs arbitrary: s)
  case Nil
  show ?case by simp
next
  case (Cons v vs)
  have "rd s \<le> rd (wr v s)" by (rule write_mono)
  also have "\<dots> \<le> rd (fold wr vs (wr v s))" by (rule Cons.IH)
  finally show ?case by simp
qed

lemma writes_reach: "v \<in> set vs \<Longrightarrow> v \<le> rd (fold wr vs s)"
proof (induction vs arbitrary: s)
  case Nil
  then show ?case by simp
next
  case (Cons u us)
  then show ?case
    using writes_mono [of "wr u s" us] write_reaches [of u s] by auto
qed

lemma writes_bound: "(\<And>v. v \<in> set vs \<Longrightarrow> v \<le> b) \<Longrightarrow> rd s \<le> b \<Longrightarrow> rd (fold wr vs s) \<le> b"
  by (induction vs arbitrary: s) (auto simp: read_write)

end

text \<open>
  A loop that consumes a script of environment answers, one per round. A round leaves the loop
  running or returns an error; in both cases there is a state. The clients need an invariant
  rule that also covers the state at the return, a rule for relations between the first and the
  last state, and composition of scripts.
\<close>

datatype 's loop_result =
    Running 's
  | Returned go_error 's

primrec result_state :: "'s loop_result \<Rightarrow> 's" where
  "result_state (Running s) = s"
| "result_state (Returned err s) = s"

primrec result_holds :: "('s \<Rightarrow> bool) \<Rightarrow> ('s \<Rightarrow> bool) \<Rightarrow> 's loop_result \<Rightarrow> bool" where
  "result_holds P Q (Running s) = P s"
| "result_holds P Q (Returned err s) = Q s"

lemma result_holds_mono:
  "result_holds P Q r \<Longrightarrow> (\<And>s. P s \<Longrightarrow> P' s) \<Longrightarrow> (\<And>s. Q s \<Longrightarrow> Q' s) \<Longrightarrow> result_holds P' Q' r"
  by (cases r) simp_all

lemma result_holds_state: "result_holds P P r = P (result_state r)"
  by (cases r) simp_all

lemma result_holds_conj: "result_holds P Q r \<Longrightarrow> result_holds P' Q' r \<Longrightarrow>
   result_holds (\<lambda>s. P s \<and> P' s) (\<lambda>s. Q s \<and> Q' s) r"
  by (cases r) simp_all

locale scripted_loop =
  fixes step :: "'e \<Rightarrow> 's \<Rightarrow> 's loop_result"
    and run :: "'e list \<Rightarrow> 's \<Rightarrow> 's loop_result"
  assumes run_Nil: "run [] s = Running s"
    and run_Cons: "run (e # es) s =
      (case step e s of Returned err s' \<Rightarrow> Returned err s' | Running s' \<Rightarrow> run es s')"
begin

lemma run_append:
  "run (es @ es') s = (case run es s of Returned err s' \<Rightarrow> Returned err s' | Running s' \<Rightarrow> run es' s')"
  by (induction es arbitrary: s) (simp_all add: run_Nil run_Cons split: loop_result.splits)

lemma run_invariant:
  assumes "\<And>e s. e \<in> set es \<Longrightarrow> I s \<Longrightarrow> result_holds I Q (step e s)" "I s"
  shows "result_holds I Q (run es s)"
  using assms
proof (induction es arbitrary: s)
  case Nil
  then show ?case by (simp add: run_Nil)
next
  case (Cons e es)
  from Cons.prems(1) [of e s] Cons.prems(2) have "result_holds I Q (step e s)" by simp
  then show ?case using Cons by (cases "step e s") (simp_all add: run_Cons)
qed

lemma run_rel:
  assumes "\<And>e s. R s (result_state (step e s))" "\<And>s. R s s" "\<And>s t u. R s t \<Longrightarrow> R t u \<Longrightarrow> R s u"
  shows "R s (result_state (run es s))"
proof (induction es arbitrary: s)
  case Nil
  then show ?case using assms(2) by (simp add: run_Nil)
next
  case (Cons e es)
  then show ?case using assms(1) [of s e] assms(3)
    by (cases "step e s") (auto simp: run_Cons)
qed

text \<open>An invariant that the environment has to support in the states the loop goes through:
  \<open>H e s\<close> is assumed of each answer \<open>e\<close> of the script and the state \<open>s\<close> the loop has reached
  when it gets it.\<close>

lemma run_invariant_assuming:
  assumes step: "\<And>e s. I s \<Longrightarrow> H e s \<Longrightarrow> result_holds I Q (step e s)" and "I s"
    and env: "\<And>pre e suf s'. es = pre @ e # suf \<Longrightarrow> run pre s = Running s' \<Longrightarrow> H e s'"
  shows "result_holds I Q (run es s)"
  using assms(2,3)
proof (induction es arbitrary: s)
  case Nil
  then show ?case by (simp add: run_Nil)
next
  case (Cons e es)
  have "H e s" using Cons.prems(2) [of "[]" e es s] by (simp add: run_Nil)
  with step Cons.prems(1) have st: "result_holds I Q (step e s)" by blast
  show ?case
  proof (cases "step e s")
    case (Running s1)
    have "H e' s'" if "es = pre @ e' # suf" "run pre s1 = Running s'" for pre e' suf s'
      using Cons.prems(2) [of "e # pre" e' suf s'] that Running by (simp add: run_Cons)
    then have "result_holds I Q (run es s1)" using Cons.IH [of s1] st Running by simp
    then show ?thesis using Running by (simp add: run_Cons)
  next
    case (Returned err s1)
    then show ?thesis using st by (simp add: run_Cons)
  qed
qed

end

end
