(* ===== verification/Go_Strings.thy ===== *)
theory Go_Strings
  imports Pglg_Prelude
begin

text \<open>
  What the driver uses of Go's \<open>strconv\<close>, \<open>encoding/hex\<close>, \<open>strings\<close> and \<open>unicode/utf8\<close>:
  decimal printing and reading of \<open>int64\<close>, hexadecimal decoding, substring tests and the
  removal of invalid UTF-8. A Go string is a list of bytes (8-bit characters). The lemmas
  are the round trips and the shape facts the components rest on.
\<close>

section \<open>strconv\<close>

definition digit :: "nat \<Rightarrow> char" where
  "digit d = char_of (48 + d)"

definition is_digit :: "char \<Rightarrow> bool" where
  "is_digit c \<longleftrightarrow> 48 \<le> (of_char c :: nat) \<and> (of_char c :: nat) \<le> 57"

definition digit_val :: "char \<Rightarrow> nat" where
  "digit_val c = of_char c - 48"

fun digits_nat :: "nat \<Rightarrow> string" where
  "digits_nat n = (if n < 10 then [digit n] else digits_nat (n div 10) @ [digit (n mod 10)])"

declare digits_nat.simps [simp del]

definition FormatInt :: "int \<Rightarrow> string" where
  "FormatInt i = (if i < 0 then CHR ''-'' # digits_nat (nat (- i)) else digits_nat (nat i))"

datatype num_error = ErrSyntax | ErrRange

text \<open>The loop of \<open>strconv.ParseUint(s, 10, 64)\<close>: the accumulator must stay below \<open>2^64\<close>
  before and after each digit is added.\<close>

fun ParseUint_loop :: "nat \<Rightarrow> string \<Rightarrow> num_error + nat" where
  "ParseUint_loop n [] = Inr n"
| "ParseUint_loop n (c # cs) =
     (if \<not> is_digit c then Inl ErrSyntax
      else if n \<ge> 2 ^ 64 div 10 + 1 then Inl ErrRange
      else if n * 10 + digit_val c \<ge> 2 ^ 64 then Inl ErrRange
      else ParseUint_loop (n * 10 + digit_val c) cs)"

definition ParseUint :: "string \<Rightarrow> num_error + nat" where
  "ParseUint s = (if s = [] then Inl ErrSyntax else ParseUint_loop 0 s)"

definition ParseInt :: "string \<Rightarrow> num_error + int" where
  "ParseInt s =
     (if s = [] then Inl ErrSyntax
      else
        let neg = (hd s = CHR ''-'');
            body = (if hd s = CHR ''+'' \<or> hd s = CHR ''-'' then tl s else s)
        in case ParseUint body of
             Inl e \<Rightarrow> Inl e
           | Inr un \<Rightarrow>
               if \<not> neg \<and> un \<ge> 2 ^ 63 then Inl ErrRange
               else if neg \<and> un > 2 ^ 63 then Inl ErrRange
               else Inr (if neg then - int un else int un))"

definition int64_range :: "int \<Rightarrow> bool" where
  "int64_range i \<longleftrightarrow> - (2 ^ 63) \<le> i \<and> i < 2 ^ 63"

section \<open>encoding/hex\<close>

definition hex_val :: "char \<Rightarrow> nat option" where
  "hex_val c =
     (let n = of_char c :: nat in
      if 48 \<le> n \<and> n \<le> 57 then Some (n - 48)
      else if 97 \<le> n \<and> n \<le> 102 then Some (n - 87)
      else if 65 \<le> n \<and> n \<le> 70 then Some (n - 55)
      else None)"

datatype hex_error = InvalidByteError char | ErrLength

fun hex_DecodeString :: "string \<Rightarrow> hex_error + bytes" where
  "hex_DecodeString [] = Inr []"
| "hex_DecodeString [p] =
     (case hex_val p of None \<Rightarrow> Inl (InvalidByteError p) | Some _ \<Rightarrow> Inl ErrLength)"
| "hex_DecodeString (p # q # rest) =
     (case hex_val p of None \<Rightarrow> Inl (InvalidByteError p)
      | Some a \<Rightarrow>
        (case hex_val q of None \<Rightarrow> Inl (InvalidByteError q)
         | Some b \<Rightarrow>
           (case hex_DecodeString rest of Inl e \<Rightarrow> Inl e
            | Inr bs \<Rightarrow> Inr (char_of (a * 16 + b) # bs))))"

definition hex_digit :: "nat \<Rightarrow> char" where
  "hex_digit d = char_of (if d < 10 then 48 + d else 87 + d)"

definition hex_EncodeToString :: "bytes \<Rightarrow> string" where
  "hex_EncodeToString bs =
     concat (map (\<lambda>c. [hex_digit (of_char c div 16), hex_digit (of_char c mod 16)]) bs)"

section \<open>strings\<close>

definition HasPrefix :: "string \<Rightarrow> string \<Rightarrow> bool" where
  "HasPrefix s p \<longleftrightarrow> take (length p) s = p"

definition HasSuffix :: "string \<Rightarrow> string \<Rightarrow> bool" where
  "HasSuffix s p \<longleftrightarrow> HasPrefix (rev s) (rev p)"

fun Contains :: "string \<Rightarrow> string \<Rightarrow> bool" where
  "Contains [] p = (p = [])"
| "Contains (c # s) p = (HasPrefix (c # s) p \<or> Contains s p)"

fun Join :: "string list \<Rightarrow> string \<Rightarrow> string" where
  "Join [] sep = []"
| "Join [s] sep = s"
| "Join (s # t # ss) sep = s @ sep @ Join (t # ss) sep"

section \<open>unicode/utf8\<close>

definition byte_in :: "nat \<Rightarrow> nat \<Rightarrow> char \<Rightarrow> bool" where
  "byte_in lo hi c \<longleftrightarrow> lo \<le> (of_char c :: nat) \<and> (of_char c :: nat) \<le> hi"

definition rune2 :: "char \<Rightarrow> char \<Rightarrow> bool" where
  "rune2 c c1 \<longleftrightarrow> byte_in 194 223 c \<and> byte_in 128 191 c1"

definition rune3 :: "char \<Rightarrow> char \<Rightarrow> char \<Rightarrow> bool" where
  "rune3 c c1 c2 \<longleftrightarrow>
     byte_in 224 239 c \<and>
     byte_in (if of_char c = (224::nat) then 160 else 128)
             (if of_char c = (237::nat) then 159 else 191) c1 \<and>
     byte_in 128 191 c2"

definition rune4 :: "char \<Rightarrow> char \<Rightarrow> char \<Rightarrow> char \<Rightarrow> bool" where
  "rune4 c c1 c2 c3 \<longleftrightarrow>
     byte_in 240 244 c \<and>
     byte_in (if of_char c = (240::nat) then 144 else 128)
             (if of_char c = (244::nat) then 143 else 191) c1 \<and>
     byte_in 128 191 c2 \<and> byte_in 128 191 c3"

text \<open>\<open>utf8.DecodeRuneInString\<close>: the width of the valid rune the string starts with, and
  \<open>None\<close> where Go answers \<open>(RuneError, 1)\<close>. The ranges of the second byte exclude
  over-long forms, surrogates and code points above \<open>U+10FFFF\<close>.\<close>

definition rune_width :: "string \<Rightarrow> nat option" where
  "rune_width s =
     (case s of [] \<Rightarrow> None
      | c # s1 \<Rightarrow> if byte_in 0 127 c then Some 1 else
     (case s1 of [] \<Rightarrow> None
      | c1 # s2 \<Rightarrow> if rune2 c c1 then Some 2 else
     (case s2 of [] \<Rightarrow> None
      | c2 # s3 \<Rightarrow> if rune3 c c1 c2 then Some 3 else
     (case s3 of [] \<Rightarrow> None
      | c3 # _ \<Rightarrow> if rune4 c c1 c2 c3 then Some 4 else None))))"

lemma rune_width_bounds: "rune_width s = Some w \<Longrightarrow> 1 \<le> w \<and> w \<le> 4 \<and> w \<le> length s"
  by (auto simp: rune_width_def split: list.splits if_splits)

text \<open>\<open>strings.ToValidUTF8(s, "")\<close>: every byte that starts no valid rune is dropped.\<close>

function ToValidUTF8 :: "string \<Rightarrow> string" where
  "ToValidUTF8 s =
     (if s = [] then []
      else case rune_width s of
             None \<Rightarrow> ToValidUTF8 (tl s)
           | Some w \<Rightarrow> take w s @ ToValidUTF8 (drop w s))"
  by pat_completeness auto
termination
  by (relation "measure length") (auto dest: rune_width_bounds)

text \<open>\<open>utf8.ValidString\<close>.\<close>

function ValidString :: "string \<Rightarrow> bool" where
  "ValidString s =
     (if s = [] then True
      else case rune_width s of None \<Rightarrow> False | Some w \<Rightarrow> ValidString (drop w s))"
  by pat_completeness auto
termination
  by (relation "measure length") (auto dest: rune_width_bounds)

declare ToValidUTF8.simps [simp del] ValidString.simps [simp del]

section \<open>Decimal round trip\<close>

lemma of_char_digit [simp]: "d < 10 \<Longrightarrow> of_char (digit d) = (48 + d :: nat)"
  by (simp add: digit_def)

lemma is_digit_digit [simp]: "d < 10 \<Longrightarrow> is_digit (digit d)"
  by (simp add: is_digit_def)

lemma digit_val_digit [simp]: "d < 10 \<Longrightarrow> digit_val (digit d) = d"
  by (simp add: digit_val_def)

lemma digits_nat_nonempty [simp]: "digits_nat n \<noteq> []"
  by (subst digits_nat.simps) simp

lemma digits_nat_digits: "c \<in> set (digits_nat n) \<Longrightarrow> is_digit c"
proof (induction n rule: digits_nat.induct)
  case (1 n)
  then show ?case
    by (cases "n < 10") (auto simp: digits_nat.simps [of n])
qed

definition digits_val :: "string \<Rightarrow> nat" where
  "digits_val = foldl (\<lambda>n c. n * 10 + digit_val c) 0"

lemma digits_val_append: "foldl (\<lambda>n c. n * 10 + digit_val c) a (xs @ ys) =
    foldl (\<lambda>n c. n * 10 + digit_val c) (foldl (\<lambda>n c. n * 10 + digit_val c) a xs) ys"
  by simp

lemma digits_val_digits_nat: "digits_val (digits_nat n) = n"
proof (induction n rule: digits_nat.induct)
  case (1 n)
  show ?case
  proof (cases "n < 10")
    case True
    then show ?thesis by (simp add: digits_val_def digits_nat.simps [of n])
  next
    case False
    with 1 have "digits_val (digits_nat (n div 10)) = n div 10" by simp
    with False show ?thesis by (simp add: digits_val_def digits_nat.simps [of n])
  qed
qed

lemma foldl_digits_mono: "a \<le> foldl (\<lambda>n c. n * 10 + digit_val c) a cs"
  by (induction cs arbitrary: a) (simp, fastforce intro: order_trans [rotated])

lemma ParseUint_loop_digits:
  "(\<And>c. c \<in> set cs \<Longrightarrow> is_digit c) \<Longrightarrow>
   foldl (\<lambda>n c. n * 10 + digit_val c) n cs < 2 ^ 64 \<Longrightarrow>
   ParseUint_loop n cs = Inr (foldl (\<lambda>n c. n * 10 + digit_val c) n cs)"
proof (induction cs arbitrary: n)
  case Nil
  then show ?case by simp
next
  case (Cons c cs)
  have lt: "n * 10 + digit_val c < 2 ^ 64"
    using Cons.prems(2) foldl_digits_mono [of "n * 10 + digit_val c" cs] by simp
  then have "\<not> n \<ge> 2 ^ 64 div 10 + 1" by simp
  with lt Cons show ?case by simp
qed

lemma ParseUint_digits_nat: "n < 2 ^ 64 \<Longrightarrow> ParseUint (digits_nat n) = Inr n"
  using ParseUint_loop_digits [of "digits_nat n" 0] digits_nat_digits digits_val_digits_nat [of n]
  by (simp add: ParseUint_def digits_val_def)

lemma hd_digits_nat: "hd (digits_nat n) \<noteq> CHR ''-'' \<and> hd (digits_nat n) \<noteq> CHR ''+''"
proof -
  have "is_digit (hd (digits_nat n))" by (rule digits_nat_digits [of _ n]) simp
  then show ?thesis by (auto simp: is_digit_def)
qed

lemma ParseInt_FormatInt: "int64_range i \<Longrightarrow> ParseInt (FormatInt i) = Inr i"
  using hd_digits_nat [of "nat i"]
  by (auto simp: ParseInt_def FormatInt_def int64_range_def ParseUint_digits_nat Let_def)

lemma ParseInt_range: "ParseInt s = Inr i \<Longrightarrow> int64_range i"
  by (auto simp: ParseInt_def int64_range_def Let_def split: if_splits sum.splits)

section \<open>Hexadecimal round trip\<close>

lemma of_char_lt_256: "(of_char c :: nat) < 256"
  by simp

lemma hex_val_digit: "d < 16 \<Longrightarrow> hex_val (hex_digit d) = Some d"
  by (auto simp: hex_val_def hex_digit_def Let_def)

lemma hex_decode_encode: "hex_DecodeString (hex_EncodeToString bs) = Inr bs"
proof (induction bs)
  case Nil
  show ?case by (simp add: hex_EncodeToString_def)
next
  case (Cons b bs)
  have "(of_char b :: nat) div 16 < 16" using of_char_lt_256 [of b] by linarith
  with Cons show ?case
    by (simp add: hex_EncodeToString_def hex_val_digit)
qed

section \<open>UTF-8\<close>

lemma ToValidUTF8_Nil [simp]: "ToValidUTF8 [] = []"
  by (subst ToValidUTF8.simps) simp

lemma ValidString_Nil [simp]: "ValidString []"
  by (subst ValidString.simps) simp

text \<open>The lead bytes of the four widths are disjoint, and no continuation byte is a lead
  byte.\<close>

lemma rune_lead_disjoint:
  "rune2 c c1 \<Longrightarrow> \<not> byte_in 0 127 c"
  "rune3 c c1 c2 \<Longrightarrow> \<not> byte_in 0 127 c \<and> \<not> rune2 c d"
  "rune4 c c1 c2 c3 \<Longrightarrow> \<not> byte_in 0 127 c \<and> \<not> rune2 c d \<and> \<not> rune3 c d e"
  by (auto simp: rune2_def rune3_def rune4_def byte_in_def)

lemma rune_continuation:
  "rune2 c c1 \<Longrightarrow> byte_in 128 191 c1"
  "rune3 c c1 c2 \<Longrightarrow> byte_in 128 191 c1 \<and> byte_in 128 191 c2"
  "rune4 c c1 c2 c3 \<Longrightarrow> byte_in 128 191 c1 \<and> byte_in 128 191 c2 \<and> byte_in 128 191 c3"
  by (auto simp: rune2_def rune3_def rune4_def byte_in_def split: if_splits)

lemma rune_width_continuation: "byte_in 128 191 c \<Longrightarrow> rune_width (c # s) = None"
  by (auto simp: rune_width_def rune2_def rune3_def rune4_def byte_in_def split: list.splits)

lemma rune_width_elim:
  assumes "rune_width s = Some w"
  obtains (one) c t where "s = c # t" "w = 1" "byte_in 0 127 c"
    | (two) c c1 t where "s = c # c1 # t" "w = 2" "rune2 c c1"
    | (three) c c1 c2 t where "s = c # c1 # c2 # t" "w = 3" "rune3 c c1 c2"
    | (four) c c1 c2 c3 t where "s = c # c1 # c2 # c3 # t" "w = 4" "rune4 c c1 c2 c3"
  using assms by (auto simp: rune_width_def split: list.splits if_splits)

text \<open>A valid rune stays valid, with the same width, whatever follows it; cut short, all of
  it is dropped.\<close>

lemma rune_width_take: "rune_width s = Some w \<Longrightarrow> rune_width (take w s @ t) = Some w"
  by (erule rune_width_elim) (simp_all add: rune_width_def rune_lead_disjoint)

lemma rune_width_cut:
  assumes "rune_width s = Some w" and "n < w"
  shows "rune_width (take n s) = None"
  using assms(1)
proof (cases rule: rune_width_elim)
  case (three c c1 c2 t)
  with assms(2) have "n = 0 \<or> n = 1 \<or> n = 2" by auto
  with three show ?thesis
    by (auto simp: rune_width_def rune_lead_disjoint numeral_2_eq_2)
next
  case (four c c1 c2 c3 t)
  with assms(2) have "n = 0 \<or> n = 1 \<or> n = 2 \<or> n = 3" by auto
  with four show ?thesis
    by (auto simp: rune_width_def rune_lead_disjoint numeral_2_eq_2 numeral_3_eq_3)
next
  case (two c c1 t)
  with assms(2) have "n = 0 \<or> n = 1" by auto
  with two show ?thesis by (auto simp: rune_width_def rune_lead_disjoint)
qed (use assms(2) in \<open>simp add: rune_width_def\<close>)

lemma ToValidUTF8_continuations:
  "(\<And>c. c \<in> set cs \<Longrightarrow> byte_in 128 191 c) \<Longrightarrow> ToValidUTF8 cs = []"
  by (induction cs) (simp_all add: ToValidUTF8.simps [of "_ # _"] rune_width_continuation)

lemma ToValidUTF8_cut:
  assumes "rune_width s = Some w" and "n < w"
  shows "ToValidUTF8 (take n s) = []"
proof (cases n)
  case (Suc m)
  have "byte_in 128 191 d" if "d \<in> set (take m (tl s))" for d
    using assms(1)
  proof (cases rule: rune_width_elim)
    case (three c c1 c2 t)
    with assms(2) that Suc have "d \<in> {c1, c2}" by (auto simp: take_Cons' split: if_splits)
    with rune_continuation(2) three show ?thesis by blast
  next
    case (four c c1 c2 c3 t)
    with assms(2) that Suc have "d \<in> {c1, c2, c3}" by (auto simp: take_Cons' split: if_splits)
    with rune_continuation(3) four show ?thesis by blast
  next
    case (two c c1 t)
    with assms(2) that Suc show ?thesis
      using rune_continuation(1) by (auto simp: take_Cons' split: if_splits)
  qed (use assms(2) that Suc in simp)
  moreover have "tl (take n s) = take m (tl s)" using Suc by (cases s) simp_all
  ultimately show ?thesis
    using rune_width_cut [OF assms] ToValidUTF8_continuations [of "take m (tl s)"]
    by (simp add: ToValidUTF8.simps [of "take n s"])
qed simp

lemma length_ToValidUTF8: "length (ToValidUTF8 s) \<le> length s"
proof (induction s rule: ToValidUTF8.induct)
  case (1 s)
  show ?case
  proof (cases "s = []")
    case False
    show ?thesis
    proof (cases "rune_width s")
      case None
      with False 1 show ?thesis by (simp add: ToValidUTF8.simps [of s])
    next
      case (Some w)
      with False 1 have "length (ToValidUTF8 (drop w s)) \<le> length s - w" by simp
      with False Some rune_width_bounds [OF Some] show ?thesis
        by (auto simp: ToValidUTF8.simps [of s])
    qed
  qed simp
qed

lemma ValidString_rune: "rune_width s = Some w \<Longrightarrow> ValidString (take w s @ t) = ValidString t"
  using rune_width_bounds [of s w] rune_width_take [of s w t]
  by (subst ValidString.simps) auto

lemma ValidString_ToValidUTF8: "ValidString (ToValidUTF8 s)"
proof (induction s rule: ToValidUTF8.induct)
  case (1 s)
  show ?case
  proof (cases "s = []")
    case False
    with 1 show ?thesis
      by (cases "rune_width s") (simp_all add: ToValidUTF8.simps [of s] ValidString_rune)
  qed simp
qed

lemma ToValidUTF8_valid: "ValidString s \<Longrightarrow> ToValidUTF8 s = s"
proof (induction s rule: ToValidUTF8.induct)
  case (1 s)
  show ?case
  proof (cases "s = []")
    case False
    with 1 show ?thesis
      by (cases "rune_width s") (auto simp: ToValidUTF8.simps [of s] ValidString.simps [of s])
  qed simp
qed

text \<open>Truncating a valid string at any byte and removing what is then invalid loses less
  than one rune: the result is a prefix at most three bytes shorter than the cut.\<close>

lemma ToValidUTF8_take:
  "ValidString s \<Longrightarrow> n \<le> length s \<Longrightarrow>
   prefix (ToValidUTF8 (take n s)) s \<and> n < length (ToValidUTF8 (take n s)) + 4"
proof (induction s arbitrary: n rule: ValidString.induct)
  case (1 s)
  show ?case
  proof (cases "s = []")
    case True
    with 1 show ?thesis by simp
  next
    case False
    then obtain w where w: "rune_width s = Some w" and v: "ValidString (drop w s)"
      using 1(2) by (auto simp: ValidString.simps [of s] split: option.splits)
    note wb = rune_width_bounds [OF w]
    show ?thesis
    proof (cases "n < w")
      case True
      then show ?thesis using ToValidUTF8_cut [OF w True] wb by simp
    next
      case False
      define r where "r = ToValidUTF8 (take (n - w) (drop w s))"
      have IH: "prefix r (drop w s) \<and> n - w < length r + 4"
        unfolding r_def using 1(1) [OF \<open>s \<noteq> []\<close> w v, of "n - w"] 1(3) by simp
      have "take n s = take w s @ take (n - w) (drop w s)"
        using False by (metis le_add_diff_inverse not_less take_add)
      then have "ToValidUTF8 (take n s) = take w s @ r"
        using rune_width_take [OF w] wb by (subst ToValidUTF8.simps) (auto simp: r_def)
      moreover have "prefix (take w s @ r) s"
        using IH by (metis append_take_drop_id same_prefix_prefix)
      ultimately show ?thesis using IH wb by auto
    qed
  qed
qed

end
