(* ===== verification/Go_Time.thy ===== *)
theory Go_Time
  imports Go_Strings
begin

text \<open>
  What the driver uses of Go's \<open>time\<close> package: the civil calendar, \<open>Truncate\<close>, \<open>Format\<close> and
  \<open>Parse\<close> for the layouts that occur in the sources, and \<open>ParseDuration\<close>. A layout is given
  as the chunks \<open>time.nextStdChunk\<close> splits it into. Times are UTC instants; \<open>Format\<close> is only
  called on UTC times in the sources. The main facts are that the calendar is a bijection and
  that parsing inverts formatting.
\<close>

section \<open>Calendar\<close>

definition leap :: "int \<Rightarrow> bool" where
  "leap y \<longleftrightarrow> y mod 4 = 0 \<and> (y mod 100 \<noteq> 0 \<or> y mod 400 = 0)"

definition year_len :: "int \<Rightarrow> int" where
  "year_len y = (if leap y then 366 else 365)"

definition days_before_year :: "int \<Rightarrow> int" where
  "days_before_year y = 365 * (y - 1) + (y - 1) div 4 - (y - 1) div 100 + (y - 1) div 400"

text \<open>Year and day of the year of a day number (day 0 is 1 January of year 1), by cutting off
  400-, 100-, 4- and 1-year cycles; the last day of a 400- or 4-year cycle would fall into a
  fifth part and is kept in the fourth.\<close>

definition year_yday :: "int \<Rightarrow> int \<times> int" where
  "year_yday d =
     (let n400 = d div 146097; r = d mod 146097;
          n100 = min 3 (r div 36524); r1 = r - 36524 * n100;
          n4 = r1 div 1461; r2 = r1 mod 1461;
          n1 = min 3 (r2 div 365)
      in (400 * n400 + 100 * n100 + 4 * n4 + n1 + 1, r2 - 365 * n1))"

definition month_lens :: "bool \<Rightarrow> int list" where
  "month_lens lp = [31, if lp then 29 else 28, 31, 30, 31, 30, 31, 31, 30, 31, 30, 31]"

definition daysIn :: "int \<Rightarrow> int \<Rightarrow> int" where
  "daysIn m y = month_lens (leap y) ! nat (m - 1)"

definition days_before_month :: "int \<Rightarrow> int \<Rightarrow> int" where
  "days_before_month y m = sum_list (take (nat (m - 1)) (month_lens (leap y)))"

fun month_mday :: "int list \<Rightarrow> int \<Rightarrow> int \<Rightarrow> int \<times> int" where
  "month_mday [] m k = (m, k + 1)"
| "month_mday (l # ls) m k = (if k < l then (m, k + 1) else month_mday ls (m + 1) (k - l))"

record civil =
  c_year :: int
  c_month :: int
  c_day :: int
  c_hour :: int
  c_min :: int
  c_sec :: int
  c_nsec :: int

definition civil_of :: "gotime \<Rightarrow> civil" where
  "civil_of t =
     (let d = t div (24 * Hour); n = t mod (24 * Hour);
          (y, k) = year_yday d;
          (m, dd) = month_mday (month_lens (leap y)) 1 k
      in \<lparr>c_year = y, c_month = m, c_day = dd,
          c_hour = n div Hour, c_min = n mod Hour div Minute,
          c_sec = n mod Minute div Second, c_nsec = n mod Second\<rparr>)"

text \<open>\<open>time.Date(year, month, day, hour, min, sec, nsec, UTC)\<close>.\<close>

definition Date :: "civil \<Rightarrow> gotime" where
  "Date c =
     (days_before_year (c_year c) + days_before_month (c_year c) (c_month c) + c_day c - 1) * (24 * Hour)
     + c_hour c * Hour + c_min c * Minute + c_sec c * Second + c_nsec c"

definition civil_ok :: "civil \<Rightarrow> bool" where
  "civil_ok c \<longleftrightarrow>
     1 \<le> c_month c \<and> c_month c \<le> 12 \<and> 1 \<le> c_day c \<and> c_day c \<le> daysIn (c_month c) (c_year c) \<and>
     0 \<le> c_hour c \<and> c_hour c < 24 \<and> 0 \<le> c_min c \<and> c_min c < 60 \<and>
     0 \<le> c_sec c \<and> c_sec c < 60 \<and> 0 \<le> c_nsec c \<and> c_nsec c < Second"

text \<open>\<open>t.Truncate(d)\<close>: down to a multiple of \<open>d\<close> since the zero time.\<close>

definition Truncate :: "gotime \<Rightarrow> duration \<Rightarrow> gotime" where
  "Truncate t d = (if d \<le> 0 then t else t - t mod d)"

section \<open>The calendar is a bijection\<close>

lemma div_mult_add_small: "0 \<le> r \<Longrightarrow> r < n \<Longrightarrow> (n * q + r) div n = (q :: int)"
  by simp

lemma mod_mult_add_small: "0 \<le> r \<Longrightarrow> r < n \<Longrightarrow> (n * q + r) mod n = (r :: int)"
  by simp

lemma days_before_year_cycles:
  fixes a b c e :: int
  assumes "0 \<le> b" "b \<le> 3" "0 \<le> c" "c \<le> 24" "0 \<le> e" "e \<le> 3"
  shows "days_before_year (400 * a + 100 * b + 4 * c + e + 1) =
    146097 * a + 36524 * b + 1461 * c + 365 * e"
proof -
  let ?y = "400 * a + 100 * b + 4 * c + e"
  have "(4 * (100 * a + 25 * b + c) + e) div 4 = 100 * a + 25 * b + c"
    by (rule div_mult_add_small) (use assms in linarith)+
  then have d4: "?y div 4 = 100 * a + 25 * b + c" by (simp add: algebra_simps)
  have "(100 * (4 * a + b) + (4 * c + e)) div 100 = 4 * a + b"
    by (rule div_mult_add_small) (use assms in linarith)+
  then have d100: "?y div 100 = 4 * a + b" by (simp add: algebra_simps)
  have "(400 * a + (100 * b + 4 * c + e)) div 400 = a"
    by (rule div_mult_add_small) (use assms in linarith)+
  then have d400: "?y div 400 = a" by (simp add: algebra_simps)
  have "days_before_year (?y + 1) = 365 * ?y + ?y div 4 - ?y div 100 + ?y div 400"
    by (simp add: days_before_year_def)
  then show ?thesis unfolding d4 d100 d400 by simp
qed

lemma leap_cycles:
  fixes a b c e :: int
  assumes "0 \<le> b" "b \<le> 3" "0 \<le> c" "c \<le> 24" "0 \<le> e" "e \<le> 3"
  shows "leap (400 * a + 100 * b + 4 * c + e + 1) \<longleftrightarrow> e = 3 \<and> (c \<noteq> 24 \<or> b = 3)"
proof -
  let ?y = "400 * a + 100 * b + 4 * c + e + 1"
  have "?y = (e + 1) + 4 * (100 * a + 25 * b + c)" by simp
  then have "?y mod 4 = (e + 1) mod 4" by (metis mod_mult_self2)
  then have m4: "?y mod 4 = 0 \<longleftrightarrow> e = 3"
    using assms by (cases "e = 3") (simp, simp add: mod_pos_pos_trivial)
  have "?y = (4 * c + e + 1) + 100 * (4 * a + b)" by simp
  then have "?y mod 100 = (4 * c + e + 1) mod 100" by (metis mod_mult_self2)
  then have m100: "e = 3 \<Longrightarrow> ?y mod 100 = 0 \<longleftrightarrow> c = 24"
    using assms by (cases "c = 24") (simp, simp add: mod_pos_pos_trivial)
  have "?y = (100 * b + 4 * c + e + 1) + 400 * a" by simp
  then have "?y mod 400 = (100 * b + 4 * c + e + 1) mod 400" by (metis mod_mult_self2)
  then have m400: "e = 3 \<Longrightarrow> c = 24 \<Longrightarrow> ?y mod 400 = 0 \<longleftrightarrow> b = 3"
    using assms by (cases "b = 3") (simp, simp add: mod_pos_pos_trivial)
  show ?thesis unfolding leap_def using m4 m100 m400 by auto
qed

lemma year_cycles:
  fixes y :: int
  obtains a b c e where "y = 400 * a + 100 * b + 4 * c + e + 1"
    "0 \<le> b" "b \<le> 3" "0 \<le> c" "c \<le> 24" "0 \<le> e" "e \<le> 3"
proof -
  define r s where "r = (y - 1) mod 400" and "s = r mod 100"
  have r: "0 \<le> r" "r < 400" and s: "0 \<le> s" "s < 100" by (simp_all add: r_def s_def)
  have "y - 1 = 400 * ((y - 1) div 400) + r" "r = 100 * (r div 100) + s" "s = 4 * (s div 4) + s mod 4"
    by (simp_all add: r_def s_def)
  then have "y = 400 * ((y - 1) div 400) + 100 * (r div 100) + 4 * (s div 4) + s mod 4 + 1"
    by linarith
  moreover have "0 \<le> r div 100" "r div 100 \<le> 3" "0 \<le> s div 4" "s div 4 \<le> 24"
    "0 \<le> s mod 4" "s mod 4 \<le> 3"
    using r s by linarith+
  ultimately show ?thesis by (rule that)
qed

lemma year_yday_inverse:
  assumes "0 \<le> k" "k < year_len y"
  shows "year_yday (days_before_year y + k) = (y, k)"
proof -
  obtain a b c e where y: "y = 400 * a + 100 * b + 4 * c + e + 1"
    and r: "0 \<le> b" "b \<le> 3" "0 \<le> c" "c \<le> 24" "0 \<le> e" "e \<le> 3"
    by (rule year_cycles)
  define d where "d = days_before_year y + k"
  have d: "d = 146097 * a + 36524 * b + 1461 * c + 365 * e + k"
    by (simp add: d_def y days_before_year_cycles r)
  have k: "k \<le> 365" "e = 3 \<and> (c \<noteq> 24 \<or> b = 3) \<or> k \<le> 364"
    using assms(2) unfolding year_len_def y leap_cycles [OF r] by (auto split: if_splits)
  define s where "s = 365 * e + k"
  have s: "0 \<le> s" "s \<le> 1460" "c = 24 \<longrightarrow> b \<noteq> 3 \<longrightarrow> s \<le> 1459"
    using k r assms(1) unfolding s_def by auto
  define q where "q = 1461 * c + s"
  have q: "0 \<le> q" "q \<le> 36524" "b \<noteq> 3 \<longrightarrow> q \<le> 36523"
    using s r unfolding q_def by auto
  have d': "d = 146097 * a + (36524 * b + q)" by (simp add: d q_def s_def)
  have "0 \<le> 36524 * b + q" "36524 * b + q < 146097" using q r by auto
  then have n400: "d div 146097 = a" and r0: "d mod 146097 = 36524 * b + q"
    unfolding d' by simp_all
  have n100: "min 3 ((36524 * b + q) div 36524) = b"
  proof (cases "b = 3")
    case True
    then show ?thesis using q by simp
  next
    case False
    then have "(36524 * b + q) div 36524 = b" using q by simp
    then show ?thesis using r by simp
  qed
  have n4: "q div 1461 = c" "q mod 1461 = s" unfolding q_def using s by simp_all
  have n1: "min 3 (s div 365) = e"
  proof (cases "e = 3")
    case True
    then show ?thesis using assms(1) by (simp add: s_def)
  next
    case False
    then have "s div 365 = e" using k assms(1) by (simp add: s_def)
    then show ?thesis using r by simp
  qed
  show ?thesis
    unfolding d_def [symmetric] year_yday_def Let_def n400 r0 n100
    using n4 n1 by (simp add: y s_def)
qed

lemma year_yday_sound:
  assumes "year_yday d = (y, k)"
  shows "days_before_year y + k = d \<and> 0 \<le> k \<and> k < year_len y"
proof -
  define a r b where "a = d div 146097" and "r = d mod 146097" and "b = min 3 (r div 36524)"
  define r1 where "r1 = r - 36524 * b"
  define c r2 e where "c = r1 div 1461" and "r2 = r1 mod 1461" and "e = min 3 (r2 div 365)"
  have yk: "y = 400 * a + 100 * b + 4 * c + e + 1" "k = r2 - 365 * e"
    using assms unfolding year_yday_def Let_def a_def r_def b_def r1_def c_def r2_def e_def
    by blast+
  have d: "d = 146097 * a + r" and r: "0 \<le> r" "r < 146097" by (simp_all add: a_def r_def)
  have b: "0 \<le> b" "b \<le> 3" and r1: "0 \<le> r1" "r1 < 36524 + (if b = 3 then 1 else 0)"
    using r unfolding b_def r1_def by (auto split: if_splits)
  have c: "r1 = 1461 * c + r2" and r2: "0 \<le> r2" "r2 < 1461"
    unfolding c_def r2_def by simp_all
  then have c': "0 \<le> c" "c \<le> 24" "c = 24 \<longrightarrow> b \<noteq> 3 \<longrightarrow> r2 < 1460"
    using r1 by (simp_all split: if_splits)
  have e: "0 \<le> e" "e \<le> 3" and k: "0 \<le> k" "k \<le> (if e = 3 \<and> (c \<noteq> 24 \<or> b = 3) then 365 else 364)"
    using r2 c'(3) unfolding yk e_def by (auto split: if_splits)
  have "days_before_year y + k = d"
    using d c c' b e by (simp add: yk(1) days_before_year_cycles) (simp add: yk(2) r1_def)
  then show ?thesis
    using k b c' e by (auto simp: year_len_def yk(1) leap_cycles split: if_splits)
qed

lemma month_mday_sound:
  "month_mday ls m k = (m', d) \<Longrightarrow> 0 \<le> k \<Longrightarrow> k < sum_list ls \<Longrightarrow>
   \<exists>i < length ls. m' = m + int i \<and> 1 \<le> d \<and> d \<le> ls ! i \<and> sum_list (take i ls) + d - 1 = k"
proof (induction ls m k rule: month_mday.induct)
  case (1 m k)
  then show ?case by simp
next
  case (2 l ls m k)
  show ?case
  proof (cases "k < l")
    case True
    with 2 show ?thesis by (intro exI [of _ 0]) simp
  next
    case False
    then obtain i where "i < length ls" "m' = m + 1 + int i" "1 \<le> d" "d \<le> ls ! i"
      "sum_list (take i ls) + d - 1 = k - l"
      using 2 by auto
    then show ?thesis by (intro exI [of _ "Suc i"]) simp
  qed
qed

lemma month_mday_inverse:
  "i < length ls \<Longrightarrow> 1 \<le> d \<Longrightarrow> d \<le> ls ! i \<Longrightarrow> (\<And>l. l \<in> set ls \<Longrightarrow> 0 \<le> l) \<Longrightarrow>
   month_mday ls m (sum_list (take i ls) + d - 1) = (m + int i, d)"
proof (induction ls arbitrary: i m)
  case Nil
  then show ?case by simp
next
  case (Cons l ls)
  show ?case
  proof (cases i)
    case 0
    with Cons.prems show ?thesis by simp
  next
    case (Suc j)
    have "0 \<le> sum_list (take j ls)"
      using Cons.prems(4) by (auto intro!: sum_list_nonneg dest: in_set_takeD)
    moreover have "month_mday ls (m + 1) (sum_list (take j ls) + d - 1) = (m + 1 + int j, d)"
      using Cons.prems Suc by (intro Cons.IH) auto
    ultimately show ?thesis using Suc Cons.prems by (simp add: algebra_simps)
  qed
qed

lemma month_lens_facts:
  "length (month_lens lp) = 12" "sum_list (month_lens lp) = (if lp then 366 else 365)"
  "l \<in> set (month_lens lp) \<Longrightarrow> 0 \<le> l"
  by (auto simp: month_lens_def split: if_splits)

lemma day_clock:
  fixes n :: int
  assumes "0 \<le> n" "n < 24 * Hour"
  shows "n div Hour * Hour + n mod Hour div Minute * Minute + n mod Minute div Second * Second
      + n mod Second = n"
    and "n div Hour < 24" "n mod Hour div Minute < 60" "n mod Minute div Second < 60"
proof -
  have "n mod Hour mod Minute = n mod Minute" "n mod Minute mod Second = n mod Second"
    by (simp_all add: mod_mod_cancel)
  moreover have "n = n div Hour * Hour + n mod Hour"
    "n mod Hour = n mod Hour div Minute * Minute + n mod Hour mod Minute"
    "n mod Minute = n mod Minute div Second * Second + n mod Minute mod Second"
    by (simp_all only: div_mult_mod_eq)
  ultimately show "n div Hour * Hour + n mod Hour div Minute * Minute
      + n mod Minute div Second * Second + n mod Second = n"
    by linarith
  show "n div Hour < 24" using assms by linarith
  have "0 \<le> n mod Hour" "n mod Hour < Hour" "0 \<le> n mod Minute" "n mod Minute < Minute" by simp_all
  then show "n mod Hour div Minute < 60" "n mod Minute div Second < 60" by linarith+
qed

lemma day_clock_inverse:
  fixes h m s n :: int
  assumes "0 \<le> h" "h < 24" "0 \<le> m" "m < 60" "0 \<le> s" "s < 60" "0 \<le> n" "n < Second"
  defines "x \<equiv> h * Hour + m * Minute + s * Second + n"
  shows "0 \<le> x" "x < 24 * Hour" "x div Hour = h" "x mod Hour div Minute = m"
    "x mod Minute div Second = s" "x mod Second = n"
proof -
  show "0 \<le> x" "x < 24 * Hour" using assms by (auto simp: x_def)
  have "x = Hour * h + (m * Minute + s * Second + n)" by (simp add: x_def)
  moreover have "0 \<le> m * Minute + s * Second + n" "m * Minute + s * Second + n < Hour"
    using assms by auto
  ultimately have xh: "x div Hour = h" "x mod Hour = m * Minute + s * Second + n" by simp_all
  have "m * Minute + s * Second + n = Minute * m + (s * Second + n)" by simp
  moreover have sn: "0 \<le> s * Second + n" "s * Second + n < Minute" using assms by auto
  ultimately show "x mod Hour div Minute = m" using xh by simp
  show "x div Hour = h" by (rule xh)
  have "(Minute * (h * 60 + m) + (s * Second + n)) mod Minute = s * Second + n"
    using sn by (rule mod_mult_add_small)
  moreover have "Minute * (h * 60 + m) + (s * Second + n) = x" by (simp add: x_def)
  ultimately have xm: "x mod Minute = s * Second + n" by simp
  then show "x mod Minute div Second = s" using assms by simp
  have "(Second * (h * 3600 + m * 60 + s) + n) mod Second = n"
    using assms(7,8) by (rule mod_mult_add_small)
  moreover have "Second * (h * 3600 + m * 60 + s) + n = x" by (simp add: x_def)
  ultimately show "x mod Second = n" by simp
qed

lemma civil_ok_civil_of: "civil_ok (civil_of t)" and Date_civil_of: "Date (civil_of t) = t"
proof -
  define d n where "d = t div (24 * Hour)" and "n = t mod (24 * Hour)"
  have t: "t = d * (24 * Hour) + n" and n: "0 \<le> n" "n < 24 * Hour" by (simp_all add: d_def n_def)
  obtain y k where yk: "year_yday d = (y, k)" by force
  note ys = year_yday_sound [OF yk]
  obtain m dd where md: "month_mday (month_lens (leap y)) 1 k = (m, dd)" by force
  obtain i where i: "i < 12" "m = 1 + int i" "1 \<le> dd" "dd \<le> month_lens (leap y) ! i"
    "sum_list (take i (month_lens (leap y))) + dd - 1 = k"
    using month_mday_sound [OF md] ys by (auto simp: month_lens_facts year_len_def)
  have c: "civil_of t = \<lparr>c_year = y, c_month = m, c_day = dd, c_hour = n div Hour,
      c_min = n mod Hour div Minute, c_sec = n mod Minute div Second, c_nsec = n mod Second\<rparr>"
    unfolding civil_of_def Let_def d_def [symmetric] n_def [symmetric] yk prod.case md by simp
  have "0 \<le> n div Hour" "0 \<le> n mod Hour div Minute" "0 \<le> n mod Minute div Second"
    using n(1) by (simp_all only: pos_imp_zdiv_nonneg_iff zero_less_numeral pos_mod_sign)
  moreover have "0 \<le> n mod Second" "n mod Second < Second" by simp_all
  moreover have "dd \<le> daysIn m y" "1 \<le> m" "m \<le> 12" using i by (simp_all add: daysIn_def)
  ultimately show "civil_ok (civil_of t)"
    unfolding c civil_ok_def civil.simps using i(3) day_clock(2-4) [OF n] by blast
  have "days_before_year y + days_before_month y m + dd - 1 = d"
    using i ys by (simp add: days_before_month_def)
  moreover have "Date (civil_of t) =
      (days_before_year y + days_before_month y m + dd - 1) * (24 * Hour)
      + (n div Hour * Hour + n mod Hour div Minute * Minute + n mod Minute div Second * Second
         + n mod Second)"
    unfolding Date_def c civil.simps by (simp only: add.assoc)
  ultimately show "Date (civil_of t) = t"
    unfolding day_clock(1) [OF n] using t by simp
qed

lemma civil_of_Date:
  assumes "civil_ok c"
  shows "civil_of (Date c) = c"
proof -
  define i where "i = nat (c_month c - 1)"
  define n where "n = c_hour c * Hour + c_min c * Minute + c_sec c * Second + c_nsec c"
  note ok = assms [unfolded civil_ok_def]
  have n: "0 \<le> n" "n < 24 * Hour" "n div Hour = c_hour c" "n mod Hour div Minute = c_min c"
    "n mod Minute div Second = c_sec c" "n mod Second = c_nsec c"
    unfolding n_def by (rule day_clock_inverse; use ok in blast)+
  define lp k where "lp = leap (c_year c)" and "k = sum_list (take i (month_lens lp)) + c_day c - 1"
  have i: "i < 12" "c_month c = 1 + int i" "c_day c \<le> month_lens lp ! i" "1 \<le> c_day c"
    using ok by (auto simp: i_def daysIn_def lp_def)
  have m: "month_mday (month_lens lp) 1 k = (c_month c, c_day c)"
    unfolding k_def i(2) using i month_lens_facts
    by (intro month_mday_inverse) auto
  have "sum_list (take i (month_lens lp)) + month_lens lp ! i \<le> sum_list (month_lens lp)"
  proof -
    have "sum_list (month_lens lp) = sum_list (take (Suc i) (month_lens lp))
        + sum_list (drop (Suc i) (month_lens lp))"
      by (metis append_take_drop_id sum_list_append)
    moreover have "0 \<le> sum_list (drop (Suc i) (month_lens lp))"
      by (rule sum_list_nonneg) (auto dest: in_set_dropD month_lens_facts(3))
    ultimately show ?thesis using i(1) by (simp add: take_Suc_conv_app_nth month_lens_facts)
  qed
  moreover have "0 \<le> sum_list (take i (month_lens lp))"
    by (rule sum_list_nonneg) (auto dest: in_set_takeD month_lens_facts(3))
  ultimately have k: "0 \<le> k" "k < year_len (c_year c)"
    using i by (auto simp: k_def month_lens_facts year_len_def lp_def)
  define d where "d = days_before_year (c_year c) + k"
  have D: "Date c = (24 * Hour) * d + n"
    by (simp add: Date_def n_def d_def k_def days_before_month_def i_def lp_def algebra_simps)
  have D': "Date c div (24 * Hour) = d" "Date c mod (24 * Hour) = n"
    unfolding D by (rule div_mult_add_small mod_mult_add_small, rule n, rule n)+
  show ?thesis
    unfolding civil_of_def Let_def D' d_def year_yday_inverse [OF k] prod.case lp_def [symmetric] m n(3-6)
    by simp
qed

end
