(* ===== verification/Go_Layout.thy ===== *)
theory Go_Layout
  imports Go_Time
begin

text \<open>
  \<open>time.Format\<close> and \<open>time.Parse\<close> for the layouts of the sources. A layout is the list of the
  chunks \<open>nextStdChunk\<close> splits it into; the parser follows \<open>time.parse\<close> chunk by chunk,
  with its two-digit reader, its treatment of blanks in literals, the fraction of a second
  that may follow the seconds although the layout has none, and its range checks. An error
  of \<open>time.Parse\<close> is \<open>None\<close>: no caller in the driver looks into it. The section on round
  trips shows chunk by chunk that the parser reads back what the formatter writes.
\<close>

section \<open>Layouts\<close>

datatype chunk =
    Lit string
  | StdLongYear        \<comment> \<open>\<open>2006\<close>\<close>
  | StdZeroMonth       \<comment> \<open>\<open>01\<close>\<close>
  | StdZeroDay         \<comment> \<open>\<open>02\<close>\<close>
  | StdHour            \<comment> \<open>\<open>15\<close>\<close>
  | StdZeroMinute      \<comment> \<open>\<open>04\<close>\<close>
  | StdZeroSecond      \<comment> \<open>\<open>05\<close>\<close>
  | StdFracSecond9 nat \<comment> \<open>\<open>.999\<close>, with the number of nines\<close>
  | StdNumShortTZ      \<comment> \<open>\<open>-07\<close>\<close>
  | StdISO8601ColonTZ  \<comment> \<open>\<open>Z07:00\<close>\<close>

definition hms_layout :: "chunk list" where
  "hms_layout = [StdHour, Lit '':'', StdZeroMinute, Lit '':'', StdZeroSecond]"

definition ymd_layout :: "chunk list" where
  "ymd_layout = [StdLongYear, Lit ''-'', StdZeroMonth, Lit ''-'', StdZeroDay]"

text \<open>\<open>"20060102_1504"\<close>, \<open>time.RFC3339\<close> and \<open>time.RFC3339Nano\<close>.\<close>

definition partition_layout :: "chunk list" where
  "partition_layout = [StdLongYear, StdZeroMonth, StdZeroDay, Lit ''_'', StdHour, StdZeroMinute]"

definition RFC3339 :: "chunk list" where
  "RFC3339 = ymd_layout @ [Lit ''T''] @ hms_layout @ [StdISO8601ColonTZ]"

definition RFC3339Nano :: "chunk list" where
  "RFC3339Nano = ymd_layout @ [Lit ''T''] @ hms_layout @ [StdFracSecond9 9, StdISO8601ColonTZ]"

section \<open>Format\<close>

definition appendInt :: "int \<Rightarrow> nat \<Rightarrow> string" where
  "appendInt x width =
     (let ds = digits_nat (nat \<bar>x\<bar>)
      in (if x < 0 then ''-'' else '''') @ replicate (width - length ds) (CHR ''0'') @ ds)"

definition trim_zeros :: "string \<Rightarrow> string" where
  "trim_zeros s = rev (dropWhile (\<lambda>c. c = CHR ''0'') (rev s))"

definition format_frac :: "nat \<Rightarrow> int \<Rightarrow> string" where
  "format_frac n nsec =
     (let ds = trim_zeros (take n (appendInt nsec 9))
      in if ds = [] then [] else CHR ''.'' # ds)"

fun format_chunk :: "civil \<Rightarrow> chunk \<Rightarrow> string" where
  "format_chunk c (Lit s) = s"
| "format_chunk c StdLongYear = appendInt (c_year c) 4"
| "format_chunk c StdZeroMonth = appendInt (c_month c) 2"
| "format_chunk c StdZeroDay = appendInt (c_day c) 2"
| "format_chunk c StdHour = appendInt (c_hour c) 2"
| "format_chunk c StdZeroMinute = appendInt (c_min c) 2"
| "format_chunk c StdZeroSecond = appendInt (c_sec c) 2"
| "format_chunk c (StdFracSecond9 n) = format_frac n (c_nsec c)"
| "format_chunk c StdNumShortTZ = ''+00''"
| "format_chunk c StdISO8601ColonTZ = ''Z''"

definition Format :: "gotime \<Rightarrow> chunk list \<Rightarrow> string" where
  "Format t layout = concat (map (format_chunk (civil_of t)) layout)"

section \<open>Parse\<close>

record pstate = civil +
  p_offset :: int

definition pstate0 :: pstate where
  "pstate0 = \<lparr>c_year = 0, c_month = 1, c_day = 1, c_hour = 0, c_min = 0, c_sec = 0, c_nsec = 0,
     p_offset = 0\<rparr>"

definition getnum :: "string \<Rightarrow> bool \<Rightarrow> (int \<times> string) option" where
  "getnum s fixed =
     (case s of
        [] \<Rightarrow> None
      | a # s1 \<Rightarrow>
        if \<not> is_digit a then None
        else (case s1 of
                b # s2 \<Rightarrow>
                  if is_digit b then Some (int (digit_val a * 10 + digit_val b), s2)
                  else if fixed then None else Some (int (digit_val a), s1)
              | [] \<Rightarrow> if fixed then None else Some (int (digit_val a), s1)))"

definition cutspace :: "string \<Rightarrow> string" where
  "cutspace = dropWhile (\<lambda>c. c = CHR '' '')"

function skip :: "string \<Rightarrow> string \<Rightarrow> string option" where
  "skip v [] = Some v"
| "skip v (p # ps) =
     (if p = CHR '' '' then
        (if v \<noteq> [] \<and> hd v \<noteq> CHR '' '' then None else skip (cutspace v) (cutspace ps))
      else case v of [] \<Rightarrow> None | c # cs \<Rightarrow> if c = p then skip cs ps else None)"
  by pat_completeness auto
termination
  by (relation "measure (\<lambda>(v, p). length p)")
    (auto simp: cutspace_def length_dropWhile_le le_imp_less_Suc)

definition frac_start :: "string \<Rightarrow> bool" where
  "frac_start v \<longleftrightarrow>
     (case v of p # d # _ \<Rightarrow> (p = CHR ''.'' \<or> p = CHR '','') \<and> is_digit d | _ \<Rightarrow> False)"

text \<open>\<open>parseNanoseconds\<close> on the separator and all the digits after it; digits beyond the
  ninth are ignored.\<close>

definition parse_frac :: "string \<Rightarrow> int \<times> string" where
  "parse_frac v =
     (let ds = takeWhile is_digit (tl v); ds9 = take 9 ds
      in (int (digits_val ds9 * 10 ^ (9 - length ds9)), dropWhile is_digit (tl v)))"

fun next_std :: "chunk list \<Rightarrow> chunk option" where
  "next_std [] = None"
| "next_std (Lit s # chs) = next_std chs"
| "next_std (ch # chs) = Some ch"

definition next_is_frac :: "chunk list \<Rightarrow> bool" where
  "next_is_frac chs = (case next_std chs of Some (StdFracSecond9 n) \<Rightarrow> True | _ \<Rightarrow> False)"

definition parse_offset :: "char \<Rightarrow> string \<Rightarrow> string \<Rightarrow> int option" where
  "parse_offset sign hh mm =
     (case (getnum hh True, getnum mm True) of
        (Some (h, _), Some (m, _)) \<Rightarrow>
          if h > 24 \<or> m > 60 then None
          else if sign = CHR ''+'' then Some ((h * 60 + m) * 60)
          else if sign = CHR ''-'' then Some (- ((h * 60 + m) * 60))
          else None
      | _ \<Rightarrow> None)"

text \<open>One chunk: the new state and the rest of the value.\<close>

fun parse_chunk :: "chunk \<Rightarrow> chunk list \<Rightarrow> string \<Rightarrow> pstate \<Rightarrow> (pstate \<times> string) option" where
  "parse_chunk (Lit s) rest v st = map_option (\<lambda>v'. (st, v')) (skip v s)"
| "parse_chunk StdLongYear rest v st =
     (if length v < 4 \<or> \<not> list_all is_digit (take 4 v) then None
      else Some (st\<lparr>c_year := int (digits_val (take 4 v))\<rparr>, drop 4 v))"
| "parse_chunk StdZeroMonth rest v st =
     (case getnum v True of None \<Rightarrow> None
      | Some (m, v') \<Rightarrow> if m \<le> 0 \<or> 12 < m then None else Some (st\<lparr>c_month := m\<rparr>, v'))"
| "parse_chunk StdZeroDay rest v st =
     (case getnum v True of None \<Rightarrow> None | Some (d, v') \<Rightarrow> Some (st\<lparr>c_day := d\<rparr>, v'))"
| "parse_chunk StdHour rest v st =
     (case getnum v False of None \<Rightarrow> None
      | Some (h, v') \<Rightarrow> if 24 \<le> h then None else Some (st\<lparr>c_hour := h\<rparr>, v'))"
| "parse_chunk StdZeroMinute rest v st =
     (case getnum v True of None \<Rightarrow> None
      | Some (m, v') \<Rightarrow> if 60 \<le> m then None else Some (st\<lparr>c_min := m\<rparr>, v'))"
| "parse_chunk StdZeroSecond rest v st =
     (case getnum v True of None \<Rightarrow> None
      | Some (s, v') \<Rightarrow>
          if 60 \<le> s then None
          else if frac_start v' \<and> \<not> next_is_frac rest
          then (let (ns, v'') = parse_frac v' in Some (st\<lparr>c_sec := s, c_nsec := ns\<rparr>, v''))
          else Some (st\<lparr>c_sec := s\<rparr>, v'))"
| "parse_chunk (StdFracSecond9 n) rest v st =
     (if frac_start v
      then (let (ns, v') = parse_frac v in Some (st\<lparr>c_nsec := ns\<rparr>, v'))
      else Some (st, v))"
| "parse_chunk StdNumShortTZ rest v st =
     (if length v < 3 then None
      else map_option (\<lambda>off. (st\<lparr>p_offset := off\<rparr>, drop 3 v))
             (parse_offset (hd v) (take 2 (tl v)) ''00''))"
| "parse_chunk StdISO8601ColonTZ rest v st =
     (if v \<noteq> [] \<and> hd v = CHR ''Z'' then Some (st\<lparr>p_offset := 0\<rparr>, tl v)
      else if length v < 6 \<or> v ! 3 \<noteq> CHR '':'' then None
      else map_option (\<lambda>off. (st\<lparr>p_offset := off\<rparr>, drop 6 v))
             (parse_offset (hd v) (take 2 (tl v)) (take 2 (drop 4 v))))"

fun parse_loop :: "chunk list \<Rightarrow> string \<Rightarrow> pstate \<Rightarrow> pstate option" where
  "parse_loop [] v st = (if v = [] then Some st else None)"
| "parse_loop (ch # chs) v st =
     (case parse_chunk ch chs v st of None \<Rightarrow> None | Some (st', v') \<Rightarrow> parse_loop chs v' st')"

definition time_Parse :: "chunk list \<Rightarrow> string \<Rightarrow> gotime option" where
  "time_Parse layout v =
     (case parse_loop layout v pstate0 of None \<Rightarrow> None
      | Some st \<Rightarrow>
          if c_day st < 1 \<or> c_day st > daysIn (c_month st) (c_year st) then None
          else Some (Date (civil.truncate st) - p_offset st * Second))"

section \<open>Round trips\<close>

lemma length_digits_nat_lt_100: "n < 10 \<Longrightarrow> digits_nat n = [digit n]"
  "10 \<le> n \<Longrightarrow> n < 100 \<Longrightarrow> digits_nat n = [digit (n div 10), digit (n mod 10)]"
  by (simp_all add: digits_nat.simps [of n] digits_nat.simps [of "n div 10"])

lemma digit_0 [simp]: "digit 0 = CHR ''0''"
  unfolding digit_def by code_simp

lemma appendInt_2:
  assumes "0 \<le> x" "x < 100"
  shows "appendInt x 2 = [digit (nat x div 10), digit (nat x mod 10)]"
proof (cases "nat x < 10")
  case True
  with assms show ?thesis
    by (simp add: appendInt_def length_digits_nat_lt_100 Let_def)
next
  case False
  with assms have "nat x < 100" by simp
  with False assms show ?thesis
    by (simp add: appendInt_def length_digits_nat_lt_100 Let_def)
qed

lemma getnum_appendInt:
  assumes "0 \<le> x" "x < 100"
  shows "getnum (appendInt x 2 @ r) fixed = Some (x, r)"
proof -
  have "nat x div 10 < 10" using assms by (simp add: nat_less_iff less_mult_imp_div_less)
  then show ?thesis
    using assms by (simp add: appendInt_2 getnum_def)
qed

lemma is_digit_zero [simp]: "is_digit (CHR ''0'')" "digit_val (CHR ''0'') = 0"
  by (simp_all add: is_digit_def digit_val_def)

lemma appendInt_digits: "0 \<le> x \<Longrightarrow> list_all is_digit (appendInt x w)"
  by (auto simp: appendInt_def Let_def list_all_iff dest: digits_nat_digits)

lemma foldl_zeros: "foldl (\<lambda>n c. n * 10 + digit_val c) 0 (replicate k (CHR ''0'') @ ds) = digits_val ds"
  by (induction k) (simp_all add: digits_val_def)

lemma digits_val_appendInt: "0 \<le> x \<Longrightarrow> digits_val (appendInt x w) = nat x"
  using foldl_zeros digits_val_digits_nat [of "nat x"]
  by (simp add: appendInt_def Let_def digits_val_def)

lemma length_digits_nat: "n < 10 ^ k \<Longrightarrow> 0 < k \<Longrightarrow> length (digits_nat n) \<le> k"
proof (induction k arbitrary: n)
  case (Suc k)
  show ?case
  proof (cases "n < 10")
    case True
    then show ?thesis by (simp add: length_digits_nat_lt_100)
  next
    case False
    then have "0 < k" using Suc.prems by (cases k) simp_all
    moreover have "n div 10 < 10 ^ k" using Suc.prems by (simp add: less_mult_imp_div_less mult.commute)
    ultimately have "length (digits_nat (n div 10)) \<le> k" using Suc.IH by simp
    with False show ?thesis by (simp add: digits_nat.simps [of n])
  qed
qed simp

lemma length_appendInt: "0 \<le> x \<Longrightarrow> x < 10 ^ w \<Longrightarrow> 0 < w \<Longrightarrow> length (appendInt x w) = w"
  using length_digits_nat [of "nat x" w]
  by (simp add: appendInt_def Let_def nat_less_iff)

lemma digits_val_app: "digits_val (xs @ ys) = digits_val xs * 10 ^ length ys + digits_val ys"
proof (induction ys rule: rev_induct)
  case (snoc y ys)
  then show ?case by (simp add: digits_val_def algebra_simps)
qed (simp add: digits_val_def)

lemma digits_val_lt: "list_all is_digit ds \<Longrightarrow> digits_val ds < 10 ^ length ds"
proof (induction ds rule: rev_induct)
  case (snoc d ds)
  then have "digits_val ds + 1 \<le> 10 ^ length ds" and "digit_val d < 10"
    by (auto simp: is_digit_def digit_val_def)
  moreover have "digits_val (ds @ [d]) = digits_val ds * 10 + digit_val d"
    by (simp add: digits_val_def)
  ultimately show ?case by simp
qed (simp add: digits_val_def)

lemma trim_zeros_split: "\<exists>k. ds = trim_zeros ds @ replicate k (CHR ''0'')"
proof -
  let ?z = "\<lambda>c. c = CHR ''0''"
  have "takeWhile ?z (rev ds) = replicate (length (takeWhile ?z (rev ds))) (CHR ''0'')"
    by (rule replicate_length_same [symmetric]) (auto dest: set_takeWhileD)
  moreover have "ds = rev (dropWhile ?z (rev ds)) @ rev (takeWhile ?z (rev ds))"
    by (metis rev_append rev_rev_ident takeWhile_dropWhile_id)
  ultimately show ?thesis unfolding trim_zeros_def by (metis rev_replicate)
qed

lemma digits_val_zeros [simp]: "digits_val (replicate k (CHR ''0'')) = 0"
  using foldl_zeros [of k "[]"] by (simp add: digits_val_def)

text \<open>The fraction of a second is read back exactly when it has no digit beyond those the
  layout asks for.\<close>

lemma parse_frac_format:
  assumes ns: "0 \<le> ns" "ns < Second" and n: "n \<le> 9" and exact: "nat ns mod 10 ^ (9 - n) = 0"
    and r: "r = [] \<or> \<not> is_digit (hd r)"
  shows "if format_frac n ns = [] then ns = 0
    else frac_start (format_frac n ns @ r) \<and> parse_frac (format_frac n ns @ r) = (ns, r)"
proof -
  define ds where "ds = appendInt ns 9"
  define t where "t = trim_zeros (take n ds)"
  have len: "length ds = 9" and dig: "list_all is_digit ds" and val: "digits_val ds = nat ns"
    using ns length_appendInt [of ns 9] appendInt_digits [of ns 9] digits_val_appendInt [of ns 9]
    by (simp_all add: ds_def)
  obtain k where k: "take n ds = t @ replicate k (CHR ''0'')"
    using trim_zeros_split [of "take n ds"] unfolding t_def by blast
  have lt: "length t + k = n" using k len n by (metis length_append length_replicate length_take min_absorb2)
  have "list_all is_digit (drop n ds)" using dig by (auto simp: list_all_iff dest: in_set_dropD)
  then have "digits_val (drop n ds) < 10 ^ (9 - n)" using digits_val_lt len by fastforce
  moreover have v: "nat ns = digits_val (take n ds) * 10 ^ (9 - n) + digits_val (drop n ds)"
    using digits_val_app [of "take n ds" "drop n ds"] val len by simp
  ultimately have "digits_val (drop n ds) = 0" using exact by simp
  moreover have "(9 - length t) = k + (9 - n)" using lt n by simp
  ultimately have v': "nat ns = digits_val t * 10 ^ (9 - length t)"
    using v k by (simp add: digits_val_app power_add)
  have td: "list_all is_digit t"
    using dig k by (auto simp: list_all_iff dest: in_set_takeD) (metis UnCI in_set_takeD set_append)
  then have tw: "takeWhile is_digit (t @ r) = t" "dropWhile is_digit (t @ r) = r"
    using r by (cases r; simp add: list_all_iff takeWhile_append dropWhile_append)+
  have f: "format_frac n ns = (if t = [] then [] else CHR ''.'' # t)"
    by (simp add: format_frac_def Let_def t_def ds_def)
  show ?thesis
  proof (cases "t = []")
    case True
    then show ?thesis using v' ns f by (simp add: digits_val_def)
  next
    case False
    then obtain a u where a: "t = a # u" by (cases t) auto
    with td have "is_digit a" by simp
    moreover have "length t \<le> 9" using lt n by simp
    moreover have "int (digits_val t * 10 ^ (9 - length t)) = ns" using v' ns(1) by (metis nat_0_le)
    ultimately show ?thesis
      using f a tw unfolding frac_start_def parse_frac_def Let_def by simp
  qed
qed

lemma skip_literal: "(\<And>c. c \<in> set s \<Longrightarrow> c \<noteq> CHR '' '') \<Longrightarrow> skip (s @ r) s = Some r"
  by (induction s) simp_all

lemma skip_blank: "r = [] \<or> hd r \<noteq> CHR '' '' \<Longrightarrow> skip (CHR '' '' # r) '' '' = Some r"
  by (cases r) (simp_all add: cutspace_def)

text \<open>What the parser has recorded after reading a chunk.\<close>

fun set_chunk :: "civil \<Rightarrow> chunk \<Rightarrow> pstate \<Rightarrow> pstate" where
  "set_chunk c (Lit s) st = st"
| "set_chunk c StdLongYear st = st\<lparr>c_year := c_year c\<rparr>"
| "set_chunk c StdZeroMonth st = st\<lparr>c_month := c_month c\<rparr>"
| "set_chunk c StdZeroDay st = st\<lparr>c_day := c_day c\<rparr>"
| "set_chunk c StdHour st = st\<lparr>c_hour := c_hour c\<rparr>"
| "set_chunk c StdZeroMinute st = st\<lparr>c_min := c_min c\<rparr>"
| "set_chunk c StdZeroSecond st = st\<lparr>c_sec := c_sec c\<rparr>"
| "set_chunk c (StdFracSecond9 n) st = (if c_nsec c = 0 then st else st\<lparr>c_nsec := c_nsec c\<rparr>)"
| "set_chunk c StdNumShortTZ st = st\<lparr>p_offset := 0\<rparr>"
| "set_chunk c StdISO8601ColonTZ st = st\<lparr>p_offset := 0\<rparr>"

text \<open>When a chunk, followed by the text \<open>r\<close> of the later chunks, can be read back.\<close>

fun chunk_ok :: "civil \<Rightarrow> chunk \<Rightarrow> chunk list \<Rightarrow> string \<Rightarrow> bool" where
  "chunk_ok c (Lit s) chs r =
     (CHR '' '' \<notin> set s \<or> (s = '' '' \<and> (r = [] \<or> hd r \<noteq> CHR '' '')))"
| "chunk_ok c StdZeroSecond chs r = (next_is_frac chs \<or> \<not> frac_start r)"
| "chunk_ok c (StdFracSecond9 n) chs r =
     (n \<le> 9 \<and> nat (c_nsec c) mod 10 ^ (9 - n) = 0 \<and> \<not> frac_start r \<and> (r = [] \<or> \<not> is_digit (hd r)))"
| "chunk_ok c ch chs r = True"

lemma parse_chunk_format:
  assumes "civil_ok c" "0 \<le> c_year c" "c_year c \<le> 9999" "chunk_ok c ch chs r"
  shows "parse_chunk ch chs (format_chunk c ch @ r) st = Some (set_chunk c ch st, r)"
proof (cases ch)
  case (Lit s)
  have "skip (s @ r) s = Some r"
  proof (cases "CHR '' '' \<in> set s")
    case True
    with assms(4) Lit show ?thesis using skip_blank [of r] by auto
  next
    case False
    then show ?thesis by (intro skip_literal) auto
  qed
  with Lit show ?thesis by simp
next
  case StdLongYear
  have "length (appendInt (c_year c) 4) = 4" using assms length_appendInt [of "c_year c" 4] by simp
  with assms StdLongYear show ?thesis
    using appendInt_digits [of "c_year c" 4] digits_val_appendInt [of "c_year c" 4] by simp
next
  case StdZeroDay
  have "daysIn (c_month c) (c_year c) \<le> 31"
  proof -
    have "daysIn (c_month c) (c_year c) \<in> set (month_lens (leap (c_year c)))"
      using assms(1) unfolding daysIn_def civil_ok_def
      by (intro nth_mem) (auto simp: month_lens_facts)
    then show ?thesis by (auto simp: month_lens_def split: if_splits)
  qed
  with assms(1) have "c_day c < 100" "0 \<le> c_day c" by (auto simp: civil_ok_def)
  with StdZeroDay show ?thesis by (simp add: getnum_appendInt)
next
  case (StdFracSecond9 n)
  have "0 \<le> c_nsec c" "c_nsec c < Second" using assms(1) by (auto simp: civil_ok_def)
  note pf = parse_frac_format [OF this, of n r]
  show ?thesis
  proof (cases "format_frac n (c_nsec c) = []")
    case True
    with pf StdFracSecond9 assms(4) show ?thesis by simp
  next
    case False
    with pf StdFracSecond9 assms(4) have "frac_start (format_frac n (c_nsec c) @ r)"
      "parse_frac (format_frac n (c_nsec c) @ r) = (c_nsec c, r)" by simp_all
    moreover have "c_nsec c \<noteq> 0"
    proof
      assume "c_nsec c = 0"
      with False show False
        by (auto simp: format_frac_def appendInt_def trim_zeros_def Let_def digits_nat.simps [of 0]
            dest: in_set_takeD split: if_splits)
    qed
    ultimately show ?thesis by (simp add: StdFracSecond9)
  qed
next
  case StdNumShortTZ
  then show ?thesis by (simp add: parse_offset_def getnum_def is_digit_def digit_val_def)
qed (use assms in \<open>auto simp: civil_ok_def getnum_appendInt\<close>)

text \<open>The text of the chunks \<open>chs\<close>, followed by the text \<open>r\<close> that the chunks \<open>tail\<close> are to
  read, can be read back.\<close>

fun layout_ok :: "civil \<Rightarrow> chunk list \<Rightarrow> chunk list \<Rightarrow> string \<Rightarrow> bool" where
  "layout_ok c [] tail r = True"
| "layout_ok c (ch # chs) tail r =
     (chunk_ok c ch (chs @ tail) (concat (map (format_chunk c) chs) @ r) \<and> layout_ok c chs tail r)"

lemma parse_loop_format:
  assumes "civil_ok c" "0 \<le> c_year c" "c_year c \<le> 9999"
  shows "layout_ok c chs tail r \<Longrightarrow>
    parse_loop (chs @ tail) (concat (map (format_chunk c) chs) @ r) st =
    parse_loop tail r (fold (set_chunk c) chs st)"
  by (induction chs arbitrary: st) (simp_all add: parse_chunk_format [OF assms])

text \<open>A year the layouts can print and read: four digits.\<close>

definition four_digit_year :: "gotime \<Rightarrow> bool" where
  "four_digit_year t \<longleftrightarrow> 0 \<le> c_year (civil_of t) \<and> c_year (civil_of t) \<le> 9999"

lemma Parse_Format:
  assumes "four_digit_year t" "layout_ok (civil_of t) chs [] []"
    and "fold (set_chunk (civil_of t)) chs pstate0 = st"
    and "c_day st = c_day (civil_of t)" "c_month st = c_month (civil_of t)"
    "c_year st = c_year (civil_of t)"
  shows "time_Parse chs (Format t chs) = Some (Date (civil.truncate st) - p_offset st * Second)"
proof -
  have "parse_loop chs (Format t chs) pstate0 = Some st"
    using assms(1-3) parse_loop_format [OF civil_ok_civil_of, of t chs "[]" "[]" pstate0]
    by (simp add: Format_def four_digit_year_def)
  moreover have "1 \<le> c_day st" "c_day st \<le> daysIn (c_month st) (c_year st)"
    using civil_ok_civil_of [of t] assms(4-6) by (simp_all add: civil_ok_def)
  ultimately show ?thesis by (simp add: time_Parse_def)
qed

lemma Date_cut_second: "Date (c\<lparr>c_nsec := 0\<rparr>) = Date c - c_nsec c"
  by (simp add: Date_def)

lemma Date_cut_minute: "Date (c\<lparr>c_sec := 0, c_nsec := 0\<rparr>) = Date c - (c_sec c * Second + c_nsec c)"
  by (simp add: Date_def)

lemma civil_clock:
  "c_nsec (civil_of t) = t mod Second"
  "c_sec (civil_of t) * Second + c_nsec (civil_of t) = t mod Minute"
proof -
  define n where "n = t mod (24 * Hour)"
  have n: "c_nsec (civil_of t) = n mod Second" "c_sec (civil_of t) = n mod Minute div Second"
    by (simp_all add: civil_of_def n_def Let_def split: prod.split)
  have m: "n mod Second = t mod Second" "n mod Minute = t mod Minute"
    unfolding n_def by (simp_all add: mod_mod_cancel)
  show "c_nsec (civil_of t) = t mod Second" by (simp add: n m)
  have "n mod Minute mod Second = n mod Second" by (simp add: mod_mod_cancel)
  then show "c_sec (civil_of t) * Second + c_nsec (civil_of t) = t mod Minute"
    using div_mult_mod_eq [of "n mod Minute" Second] by (simp add: n m)
qed

text \<open>A partition name's timestamp is read back as the minute it falls into.\<close>

lemma Parse_Format_partition:
  assumes "four_digit_year t"
  shows "time_Parse partition_layout (Format t partition_layout) = Some (Truncate t Minute)"
proof -
  let ?c = "civil_of t"
  have "time_Parse partition_layout (Format t partition_layout) =
      Some (Date (?c\<lparr>c_sec := 0, c_nsec := 0\<rparr>))"
    by (subst Parse_Format [OF assms _ refl])
      (simp_all add: partition_layout_def pstate0_def civil.truncate_def Date_def)
  also have "Date (?c\<lparr>c_sec := 0, c_nsec := 0\<rparr>) = t - t mod Minute"
    by (simp only: Date_cut_minute civil_clock(2) Date_civil_of)
  finally show ?thesis by (simp add: Truncate_def)
qed

lemma Parse_Format_RFC3339:
  assumes "four_digit_year t"
  shows "time_Parse RFC3339 (Format t RFC3339) = Some (Truncate t Second)"
proof -
  let ?c = "civil_of t"
  have "time_Parse RFC3339 (Format t RFC3339) = Some (Date (?c\<lparr>c_nsec := 0\<rparr>))"
    by (subst Parse_Format [OF assms _ refl])
      (simp_all add: RFC3339_def ymd_layout_def hms_layout_def pstate0_def civil.truncate_def
        frac_start_def Date_def)
  also have "Date (?c\<lparr>c_nsec := 0\<rparr>) = t - t mod Second"
    by (simp only: Date_cut_second civil_clock Date_civil_of)
  finally show ?thesis by (simp add: Truncate_def)
qed

text \<open>The definitions that evaluate the parser on a concrete text.\<close>

lemmas parse_eval =
  time_Parse_def ymd_layout_def hms_layout_def RFC3339_def RFC3339Nano_def partition_layout_def
  pstate0_def getnum_def is_digit_def digit_val_def digits_val_def cutspace_def frac_start_def
  parse_frac_def next_is_frac_def parse_offset_def daysIn_def month_lens_def leap_def Date_def
  days_before_year_def days_before_month_def civil.truncate_def


text \<open>Every instant from year 1 up to about year 9992 has a year of four digits.\<close>

definition modern_time :: "gotime \<Rightarrow> bool" where
  "modern_time t \<longleftrightarrow> 0 \<le> t \<and> t < 3649635 * (24 * Hour)"

lemma modern_four_digit:
  assumes "modern_time t"
  shows "four_digit_year t"
proof -
  define d where "d = t div (24 * Hour)"
  define m where "m = t mod (24 * Hour)"
  have "t = d * (24 * Hour) + m" "0 \<le> m" by (simp_all add: d_def m_def)
  then have "d * (24 * Hour) < 3649635 * (24 * Hour)" using assms unfolding modern_time_def by linarith
  then have "d < 3649635" by simp
  moreover have "0 \<le> d" using assms by (simp add: modern_time_def d_def pos_imp_zdiv_nonneg_iff)
  ultimately have d: "0 \<le> d" "d < 3649635" by simp_all
  obtain y k where yk: "year_yday d = (y, k)" by force
  have y: "c_year (civil_of t) = y"
    using yk by (simp add: civil_of_def Let_def d_def split: prod.splits)
  define r n100 where "r = d mod 146097" and "n100 = min 3 (r div 36524)"
  define r1 where "r1 = r - 36524 * n100"
  define r2 where "r2 = r1 mod 1461"
  have eq: "y = 400 * (d div 146097) + 100 * n100 + 4 * (r1 div 1461) + min 3 (r2 div 365) + 1"
    using yk unfolding year_yday_def Let_def r_def n100_def r1_def r2_def by (simp only: prod.inject)
  have r: "0 \<le> r" by (simp add: r_def)
  have "36524 * (r div 36524) \<le> r" by (simp add: mult.commute [of 36524] minus_mod_eq_div_mult [symmetric])
  then have r1: "0 \<le> r1" by (auto simp: r1_def n100_def min_def)
  have "0 \<le> d div 146097" "0 \<le> n100" "0 \<le> r1 div 1461" "0 \<le> r2 div 365"
    using d r r1 by (simp_all add: n100_def r2_def pos_imp_zdiv_nonneg_iff)
  then have "1 \<le> y" by (simp add: eq)
  moreover have "y \<le> 9999"
  proof -
    have "days_before_year y \<le> d" using year_yday_sound [OF yk] by simp
    moreover have "(y - 1) div 100 \<le> (y - 1) div 4" "0 \<le> (y - 1) div 400"
      using \<open>1 \<le> y\<close> zdiv_mono2 [of "y - 1" 4 100] by (simp_all add: pos_imp_zdiv_nonneg_iff)
    moreover have "a + p - q + r \<le> d \<Longrightarrow> q \<le> p \<Longrightarrow> 0 \<le> r \<Longrightarrow> a \<le> d" for a p q r d :: int by linarith
    ultimately have "365 * (y - 1) \<le> d" unfolding days_before_year_def by blast
    then have "365 * (y - 1) < 365 * 9999" using d by (simp del: mult_less_cancel_left_pos)
    then show ?thesis by simp
  qed
  ultimately show ?thesis by (simp add: four_digit_year_def y)
qed


section \<open>A partition name sees whole minutes only\<close>

lemma mod_div_scale: "0 < (a :: int) \<Longrightarrow> 0 < b \<Longrightarrow> t mod (a * b) div a = t div a mod b"
  by (simp add: zmod_zmult2_eq div_add1_eq)

lemma civil_minute:
  assumes "t div Minute = t' div Minute"
  shows "c_year (civil_of t) = c_year (civil_of t') \<and> c_month (civil_of t) = c_month (civil_of t') \<and>
    c_day (civil_of t) = c_day (civil_of t') \<and> c_hour (civil_of t) = c_hour (civil_of t') \<and>
    c_min (civil_of t) = c_min (civil_of t')"
proof -
  have day: "x div (24 * Hour) = x div Minute div 1440" for x :: int
    using zdiv_zmult2_eq [of 1440 x Minute] by simp
  have hour: "x mod (24 * Hour) div Hour = x div Minute div 60 mod 24" for x :: int
    using mod_div_scale [of Hour 24 x] zdiv_zmult2_eq [of 60 x Minute] by simp
  have minute: "x mod (24 * Hour) mod Hour div Minute = x div Minute mod 60" for x :: int
    using mod_div_scale [of Minute 60 x] mod_mod_cancel [of Hour "24 * Hour" x] by simp
  show ?thesis
    unfolding civil_of_def Let_def by (simp only: day hour minute assms split: prod.splits) simp
qed

lemma Format_partition_minute:
  "t div Minute = t' div Minute \<Longrightarrow> Format t partition_layout = Format t' partition_layout"
  using civil_minute [of t t'] by (simp add: Format_def partition_layout_def)

end
