(* ===== verification/Go_Float.thy ===== *)
theory Go_Float
  imports Complex_Main
begin

text \<open>
  \<open>float64\<close>: a rational rounded to 53 significant bits, to the nearest and to even on a tie, as
  IEEE arithmetic rounds the exact result of an operation. The exponent is not bounded: the
  numbers of the program stay far from the ends of its range, or are compared with a cap that an
  infinity exceeds too.
\<close>

section \<open>Rounding\<close>

definition round_even :: "rat \<Rightarrow> int" where
  "round_even y =
     (let n = \<lfloor>y\<rfloor>; r = y - of_int n
      in if r < 1/2 \<or> r = 1/2 \<and> even n then n else n + 1)"

text \<open>The exponent of a positive number \<open>x\<close>: \<open>2 ^ e \<le> x < 2 ^ (e + 1)\<close>.\<close>

function halvings :: "rat \<Rightarrow> nat" where
  "halvings x = (if x \<ge> 2 then halvings (x / 2) + 1 else 0)"
  by pat_completeness auto
termination
proof (relation "measure (\<lambda>x. nat \<lfloor>x\<rfloor>)")
  fix x :: rat
  assume x: "2 \<le> x"
  then have "x / 2 \<le> x - 1" by simp
  then have "\<lfloor>x / 2\<rfloor> \<le> \<lfloor>x\<rfloor> - 1" by (metis floor_diff_one floor_mono)
  moreover have "0 < \<lfloor>x\<rfloor>" using x by simp
  ultimately show "(x / 2, x) \<in> measure (\<lambda>x. nat \<lfloor>x\<rfloor>)" by simp
qed simp

function doublings :: "rat \<Rightarrow> nat" where
  "doublings x = (if 0 < x \<and> x < 1 then doublings (x * 2) + 1 else 0)"
  by pat_completeness auto
termination
proof (relation "measure (\<lambda>x. nat \<lceil>1 / x\<rceil>)")
  fix x :: rat
  assume x: "0 < x \<and> x < 1"
  then have b: "1 < 1 / x" "0 < 1 / (x * 2)" by simp_all
  have "1 / (x * 2) = (1 / x) / 2" by simp
  show "(x * 2, x) \<in> measure (\<lambda>x. nat \<lceil>1 / x\<rceil>)"
  proof (cases "1 / x \<le> 2")
    case True
    then have "\<lceil>1 / (x * 2)\<rceil> \<le> 1" by (simp add: ceiling_le_iff)
    moreover have "1 < \<lceil>1 / x\<rceil>" using b(1) by (simp add: less_ceiling_iff)
    ultimately show ?thesis by (simp only: in_measure nat_less_eq_zless)
  next
    case False
    then have "1 / (x * 2) \<le> 1 / x - 1" by simp
    then have "\<lceil>1 / (x * 2)\<rceil> \<le> \<lceil>1 / x\<rceil> - 1" by (metis ceiling_diff_one ceiling_mono)
    moreover have "0 < \<lceil>1 / x\<rceil>" using b(1) by (simp only: less_ceiling_iff)
    ultimately show ?thesis by simp
  qed
qed simp

declare halvings.simps [simp del] doublings.simps [simp del]

definition float_exponent :: "rat \<Rightarrow> int" where
  "float_exponent x = int (halvings x) - int (doublings x)"

definition round_bits :: "rat \<Rightarrow> rat" where
  "round_bits x =
     (let s = 52 - float_exponent x
      in of_int (round_even (x * 2 powi s)) / 2 powi s)"

definition float64 :: "rat \<Rightarrow> rat" where
  "float64 x = (if x = 0 then 0 else if x < 0 then - round_bits (- x) else round_bits x)"

section \<open>Properties\<close>

lemma round_even_int [simp]: "round_even (of_int n) = n"
  by (simp add: round_even_def)

lemma round_even_mono: "x \<le> y \<Longrightarrow> round_even x \<le> round_even y"
proof -
  assume le: "x \<le> y"
  show "round_even x \<le> round_even y"
  proof (cases "\<lfloor>x\<rfloor> = \<lfloor>y\<rfloor>")
    case True
    then show ?thesis using le by (auto simp: round_even_def Let_def)
  next
    case False
    then have "\<lfloor>x\<rfloor> < \<lfloor>y\<rfloor>" using floor_mono [OF le] by simp
    then show ?thesis by (auto simp: round_even_def Let_def)
  qed
qed

lemma halvings_bounds: "1 \<le> x \<Longrightarrow> 2 ^ halvings x \<le> x \<and> x < 2 ^ (halvings x + 1)"
proof (induction x rule: halvings.induct)
  case (1 x)
  then show ?case by (cases "2 \<le> x") (simp_all add: halvings.simps [of x])
qed

lemma doublings_bounds:
  "0 < x \<Longrightarrow> x < 2 \<Longrightarrow> 1 \<le> x * 2 ^ doublings x \<and> x * 2 ^ doublings x < 2"
proof (induction x rule: doublings.induct)
  case (1 x)
  then show ?case by (cases "x < 1") (simp_all add: doublings.simps [of x] ac_simps)
qed

lemma float_exponent_bounds:
  assumes "0 < x"
  shows "2 powi float_exponent x \<le> x" "x < 2 powi (float_exponent x + 1)"
proof -
  have "2 powi float_exponent x \<le> x \<and> x < 2 powi (float_exponent x + 1)"
  proof (cases "1 \<le> x")
    case True
    then have "doublings x = 0" by (simp add: doublings.simps [of x])
    then show ?thesis
      using halvings_bounds [OF True] by (simp add: float_exponent_def power_int_add)
  next
    case False
    then have "halvings x = 0" by (simp add: halvings.simps [of x])
    then show ?thesis
      using doublings_bounds [of x] False assms
      by (simp add: float_exponent_def power_int_diff power_int_minus field_simps)
  qed
  then show "2 powi float_exponent x \<le> x" "x < 2 powi (float_exponent x + 1)" by blast+
qed

lemma powi_pos [simp]: "0 < (2 :: rat) powi s"
  by (simp add: zero_less_power_int)

lemma powi_le_iff [simp]: "(2 :: rat) powi a \<le> 2 powi b \<longleftrightarrow> a \<le> b"
  by (metis linorder_not_less not_less_iff_gr_or_eq one_less_numeral_iff order_le_less power_int_strict_increasing semiring_norm(76))

text \<open>A positive number keeps its binade, or reaches the end of it.\<close>

lemma round_bits_binade:
  assumes "0 < x"
  shows "2 powi float_exponent x \<le> round_bits x" "round_bits x \<le> 2 powi (float_exponent x + 1)"
proof -
  let ?e = "float_exponent x" and ?s = "52 - float_exponent x"
  note b = float_exponent_bounds [OF assms]
  have p: "(2 :: rat) powi ?e * 2 powi ?s = of_int (2 ^ 52)" "(2 :: rat) powi (?e + 1) * 2 powi ?s = of_int (2 ^ 53)"
    by (simp_all add: power_int_add [symmetric])
  have "of_int (2 ^ 52) \<le> x * 2 powi ?s" "x * 2 powi ?s \<le> of_int (2 ^ 53)"
    using mult_right_mono [OF b(1), of "2 powi ?s"] mult_right_mono [OF less_imp_le [OF b(2)], of "2 powi ?s"]
    unfolding p by simp_all
  from round_even_mono [OF this(1)] round_even_mono [OF this(2)]
  have "2 ^ 52 \<le> round_even (x * 2 powi ?s)" "round_even (x * 2 powi ?s) \<le> 2 ^ 53" unfolding round_even_int .
  then have r: "(of_int (2 ^ 52) :: rat) \<le> of_int (round_even (x * 2 powi ?s))"
    "(of_int (round_even (x * 2 powi ?s)) :: rat) \<le> of_int (2 ^ 53)" by (simp_all only: of_int_le_iff)
  show "2 powi ?e \<le> round_bits x" "round_bits x \<le> 2 powi (?e + 1)"
    using r unfolding p [symmetric] by (simp_all add: round_bits_def Let_def pos_le_divide_eq pos_divide_le_eq)
qed

lemma round_bits_mono:
  assumes "0 < x" "x \<le> y"
  shows "round_bits x \<le> round_bits y"
proof -
  have y: "0 < y" using assms by simp
  note bx = float_exponent_bounds [OF assms(1)] and byy = float_exponent_bounds [OF y]
  have "2 powi float_exponent x < (2 :: rat) powi (float_exponent y + 1)" using bx(1) byy(2) assms(2) by simp
  then have e: "float_exponent x \<le> float_exponent y" by (simp flip: not_le)
  show ?thesis
  proof (cases "float_exponent x = float_exponent y")
    case True
    have "x * 2 powi (52 - float_exponent y) \<le> y * 2 powi (52 - float_exponent y)"
      using assms(2) by (simp add: mult_right_mono)
    from round_even_mono [OF this] show ?thesis
      unfolding round_bits_def Let_def True by (simp add: divide_right_mono)
  next
    case False
    then have "(2 :: rat) powi (float_exponent x + 1) \<le> 2 powi float_exponent y" using e by (simp only: powi_le_iff)
    with round_bits_binade(2) [OF assms(1)] have "round_bits x \<le> 2 powi float_exponent y" by (rule order_trans)
    then show ?thesis using round_bits_binade(1) [OF y] by (rule order_trans)
  qed
qed

lemma round_bits_pos: "0 < x \<Longrightarrow> 0 < round_bits x"
  using round_bits_binade(1) [of x] powi_pos [of "float_exponent x"] by linarith

text \<open>A number with at most 53 significant bits is exact.\<close>

lemma round_bits_exact:
  assumes x: "0 < x" and k: "x * 2 powi t = of_int k" "k \<le> 2 ^ 53"
  shows "round_bits x = x"
proof -
  let ?e = "float_exponent x" and ?s = "52 - float_exponent x"
  note b = float_exponent_bounds [OF x]
  have le: "(2 :: rat) powi (?e + t) \<le> of_int k"
    using mult_right_mono [OF b(1), of "2 powi t"] k(1) by (simp add: power_int_add)
  also have "\<dots> \<le> of_int (2 ^ 53)" using k(2) by (simp only: of_int_le_iff)
  finally have "(2 :: rat) powi (?e + t) \<le> 2 powi 53" by simp
  then have et: "?e + t \<le> 53" by (simp only: powi_le_iff)
  have "\<exists>n. x * 2 powi ?s = of_int n"
  proof (cases "?e + t = 53")
    case False
    then obtain j where j: "?s = t + int j" using et zero_le_imp_eq_int [of "?s - t"] by (auto simp: algebra_simps)
    have "x * 2 powi ?s = of_int (k * 2 ^ j)" using k(1) unfolding j by (simp add: power_int_add)
    then show ?thesis by blast
  next
    case True
    then have "(of_int (2 ^ 53) :: rat) \<le> of_int k" using le by simp
    then have "k = 2 ^ 53" using k(2) by (simp only: of_int_le_iff)
    moreover have t: "t = ?s + 1" using True by simp
    have "(2 :: rat) powi t = 2 powi ?s * 2" using power_int_add_1 [of "2 :: rat" ?s, folded t] by simp
    ultimately have "x * 2 powi ?s * 2 = of_int (2 ^ 52) * 2" using k(1) by (simp only: mult.assoc) simp
    then have "x * 2 powi ?s = of_int (2 ^ 52)" by (simp only: mult_cancel_right) simp
    then show ?thesis by blast
  qed
  then obtain n where "x * 2 powi ?s = of_int n" by blast
  moreover have "x * 2 powi ?s / 2 powi ?s = x" by simp
  ultimately show ?thesis by (simp add: round_bits_def Let_def)
qed

lemma float64_exact:
  assumes "x * 2 powi t = of_int k" "\<bar>k\<bar> \<le> 2 ^ 53"
  shows "float64 x = x"
proof -
  consider "x = 0" | "0 < x" | "0 < - x" by linarith
  then show ?thesis
  proof cases
    case 2
    then show ?thesis using round_bits_exact [of x t k] assms by (simp add: float64_def)
  next
    case 3
    have "(- x) * 2 powi t = of_int (- k)" using assms(1) by simp
    from round_bits_exact [OF 3 this] show ?thesis using 3 assms(2) by (simp add: float64_def)
  qed (simp add: float64_def)
qed

lemma round_bits_significand:
  assumes "0 < x"
  shows "\<exists>t k. round_bits x * 2 powi t = of_int k \<and> \<bar>k\<bar> \<le> 2 ^ 53"
proof -
  let ?s = "52 - float_exponent x"
  have "round_bits x \<le> 2 powi (float_exponent x + 1)" "0 < round_bits x"
    using round_bits_binade [OF assms] round_bits_pos [OF assms] by simp_all
  then have "round_bits x * 2 powi ?s \<le> 2 powi (float_exponent x + 1) * 2 powi ?s" "0 < round_bits x * 2 powi ?s"
    by (simp_all add: mult_right_mono)
  moreover have "(2 :: rat) powi (float_exponent x + 1) * 2 powi ?s = of_int (2 ^ 53)"
    by (simp add: power_int_add [symmetric])
  moreover have k: "round_bits x * 2 powi ?s = of_int (round_even (x * 2 powi ?s))"
    by (simp add: round_bits_def Let_def)
  ultimately have "round_even (x * 2 powi ?s) \<le> 2 ^ 53" "0 < round_even (x * 2 powi ?s)"
    by (simp_all only: of_int_le_iff of_int_0_less_iff)
  then show ?thesis using k by (intro exI [of _ ?s] exI [of _ "round_even (x * 2 powi ?s)"]) simp
qed

theorem float64_idem: "float64 (float64 x) = float64 x"
proof -
  consider "x = 0" | "0 < x" | "0 < - x" by linarith
  then show ?thesis
  proof cases
    case 2
    then obtain t k where "round_bits x * 2 powi t = of_int k" "\<bar>k\<bar> \<le> 2 ^ 53" using round_bits_significand by blast
    from float64_exact [OF this] 2 show ?thesis by (simp add: float64_def)
  next
    case 3
    then obtain t k where k: "round_bits (- x) * 2 powi t = of_int k" "\<bar>k\<bar> \<le> 2 ^ 53" using round_bits_significand by blast
    then have "- round_bits (- x) * 2 powi t = of_int (- k)" "\<bar>- k\<bar> \<le> 2 ^ 53" by simp_all
    from float64_exact [OF this] 3 show ?thesis by (simp add: float64_def)
  qed (simp add: float64_def)
qed

theorem float64_mono: "mono float64"
proof
  fix x y :: rat
  assume le: "x \<le> y"
  consider "0 < x" | "x \<le> 0" "0 \<le> y" | "y < 0" by linarith
  then show "float64 x \<le> float64 y"
  proof cases
    case 1
    then show ?thesis using round_bits_mono [OF 1 le] le by (simp add: float64_def)
  next
    case 2
    have "float64 x \<le> 0" "0 \<le> float64 y"
      using 2 round_bits_pos [of "- x"] round_bits_pos [of y] by (auto simp: float64_def)
    then show ?thesis by linarith
  next
    case 3
    then show ?thesis using round_bits_mono [of "- y" "- x"] le by (simp add: float64_def)
  qed
qed

end
