(* ===== verification/Pglg_Config.thy ===== *)
theory Pglg_Config
  imports Go_Layout Go_Float "HOL-Library.Multiset"
begin

text \<open>
  The configuration part of \<open>driver.go\<close>: the \<open>Config\<close> struct with its defaults and its
  validation, the names of the tables, the reading of \<open>PGLG_*\<close> environment variables (with
  \<open>time.ParseDuration\<close>), the \<open>Driver\<close> struct and its constructor \<open>New\<close>. \<open>pgxpool.New\<close> is
  a library: it is the argument \<open>pool_new\<close>, which answers with an error or opens a pool; the
  model keeps the list of the pools that are open so that leaks are visible. The
  fraction of a duration such as \<open>1.5s\<close> is computed in \<open>float64\<close>, as the library does.
\<close>

section \<open>time.ParseDuration\<close>

definition unitMap :: "string \<Rightarrow> nat option" where
  "unitMap u =
     (if u = ''ns'' then Some 1
      else if u = ''us'' \<or> u = [CHR 0xC2, CHR 0xB5, CHR ''s''] \<or> u = [CHR 0xCE, CHR 0xBC, CHR ''s'']
      then Some 1000
      else if u = ''ms'' then Some 1000000
      else if u = ''s'' then Some 1000000000
      else if u = ''m'' then Some 60000000000
      else if u = ''h'' then Some 3600000000000
      else None)"

fun leadingInt :: "nat \<Rightarrow> string \<Rightarrow> (nat \<times> string) option" where
  "leadingInt x [] = Some (x, [])"
| "leadingInt x (c # s) =
     (if \<not> is_digit c then Some (x, c # s)
      else if x > 2 ^ 63 div 10 then None
      else if x * 10 + digit_val c > 2 ^ 63 then None
      else leadingInt (x * 10 + digit_val c) s)"

text \<open>The digits of the fraction, and the power of ten that scales them, a \<open>float64\<close>.\<close>

fun leadingFraction :: "nat \<Rightarrow> rat \<Rightarrow> bool \<Rightarrow> string \<Rightarrow> nat \<times> rat \<times> string" where
  "leadingFraction x scale overflow [] = (x, scale, [])"
| "leadingFraction x scale overflow (c # s) =
     (if \<not> is_digit c then (x, scale, c # s)
      else if overflow then leadingFraction x scale True s
      else if x > (2 ^ 63 - 1) div 10 then leadingFraction x scale True s
      else if x * 10 + digit_val c > 2 ^ 63 then leadingFraction x scale True s
      else leadingFraction (x * 10 + digit_val c) (float64 (scale * 10)) False s)"

definition is_unit_char :: "char \<Rightarrow> bool" where
  "is_unit_char c \<longleftrightarrow> c \<noteq> CHR ''.'' \<and> \<not> is_digit c"

text \<open>One \<open>number unit\<close> group: its value in nanoseconds and the rest of the string.\<close>

definition duration_group :: "string \<Rightarrow> (nat \<times> string) option" where
  "duration_group s =
     (if \<not> (hd s = CHR ''.'' \<or> is_digit (hd s)) then None
      else case leadingInt 0 s of None \<Rightarrow> None
      | Some (v, s1) \<Rightarrow>
        let pre = (length s \<noteq> length s1);
            (f, scale, s2) =
              (if s1 \<noteq> [] \<and> hd s1 = CHR ''.'' then leadingFraction 0 1 False (tl s1) else (0, 1, s1));
            post = (s1 \<noteq> [] \<and> hd s1 = CHR ''.'' \<and> length (tl s1) \<noteq> length s2);
            u = takeWhile is_unit_char s2; s3 = dropWhile is_unit_char s2
        in if \<not> pre \<and> \<not> post then None
           else if u = [] then None
           else case unitMap u of None \<Rightarrow> None
           | Some unit \<Rightarrow>
               if v > 2 ^ 63 div unit then None
               else let w = v * unit + (if f > 0 then nat \<lfloor>float64 (float64 (of_nat f) * float64 (float64 (of_nat unit) / scale))\<rfloor> else 0)
                    in if w > 2 ^ 63 then None else Some (w, s3))"

lemma leadingInt_length: "leadingInt x s = Some (v, r) \<Longrightarrow> length r \<le> length s"
  by (induction x s rule: leadingInt.induct) (auto split: if_splits)

lemma leadingFraction_length: "leadingFraction x sc ov s = (v, sc', r) \<Longrightarrow> length r \<le> length s"
  by (induction x sc ov s rule: leadingFraction.induct) (auto split: if_splits)

lemma duration_group_shorter: "duration_group s = Some (w, r) \<Longrightarrow> length r < length s"
proof -
  assume g: "duration_group s = Some (w, r)"
  then obtain v s1 where l: "leadingInt 0 s = Some (v, s1)"
    by (auto simp: duration_group_def split: if_splits option.splits)
  define s2 where "s2 = (snd (snd (if s1 \<noteq> [] \<and> hd s1 = CHR ''.'' then leadingFraction 0 1 False (tl s1)
      else (0, 1, s1))))"
  have "length s2 \<le> length s1"
    using leadingFraction_length [of 0 1 False "tl s1"]
    by (cases "leadingFraction 0 1 False (tl s1)") (auto simp: s2_def le_diff_conv)
  moreover have "takeWhile is_unit_char s2 \<noteq> [] \<and> r = dropWhile is_unit_char s2"
    using g l by (auto simp: duration_group_def s2_def Let_def split: if_splits option.splits prod.splits)
  moreover have "length (takeWhile is_unit_char s2) + length (dropWhile is_unit_char s2) = length s2"
    by (metis length_append takeWhile_dropWhile_id)
  ultimately show ?thesis using leadingInt_length [OF l] by (cases "takeWhile is_unit_char s2") auto
qed

function duration_loop :: "nat \<Rightarrow> string \<Rightarrow> nat option" where
  "duration_loop d s =
     (if s = [] then Some d
      else case duration_group s of None \<Rightarrow> None
      | Some (w, r) \<Rightarrow> if d + w > 2 ^ 63 then None else duration_loop (d + w) r)"
  by pat_completeness auto
termination
  by (relation "measure (\<lambda>(d, s). length s)") (auto dest: duration_group_shorter)

declare duration_loop.simps [simp del]

definition ParseDuration :: "string \<Rightarrow> go_error + duration" where
  "ParseDuration orig =
     (let bad = Inl (Errorf ''time: invalid duration %q'' [FStr orig]);
          neg = (orig \<noteq> [] \<and> hd orig = CHR ''-'');
          s = (if orig \<noteq> [] \<and> (hd orig = CHR ''-'' \<or> hd orig = CHR ''+'') then tl orig else orig)
      in if s = ''0'' then Inr 0
         else if s = [] then bad
         else case duration_loop 0 s of None \<Rightarrow> bad
         | Some d \<Rightarrow>
             if neg then Inr (- int d)
             else if d > 2 ^ 63 - 1 then bad
             else Inr (int d))"

section \<open>Config\<close>

record ReplicaConfig =
  R_Name :: string
  R_ConnString :: string
  R_SubscriptionName :: string

datatype logger = SlogDefault | CustomLogger
datatype statsd_client = NoOpClient | CustomClient

record Config =
  ConnString :: string
  SlotName :: string
  PublicationName :: string
  Schema :: string
  TablePrefix :: string
  MaxBatchSize :: int
  BatchTimeout :: duration
  StandbyInterval :: duration
  PartitionInterval :: duration
  PartitionLookAhead :: duration
  PartitionRetention :: duration
  PartitionMaintInterval :: duration
  ReconnectInitialDelay :: duration
  ReconnectMaxDelay :: duration
  SlotBusyRetryDelay :: duration
  SlotBusyRetryJitter :: duration
  LeaderHeartbeatInterval :: duration
  DLQRetention :: duration
  DLQCleanupInterval :: duration
  Logger :: "logger option"
  Statsd :: "statsd_client option"
  Replicas :: "ReplicaConfig list"

text \<open>The zero value \<open>Config{}\<close>.\<close>

definition zero_Config :: Config where
  "zero_Config =
     \<lparr>ConnString = '''', SlotName = '''', PublicationName = '''', Schema = '''', TablePrefix = '''',
      MaxBatchSize = 0, BatchTimeout = 0, StandbyInterval = 0, PartitionInterval = 0,
      PartitionLookAhead = 0, PartitionRetention = 0, PartitionMaintInterval = 0,
      ReconnectInitialDelay = 0, ReconnectMaxDelay = 0, SlotBusyRetryDelay = 0,
      SlotBusyRetryJitter = 0, LeaderHeartbeatInterval = 0, DLQRetention = 0,
      DLQCleanupInterval = 0, Logger = None, Statsd = None, Replicas = []\<rparr>"

definition or_default :: "int \<Rightarrow> int \<Rightarrow> int" where
  "or_default dflt v = (if v \<le> 0 then dflt else v)"

definition setDefaults :: "Config \<Rightarrow> Config" where
  "setDefaults c =
     c\<lparr>Schema := (if Schema c = '''' then ''public'' else Schema c),
       TablePrefix := (if TablePrefix c = '''' then ''outbox'' else TablePrefix c),
       MaxBatchSize := or_default 100 (MaxBatchSize c),
       BatchTimeout := or_default (1 * Second) (BatchTimeout c),
       StandbyInterval := or_default (10 * Second) (StandbyInterval c),
       PartitionInterval := or_default (1 * Hour) (PartitionInterval c),
       PartitionLookAhead := or_default (12 * Hour) (PartitionLookAhead c),
       PartitionRetention := or_default (3 * Hour) (PartitionRetention c),
       PartitionMaintInterval := or_default (5 * Minute) (PartitionMaintInterval c),
       ReconnectInitialDelay := or_default (1 * Second) (ReconnectInitialDelay c),
       ReconnectMaxDelay := or_default (30 * Second) (ReconnectMaxDelay c),
       SlotBusyRetryDelay := or_default (5 * Second) (SlotBusyRetryDelay c),
       SlotBusyRetryJitter := or_default (1 * Second) (SlotBusyRetryJitter c),
       LeaderHeartbeatInterval := or_default (15 * Second) (LeaderHeartbeatInterval c),
       DLQRetention := or_default (30 * 24 * Hour) (DLQRetention c),
       DLQCleanupInterval := or_default (1 * Hour) (DLQCleanupInterval c),
       Logger := (if Logger c = None then Some SlogDefault else Logger c),
       Statsd := (if Statsd c = None then Some NoOpClient else Statsd c)\<rparr>"

text \<open>The loop of \<open>validate\<close> over the replicas, with its index and the names seen.\<close>

fun validate_replicas :: "nat \<Rightarrow> string set \<Rightarrow> ReplicaConfig list \<Rightarrow> go_error option" where
  "validate_replicas i seen [] = None"
| "validate_replicas i seen (r # rs) =
     (if R_Name r = '''' then Some (Errorf ''pglg: Replicas[%d]: Name is required'' [FInt (int i)])
      else if R_ConnString r = '''' then
        Some (Errorf ''pglg: Replicas[%d] (%q): ConnString is required'' [FInt (int i), FStr (R_Name r)])
      else if R_SubscriptionName r = '''' then
        Some (Errorf ''pglg: Replicas[%d] (%q): SubscriptionName is required''
                [FInt (int i), FStr (R_Name r)])
      else if R_Name r \<in> seen then
        Some (Errorf ''pglg: duplicate replica name %q'' [FStr (R_Name r)])
      else validate_replicas (i + 1) (insert (R_Name r) seen) rs)"

definition validate :: "Config \<Rightarrow> go_error option" where
  "validate c =
     (if ConnString c = '''' then Some (Errorf ''pglg: ConnString is required'' [])
      else if SlotName c = '''' then Some (Errorf ''pglg: SlotName is required'' [])
      else if PublicationName c = '''' then Some (Errorf ''pglg: PublicationName is required'' [])
      else validate_replicas 0 {} (Replicas c))"

definition jobsTable :: "Config \<Rightarrow> string" where
  "jobsTable c = Schema c @ ''.'' @ TablePrefix c @ ''_jobs''"

definition cursorTable :: "Config \<Rightarrow> string" where
  "cursorTable c = Schema c @ ''.'' @ TablePrefix c @ ''_cursor''"

definition partitionMetaTable :: "Config \<Rightarrow> string" where
  "partitionMetaTable c = Schema c @ ''.'' @ TablePrefix c @ ''_partition_meta''"

definition dlqTable :: "Config \<Rightarrow> string" where
  "dlqTable c = Schema c @ ''.'' @ TablePrefix c @ ''_dlq''"

text \<open>One \<open>if v := os.Getenv(name); v != ""\<close> block for a duration.\<close>

definition env_duration ::
  "(string \<Rightarrow> string) \<Rightarrow> string \<Rightarrow> (duration \<Rightarrow> Config \<Rightarrow> Config) \<Rightarrow> Config \<Rightarrow> go_error + Config" where
  "env_duration env name upd cfg =
     (if env name = '''' then Inr cfg
      else case ParseDuration (env name) of
             Inl err \<Rightarrow> Inl (Wrapf (''pglg: invalid '' @ name @ '': %w'') [] err)
           | Inr d \<Rightarrow> Inr (upd d cfg))"

definition env_int ::
  "(string \<Rightarrow> string) \<Rightarrow> string \<Rightarrow> (int \<Rightarrow> Config \<Rightarrow> Config) \<Rightarrow> Config \<Rightarrow> go_error + Config" where
  "env_int env name upd cfg =
     (if env name = '''' then Inr cfg
      else case ParseInt (env name) of
             Inl err \<Rightarrow> Inl (Wrapf (''pglg: invalid '' @ name @ '': %w'') []
                               (Errorf ''strconv.Atoi: parsing %q'' [FStr (env name)]))
           | Inr n \<Rightarrow> Inr (upd n cfg))"

definition bind_sum :: "'e + 'a \<Rightarrow> ('a \<Rightarrow> 'e + 'b) \<Rightarrow> 'e + 'b" where
  "bind_sum r f = (case r of Inl e \<Rightarrow> Inl e | Inr a \<Rightarrow> f a)"

definition ConfigFromEnv :: "(string \<Rightarrow> string) \<Rightarrow> go_error + Config" where
  "ConfigFromEnv env =
     (let cfg0 = zero_Config
            \<lparr>ConnString := env ''PGLG_CONN_STRING'', SlotName := env ''PGLG_SLOT_NAME'',
             PublicationName := env ''PGLG_PUBLICATION_NAME'', Schema := env ''PGLG_SCHEMA'',
             TablePrefix := env ''PGLG_TABLE_PREFIX''\<rparr>
      in bind_sum (env_int env ''PGLG_MAX_BATCH_SIZE'' (\<lambda>n c. c\<lparr>MaxBatchSize := n\<rparr>) cfg0) (\<lambda>cfg1.
         bind_sum (env_duration env ''PGLG_BATCH_TIMEOUT'' (\<lambda>d c. c\<lparr>BatchTimeout := d\<rparr>) cfg1) (\<lambda>cfg2.
         bind_sum (env_duration env ''PGLG_STANDBY_INTERVAL'' (\<lambda>d c. c\<lparr>StandbyInterval := d\<rparr>) cfg2) (\<lambda>cfg3.
         bind_sum (env_duration env ''PGLG_DLQ_RETENTION'' (\<lambda>d c. c\<lparr>DLQRetention := d\<rparr>) cfg3) (\<lambda>cfg4.
         bind_sum (env_duration env ''PGLG_DLQ_CLEANUP_INTERVAL'' (\<lambda>d c. c\<lparr>DLQCleanupInterval := d\<rparr>) cfg4) (\<lambda>cfg5.
         let dsn = env ''PGLG_REPLICA_CONN_STRING''
         in Inr (if dsn = '''' then cfg5
                 else cfg5\<lparr>Replicas := Replicas cfg5 @
                        [\<lparr>R_Name = env ''PGLG_REPLICA_NAME'', R_ConnString = dsn,
                          R_SubscriptionName = env ''PGLG_REPLICA_SUBSCRIPTION''\<rparr>]\<rparr>)))))))"

section \<open>Driver and New\<close>

text \<open>A pool is identified by the connection string it was opened with. \<open>maintWake\<close> is a
  channel of capacity one: whether it holds a token.\<close>

record replicaPool =
  rp_name :: string
  rp_pool :: string
  rp_subscriptionName :: string

record driver =
  cfg :: Config
  pool :: string
  replicaPools :: "replicaPool list"
  isLeader :: bool
  maintWake :: bool
  standbyLogged :: bool

text \<open>The loop of \<open>New\<close> over the replicas. \<open>acc\<close> are the replica pools opened so far and
  \<open>opened\<close> all the open pools; on an error the earlier replica pools and the primary pool
  are closed again.\<close>

fun open_replicas ::
  "(string \<Rightarrow> go_error option) \<Rightarrow> string \<Rightarrow> replicaPool list \<Rightarrow> string list \<Rightarrow> ReplicaConfig list \<Rightarrow>
   (go_error + replicaPool list) \<times> string list" where
  "open_replicas pool_new primary acc opened [] = (Inr acc, opened)"
| "open_replicas pool_new primary acc opened (r # rs) =
     (case pool_new (R_ConnString r) of
        Some err \<Rightarrow>
          (Inl (Wrapf ''pglg: create replica pool %q: %w'' [FStr (R_Name r)] err),
           remove1 primary (fold remove1 (map rp_pool acc) opened))
      | None \<Rightarrow>
          open_replicas pool_new primary
            (acc @ [\<lparr>rp_name = R_Name r, rp_pool = R_ConnString r,
                     rp_subscriptionName = R_SubscriptionName r\<rparr>])
            (opened @ [R_ConnString r]) rs)"

definition New :: "(string \<Rightarrow> go_error option) \<Rightarrow> Config \<Rightarrow> (go_error + driver) \<times> string list" where
  "New pool_new cfg0 =
     (let c = setDefaults cfg0 in
      case validate c of
        Some err \<Rightarrow> (Inl err, [])
      | None \<Rightarrow>
        (case pool_new (ConnString c) of
           Some err \<Rightarrow> (Inl (Wrapf ''pglg: create pool: %w'' [] err), [])
         | None \<Rightarrow>
           (case open_replicas pool_new (ConnString c) [] [ConnString c] (Replicas c) of
              (Inl err, opened) \<Rightarrow> (Inl err, opened)
            | (Inr rps, opened) \<Rightarrow>
                (Inr \<lparr>cfg = c, pool = ConnString c, replicaPools = rps, isLeader = False,
                      maintWake = False, standbyLogged = False\<rparr>, opened))))"

text \<open>\<open>Role\<close>.\<close>

definition Role :: "driver \<Rightarrow> string" where
  "Role d = (if isLeader d then ''leader'' else ''standby'')"

section \<open>Defaults\<close>

text \<open>What every driver may assume of its configuration after \<open>setDefaults\<close>.\<close>

definition defaults_set :: "Config \<Rightarrow> bool" where
  "defaults_set c \<longleftrightarrow>
     Schema c \<noteq> '''' \<and> TablePrefix c \<noteq> '''' \<and> 0 < MaxBatchSize c \<and> 0 < BatchTimeout c \<and>
     0 < StandbyInterval c \<and> 0 < PartitionInterval c \<and> 0 < PartitionLookAhead c \<and>
     0 < PartitionRetention c \<and> 0 < PartitionMaintInterval c \<and> 0 < ReconnectInitialDelay c \<and>
     0 < ReconnectMaxDelay c \<and> 0 < SlotBusyRetryDelay c \<and> 0 < SlotBusyRetryJitter c \<and>
     0 < LeaderHeartbeatInterval c \<and> 0 < DLQRetention c \<and> 0 < DLQCleanupInterval c \<and>
     Logger c \<noteq> None \<and> Statsd c \<noteq> None"

lemma or_default_pos: "0 < d \<Longrightarrow> 0 < or_default d v"
  by (simp add: or_default_def)

lemma or_default_keep: "0 < v \<Longrightarrow> or_default d v = v"
  by (simp add: or_default_def)

lemma setDefaults_set: "defaults_set (setDefaults c)"
  by (auto simp: defaults_set_def setDefaults_def or_default_pos)

lemma setDefaults_keep: "defaults_set c \<Longrightarrow> setDefaults c = c"
  by (cases c) (simp add: defaults_set_def setDefaults_def or_default_keep)

lemma setDefaults_frame [frame]:
  "ConnString (setDefaults c) = ConnString c" "SlotName (setDefaults c) = SlotName c"
  "PublicationName (setDefaults c) = PublicationName c" "Replicas (setDefaults c) = Replicas c"
  by (simp_all add: setDefaults_def)

section \<open>Validation\<close>

definition replica_complete :: "ReplicaConfig \<Rightarrow> bool" where
  "replica_complete r \<longleftrightarrow> R_Name r \<noteq> '''' \<and> R_ConnString r \<noteq> '''' \<and> R_SubscriptionName r \<noteq> ''''"

lemma validate_replicas_None:
  "validate_replicas i seen rs = None \<longleftrightarrow>
     list_all replica_complete rs \<and> distinct (map R_Name rs) \<and> set (map R_Name rs) \<inter> seen = {}"
  by (induction i seen rs rule: validate_replicas.induct) (auto simp: replica_complete_def)

lemma validate_None:
  "validate c = None \<longleftrightarrow>
     ConnString c \<noteq> '''' \<and> SlotName c \<noteq> '''' \<and> PublicationName c \<noteq> '''' \<and>
     list_all replica_complete (Replicas c) \<and> distinct (map R_Name (Replicas c))"
  by (simp add: validate_def validate_replicas_None)

section \<open>Pools opened by New\<close>

lemma mset_fold_remove1: "mset (fold remove1 xs ys) = mset ys - mset xs"
  by (induction xs arbitrary: ys) simp_all

lemma fold_remove1_all: "remove1 p (fold remove1 xs (p # xs)) = []"
proof -
  have "mset (remove1 p (fold remove1 xs (p # xs))) = {#}"
    by (simp add: mset_fold_remove1)
  then show ?thesis by (simp only: mset_zero_iff)
qed

lemma open_replicas_Inl:
  "open_replicas pool_new p acc (p # map rp_pool acc) rs = (Inl err, opened) \<Longrightarrow> opened = []"
  by (induction pool_new p acc "p # map rp_pool acc" rs rule: open_replicas.induct)
    (auto simp: fold_remove1_all split: option.splits)

lemma open_replicas_Inr:
  "open_replicas pool_new p acc (p # map rp_pool acc) rs = (Inr rps, opened) \<Longrightarrow>
   opened = p # map rp_pool rps \<and>
   map (\<lambda>r. (rp_name r, rp_pool r, rp_subscriptionName r)) rps =
     map (\<lambda>r. (rp_name r, rp_pool r, rp_subscriptionName r)) acc @
     map (\<lambda>r. (R_Name r, R_ConnString r, R_SubscriptionName r)) rs"
  by (induction pool_new p acc "p # map rp_pool acc" rs rule: open_replicas.induct)
    (auto split: option.splits)

lemma New_Inl_closed: "New pool_new c = (Inl err, opened) \<Longrightarrow> opened = []"
  by (auto simp: New_def Let_def dest: open_replicas_Inl [where acc = "[]", simplified]
      split: option.splits prod.splits sum.splits)

lemma New_Inr:
  assumes "New pool_new c = (Inr d, opened)"
  shows "cfg d = setDefaults c \<and> defaults_set (cfg d) \<and> validate (cfg d) = None \<and>
    opened = pool d # map rp_pool (replicaPools d) \<and>
    map rp_name (replicaPools d) = map R_Name (Replicas c) \<and>
    \<not> isLeader d \<and> \<not> maintWake d \<and> \<not> standbyLogged d"
proof -
  obtain rps where r: "open_replicas pool_new (ConnString c) [] [ConnString c] (Replicas c) = (Inr rps, opened)"
    and d: "d = \<lparr>cfg = setDefaults c, pool = ConnString c, replicaPools = rps, isLeader = False,
                 maintWake = False, standbyLogged = False\<rparr>"
    and v: "validate (setDefaults c) = None"
    using assms by (auto simp: New_def Let_def frame split: option.splits prod.splits sum.splits)
  have o: "opened = ConnString c # map rp_pool rps"
    "map (\<lambda>r. (rp_name r, rp_pool r, rp_subscriptionName r)) rps =
     map (\<lambda>r. (R_Name r, R_ConnString r, R_SubscriptionName r)) (Replicas c)"
    using open_replicas_Inr [where acc = "[]"] r by fastforce+
  have "map rp_name rps = map R_Name (Replicas c)"
    using arg_cong [OF o(2), of "map fst"] by (simp add: comp_def)
  with o(1) d v show ?thesis by (simp add: setDefaults_set)
qed

section \<open>Environment variables\<close>

lemma env_int_Inr:
  "env_int env n upd c = Inr c' \<Longrightarrow>
   (env n = '''' \<and> c' = c) \<or> (\<exists>i. ParseInt (env n) = Inr i \<and> c' = upd i c)"
  by (auto simp: env_int_def split: if_splits sum.splits)

lemma env_duration_Inr:
  "env_duration env n upd c = Inr c' \<Longrightarrow>
   (env n = '''' \<and> c' = c) \<or> (\<exists>d. ParseDuration (env n) = Inr d \<and> c' = upd d c)"
  by (auto simp: env_duration_def split: if_splits sum.splits)

text \<open>The variables that are parsed, and whether they can be: an empty one counts as not set.\<close>

definition env_durations :: "string list" where
  "env_durations = [''PGLG_BATCH_TIMEOUT'', ''PGLG_STANDBY_INTERVAL'', ''PGLG_DLQ_RETENTION'', ''PGLG_DLQ_CLEANUP_INTERVAL'']"

definition parses :: "(string \<Rightarrow> 'e + 'a) \<Rightarrow> string \<Rightarrow> bool" where
  "parses parse v \<longleftrightarrow> v = '''' \<or> (\<exists>x. parse v = Inr x)"

lemma env_int_total: "(\<exists>c'. env_int env n upd c = Inr c') \<longleftrightarrow> parses ParseInt (env n)"
  by (auto simp: env_int_def parses_def split: sum.splits)

lemma env_duration_total: "(\<exists>c'. env_duration env n upd c = Inr c') \<longleftrightarrow> parses ParseDuration (env n)"
  by (auto simp: env_duration_def parses_def split: sum.splits)

lemma bind_sum_Inr: "(\<exists>b. bind_sum r f = Inr b) \<longleftrightarrow> (\<exists>a. r = Inr a \<and> (\<exists>b. f a = Inr b))"
  by (auto simp: bind_sum_def split: sum.splits)

lemma ConfigFromEnv_total:
  "(\<exists>c. ConfigFromEnv env = Inr c) \<longleftrightarrow>
     parses ParseInt (env ''PGLG_MAX_BATCH_SIZE'') \<and> list_all (parses ParseDuration \<circ> env) env_durations"
  unfolding ConfigFromEnv_def Let_def bind_sum_Inr
  by (simp add: env_durations_def env_int_total env_duration_total)

text \<open>The blocks for the parsed variables leave the names and the replicas alone.\<close>

definition same_names :: "Config \<Rightarrow> Config \<Rightarrow> bool" where
  "same_names c c' \<longleftrightarrow> ConnString c' = ConnString c \<and> SlotName c' = SlotName c \<and>
     PublicationName c' = PublicationName c \<and> Replicas c' = Replicas c"

lemma env_same_names:
  assumes "\<And>v. same_names c (upd v c)"
  shows "env_int env n upd c = Inr c' \<Longrightarrow> same_names c c'"
    and "env_duration env n upd c = Inr c' \<Longrightarrow> same_names c c'"
  using assms env_int_Inr [of env n upd c c'] env_duration_Inr [of env n upd c c'] by (auto simp: same_names_def)

lemma ConfigFromEnv_fields:
  assumes "ConfigFromEnv env = Inr c"
  shows "ConnString c = env ''PGLG_CONN_STRING'' \<and> SlotName c = env ''PGLG_SLOT_NAME'' \<and>
    PublicationName c = env ''PGLG_PUBLICATION_NAME'' \<and>
    Replicas c = (if env ''PGLG_REPLICA_CONN_STRING'' = [] then []
       else [\<lparr>R_Name = env ''PGLG_REPLICA_NAME'', R_ConnString = env ''PGLG_REPLICA_CONN_STRING'',
              R_SubscriptionName = env ''PGLG_REPLICA_SUBSCRIPTION''\<rparr>])"
proof -
  let ?c0 = "zero_Config\<lparr>ConnString := env ''PGLG_CONN_STRING'', SlotName := env ''PGLG_SLOT_NAME'',
    PublicationName := env ''PGLG_PUBLICATION_NAME'', Schema := env ''PGLG_SCHEMA'', TablePrefix := env ''PGLG_TABLE_PREFIX''\<rparr>"
  from assms obtain c1 c2 c3 c4 c5 where
    c: "env_int env ''PGLG_MAX_BATCH_SIZE'' (\<lambda>n c. c\<lparr>MaxBatchSize := n\<rparr>) ?c0 = Inr c1"
      "env_duration env ''PGLG_BATCH_TIMEOUT'' (\<lambda>d c. c\<lparr>BatchTimeout := d\<rparr>) c1 = Inr c2"
      "env_duration env ''PGLG_STANDBY_INTERVAL'' (\<lambda>d c. c\<lparr>StandbyInterval := d\<rparr>) c2 = Inr c3"
      "env_duration env ''PGLG_DLQ_RETENTION'' (\<lambda>d c. c\<lparr>DLQRetention := d\<rparr>) c3 = Inr c4"
      "env_duration env ''PGLG_DLQ_CLEANUP_INTERVAL'' (\<lambda>d c. c\<lparr>DLQCleanupInterval := d\<rparr>) c4 = Inr c5"
    and r: "c = (if env ''PGLG_REPLICA_CONN_STRING'' = [] then c5
      else c5\<lparr>Replicas := Replicas c5 @ [\<lparr>R_Name = env ''PGLG_REPLICA_NAME'', R_ConnString = env ''PGLG_REPLICA_CONN_STRING'',
        R_SubscriptionName = env ''PGLG_REPLICA_SUBSCRIPTION''\<rparr>]\<rparr>)"
    by (auto simp: ConfigFromEnv_def bind_sum_def Let_def split: sum.splits)
  have "same_names ?c0 c1" "same_names c1 c2" "same_names c2 c3" "same_names c3 c4" "same_names c4 c5"
    by (rule env_same_names(1) [OF _ c(1)] env_same_names(2) [OF _ c(2)] env_same_names(2) [OF _ c(3)] env_same_names(2) [OF _ c(4)]
        env_same_names(2) [OF _ c(5)]; simp add: same_names_def)+
  then have "same_names ?c0 c5" by (simp add: same_names_def)
  then show ?thesis using r by (simp add: same_names_def zero_Config_def)
qed

section \<open>The driver\<close>

text \<open>What holds of every driver: a complete and valid configuration, and the pools it names.\<close>

definition driver_ok :: "driver \<Rightarrow> bool" where
  "driver_ok d \<longleftrightarrow> defaults_set (cfg d) \<and> validate (cfg d) = None \<and> pool d = ConnString (cfg d) \<and>
     map (\<lambda>r. (rp_name r, rp_pool r, rp_subscriptionName r)) (replicaPools d) =
       map (\<lambda>r. (R_Name r, R_ConnString r, R_SubscriptionName r)) (Replicas (cfg d))"

lemma New_driver_ok:
  assumes "New pool_new c = (Inr d, opened)"
  shows "driver_ok d"
proof -
  have "defaults_set (cfg d)" "validate (cfg d) = None" using New_Inr [OF assms] by blast+
  moreover have "\<exists>rps. open_replicas pool_new (ConnString c) [] [ConnString c] (Replicas c) = (Inr rps, opened) \<and>
      d = \<lparr>cfg = setDefaults c, pool = ConnString c, replicaPools = rps, isLeader = False,
           maintWake = False, standbyLogged = False\<rparr>"
    using assms by (auto simp: New_def Let_def frame split: option.splits prod.splits sum.splits)
  ultimately show ?thesis
    using open_replicas_Inr [where acc = "[]" and pool_new = pool_new and p = "ConnString c" and rs = "Replicas c"]
    by (auto simp: driver_ok_def frame)
qed

lemma New_succeeds: "(\<exists>d opened. New (\<lambda>s. None) c = (Inr d, opened)) \<longleftrightarrow> validate c = None"
proof -
  have "\<exists>rps opened'. open_replicas (\<lambda>s. None) p acc opened rs = (Inr rps, opened')" for p acc opened rs
    by (induction rs arbitrary: acc opened) simp_all
  then obtain rps opened' where "open_replicas (\<lambda>s. None) (ConnString c) [] [ConnString c] (Replicas c) = (Inr rps, opened')"
    by blast
  moreover have "validate (setDefaults c) = validate c" by (simp add: validate_def frame)
  ultimately show ?thesis by (auto simp: New_def Let_def frame split: option.splits)
qed

end
