(* ===== verification/Pglg_Wal_Parser.thy ===== *)
theory Pglg_Wal_Parser
  imports Pglg_Config
begin

text \<open>
  \<open>wal_parser.go\<close>: from a raw pgoutput message to the driver's own message types, and from
  the column texts of an INSERT to an outbox row. \<open>pglogrepl.ParseV2\<close> is a library: it is the
  argument \<open>ParseV2\<close> of \<open>parseWALMessage\<close>, with the message types the driver tells apart as a
  datatype. The lemmas show that the row parser reads back what Postgres prints for a row
  (in a UTC session), when it fails, and which timestamps it cannot read.
\<close>

section \<open>Messages\<close>

text \<open>\<open>pglogrepl.RelationMessageColumn\<close>, of which the driver reads the name, and
  \<open>pglogrepl.TupleDataColumn\<close>: its kind byte and its data.\<close>

record RelationMessageColumn =
  col_Name :: string

record TupleDataColumn =
  DataType :: char
  Data :: bytes

definition TupleDataTypeNull :: char where
  "TupleDataTypeNull = CHR ''n''"

datatype pglogrepl_msg =
    RelationMessageV2 oid string "RelationMessageColumn list"
  | RelationMessage oid string "RelationMessageColumn list"
  | InsertMessageV2 oid "TupleDataColumn list"
  | CommitMessage lsn                          \<comment> \<open>its \<open>TransactionEndLSN\<close>\<close>
  | BeginMessage
  | StreamStartMessageV2
  | StreamStopMessageV2
  | StreamCommitMessageV2
  | StreamAbortMessageV2
  | OtherMessage

record columnValue =
  isNull :: bool
  data :: string

datatype walMessage =
    walRelation oid string "string list"
  | walInsert oid "columnValue list"
  | walCommit lsn
  | walBegin

text \<open>The error for a message type that is only sent to a client that asked for streaming; \<open>%T\<close>
  prints the type.\<close>

definition streaming_error :: "string \<Rightarrow> go_error" where
  "streaming_error ty = Errorf ''pglg: received streaming WAL message %T but the driver does not negotiate streaming: check StartReplication PluginArgs'' [FStr ty]"

definition parseWALMessage ::
  "(bytes \<Rightarrow> go_error + pglogrepl_msg) \<Rightarrow> bytes \<Rightarrow> go_error + walMessage option" where
  "parseWALMessage ParseV2 walData =
     (case ParseV2 walData of
        Inl err \<Rightarrow> Inl (Wrapf ''pglg: parse WAL message: %w'' [] err)
      | Inr msg \<Rightarrow>
        (case msg of
           RelationMessageV2 rid name cols \<Rightarrow> Inr (Some (walRelation rid name (map col_Name cols)))
         | RelationMessage rid name cols \<Rightarrow> Inr (Some (walRelation rid name (map col_Name cols)))
         | InsertMessageV2 rid cols \<Rightarrow>
             Inr (Some (walInsert rid
               (map (\<lambda>col. \<lparr>isNull = (DataType col = TupleDataTypeNull), data = Data col\<rparr>) cols)))
         | CommitMessage l \<Rightarrow> Inr (Some (walCommit l))
         | BeginMessage \<Rightarrow> Inr (Some walBegin)
         | StreamStartMessageV2 \<Rightarrow> Inl (streaming_error ''*pglogrepl.StreamStartMessageV2'')
         | StreamStopMessageV2 \<Rightarrow> Inl (streaming_error ''*pglogrepl.StreamStopMessageV2'')
         | StreamCommitMessageV2 \<Rightarrow> Inl (streaming_error ''*pglogrepl.StreamCommitMessageV2'')
         | StreamAbortMessageV2 \<Rightarrow> Inl (streaming_error ''*pglogrepl.StreamAbortMessageV2'')
         | OtherMessage \<Rightarrow> Inr None))"

section \<open>Rows\<close>

record parsedInsert =
  pid :: int
  createdAt :: gotime
  producerID :: string
  jobType :: string
  payload :: bytes
  runAt :: gotime
  traceID :: string
  shadow :: bool

definition zero_parsedInsert :: parsedInsert where
  "zero_parsedInsert = \<lparr>pid = 0, createdAt = 0, producerID = '''', jobType = '''', payload = [],
     runAt = 0, traceID = '''', shadow = False\<rparr>"

text \<open>\<open>courier.Job\<close>.\<close>

record Job =
  CorrelationID :: string
  ProducerID :: string
  JobType :: string
  Payload :: bytes
  RunAt :: gotime
  TraceID :: string
  Shadow :: bool

definition toJob :: "parsedInsert \<Rightarrow> Job" where
  "toJob p = \<lparr>CorrelationID = FormatInt (pid p), ProducerID = producerID p, JobType = jobType p,
     Payload = payload p, RunAt = runAt p, TraceID = traceID p, Shadow = shadow p\<rparr>"

definition decodeBytea :: "string \<Rightarrow> go_error + bytes" where
  "decodeBytea s =
     (if 2 \<le> length s \<and> s ! 0 = CHR 0x5C \<and> s ! 1 = CHR ''x'' then
        (case hex_DecodeString (drop 2 s) of
           Inl e \<Rightarrow> Inl (ExtError ''encoding/hex'')
         | Inr b \<Rightarrow> Inr b)
      else Inr s)"

definition pg_timestamp :: "chunk list \<Rightarrow> chunk list" where
  "pg_timestamp zone = ymd_layout @ [Lit '' ''] @ hms_layout @ zone"

definition timestamp_formats :: "chunk list list" where
  "timestamp_formats =
     [pg_timestamp [StdFracSecond9 6, Lit ''+00''],
      pg_timestamp [StdFracSecond9 6, StdNumShortTZ],
      pg_timestamp [StdFracSecond9 6, Lit ''Z''],
      RFC3339Nano,
      RFC3339,
      pg_timestamp [Lit ''+00''],
      pg_timestamp [StdNumShortTZ]]"

fun try_formats :: "chunk list list \<Rightarrow> string \<Rightarrow> gotime option" where
  "try_formats [] s = None"
| "try_formats (f # fs) s = (case time_Parse f s of Some t \<Rightarrow> Some t | None \<Rightarrow> try_formats fs s)"

definition parseTimestamp :: "string \<Rightarrow> go_error + gotime" where
  "parseTimestamp s =
     (case try_formats timestamp_formats s of
        Some t \<Rightarrow> Inr t
      | None \<Rightarrow> Inl (Errorf ''pglg: unrecognized timestamp format: %q'' [FStr s]))"

text \<open>The body of the column loop: one column that is not NULL.\<close>

definition parse_column :: "string \<Rightarrow> string \<Rightarrow> parsedInsert \<Rightarrow> go_error + parsedInsert" where
  "parse_column colName s row =
     (if colName = ''id'' then
        (case ParseInt s of
           Inl e \<Rightarrow> Inl (Wrapf ''pglg: parse id: %w'' [] (Errorf ''strconv.ParseInt: parsing %q'' [FStr s]))
         | Inr n \<Rightarrow> Inr (row\<lparr>pid := n\<rparr>))
      else if colName = ''created_at'' then
        (case parseTimestamp s of
           Inl e \<Rightarrow> Inl (Wrapf ''pglg: parse created_at: %w'' [] e)
         | Inr t \<Rightarrow> Inr (row\<lparr>createdAt := t\<rparr>))
      else if colName = ''producer_id'' then Inr (row\<lparr>producerID := s\<rparr>)
      else if colName = ''job_type'' then Inr (row\<lparr>jobType := s\<rparr>)
      else if colName = ''payload'' then
        (case decodeBytea s of
           Inl e \<Rightarrow> Inl (Wrapf ''pglg: decode payload: %w'' [] e)
         | Inr b \<Rightarrow> Inr (row\<lparr>payload := b\<rparr>))
      else if colName = ''run_at'' then
        (case parseTimestamp s of
           Inl e \<Rightarrow> Inl (Wrapf ''pglg: parse run_at: %w'' [] e)
         | Inr t \<Rightarrow> Inr (row\<lparr>runAt := t\<rparr>))
      else if colName = ''trace_id'' then Inr (row\<lparr>traceID := s\<rparr>)
      else if colName = ''shadow'' then Inr (row\<lparr>shadow := (s = ''t'')\<rparr>)
      else Inr row)"

fun parse_columns :: "string list \<Rightarrow> columnValue list \<Rightarrow> parsedInsert \<Rightarrow> go_error + parsedInsert" where
  "parse_columns (c # cs) (v # vs) row =
     (if isNull v then parse_columns cs vs row
      else case parse_column c (data v) row of
             Inl e \<Rightarrow> Inl e
           | Inr row' \<Rightarrow> parse_columns cs vs row')"
| "parse_columns _ _ row = Inr row"

definition parseInsertColumns :: "string list \<Rightarrow> columnValue list \<Rightarrow> go_error + parsedInsert" where
  "parseInsertColumns columns values =
     (if length columns \<noteq> length values
      then Inl (Errorf ''pglg: column count %d != value count %d''
                  [FInt (int (length columns)), FInt (int (length values))])
      else parse_columns columns values zero_parsedInsert)"

section \<open>Transaction buffer\<close>

record txBuffer =
  inserts :: "parsedInsert list"

definition reset :: "txBuffer \<Rightarrow> txBuffer" where
  "reset tb = tb\<lparr>inserts := []\<rparr>"

definition empty :: "txBuffer \<Rightarrow> bool" where
  "empty tb \<longleftrightarrow> inserts tb = []"

definition addInsert :: "parsedInsert \<Rightarrow> txBuffer \<Rightarrow> txBuffer" where
  "addInsert p tb = tb\<lparr>inserts := inserts tb @ [p]\<rparr>"

section \<open>Payloads and timestamps\<close>

definition pg_bytea_out :: "bytes \<Rightarrow> string" where
  "pg_bytea_out b = CHR 0x5C # CHR ''x'' # hex_EncodeToString b"

lemma decodeBytea_out: "decodeBytea (pg_bytea_out b) = Inr b"
  by (simp add: decodeBytea_def pg_bytea_out_def hex_decode_encode)

interpretation bytea: codec pg_bytea_out "\<lambda>s. case decodeBytea s of Inl _ \<Rightarrow> None | Inr b \<Rightarrow> Some b"
    "\<lambda>_. True"
  by unfold_locales (simp add: decodeBytea_out)

interpretation correlation: codec FormatInt "\<lambda>s. case ParseInt s of Inl _ \<Rightarrow> None | Inr i \<Rightarrow> Some i"
    int64_range
  by unfold_locales (simp add: ParseInt_FormatInt)

text \<open>The instants Postgres stores: whole microseconds, and a year of four digits.\<close>

definition pg_instant :: "gotime \<Rightarrow> bool" where
  "pg_instant t \<longleftrightarrow> four_digit_year t \<and> t mod Microsecond = 0"

definition pg_utc_out :: "gotime \<Rightarrow> string" where
  "pg_utc_out t = Format t (pg_timestamp [StdFracSecond9 6, Lit ''+00''])"

lemma pg_instant_frac: "pg_instant t \<Longrightarrow> nat (c_nsec (civil_of t)) mod 1000 = 0"
proof -
  assume "pg_instant t"
  then have "t mod 1000 = 0" by (simp add: pg_instant_def)
  then have "t mod Second mod 1000 = 0" by (simp add: mod_mod_cancel)
  then show ?thesis
    by (simp add: civil_clock(1) nat_mod_distrib [symmetric]) (metis nat_0 nat_mod_distrib nat_numeral pos_mod_sign zero_le_numeral zero_less_numeral)
qed

lemma hms_text_nonblank: "hd (appendInt (c_hour (civil_of t)) 2 @ r) \<noteq> CHR '' ''"
proof -
  have "list_all is_digit (appendInt (c_hour (civil_of t)) 2)"
    using civil_ok_civil_of [of t] by (intro appendInt_digits) (simp add: civil_ok_def)
  moreover have "appendInt (c_hour (civil_of t)) 2 \<noteq> []" by (simp add: appendInt_def Let_def)
  ultimately show ?thesis by (cases "appendInt (c_hour (civil_of t)) 2") (auto simp: is_digit_def)
qed

text \<open>The part of a timestamp before its zone: date, blank, time of day and fraction.\<close>

definition pg_local_layout :: "chunk list" where
  "pg_local_layout = ymd_layout @ [Lit '' ''] @ hms_layout @ [StdFracSecond9 6]"

lemma pg_local_layout_ok:
  assumes "pg_instant t" "r \<noteq> []" "\<not> is_digit (hd r)" "\<not> frac_start r"
  shows "layout_ok (civil_of t) pg_local_layout tail r"
  using assms pg_instant_frac [OF assms(1)] hms_text_nonblank [of t]
  by (simp add: pg_local_layout_def ymd_layout_def hms_layout_def next_is_frac_def)

lemma parse_local:
  assumes "pg_instant t" "r \<noteq> []" "\<not> is_digit (hd r)" "\<not> frac_start r"
  shows "parse_loop (pg_local_layout @ tail) (Format t pg_local_layout @ r) pstate0 =
    parse_loop tail r (civil.extend (civil_of t) \<lparr>p_offset = 0\<rparr>)"
proof -
  have "0 \<le> c_year (civil_of t)" "c_year (civil_of t) \<le> 9999"
    using assms(1) by (simp_all add: pg_instant_def four_digit_year_def)
  then show ?thesis
    using parse_loop_format [OF civil_ok_civil_of _ _ pg_local_layout_ok [OF assms, of tail], of pstate0]
    by (simp add: Format_def)
      (simp add: pg_local_layout_def ymd_layout_def hms_layout_def pstate0_def civil.defs)
qed

lemma parse_local_zone:
  assumes "pg_instant t" "r \<noteq> []" "\<not> is_digit (hd r)" "\<not> frac_start r"
    and "parse_chunk z [] r (civil.extend (civil_of t) \<lparr>p_offset = 0\<rparr>) =
      Some (civil.extend (civil_of t) \<lparr>p_offset = off\<rparr>, [])"
  shows "time_Parse (pg_local_layout @ [z]) (Format t pg_local_layout @ r) = Some (t - off * Second)"
proof -
  have "civil.truncate (civil.extend (civil_of t) \<lparr>p_offset = off\<rparr>) = civil_of t"
    by (simp add: civil.defs)
  moreover have "1 \<le> c_day (civil_of t)" "c_day (civil_of t) \<le> daysIn (c_month (civil_of t)) (c_year (civil_of t))"
    using civil_ok_civil_of [of t] by (simp_all add: civil_ok_def)
  ultimately show ?thesis
    unfolding time_Parse_def parse_local [OF assms(1-4)]
    using assms(5) Date_civil_of [of t] by (simp add: civil.defs Date_def)
qed

lemma parseTimestamp_utc:
  assumes "pg_instant t"
  shows "parseTimestamp (pg_utc_out t) = Inr t"
proof -
  have "time_Parse (pg_local_layout @ [Lit ''+00'']) (Format t pg_local_layout @ ''+00'') = Some (t - 0 * Second)"
    by (rule parse_local_zone [OF assms]) (simp_all add: is_digit_def frac_start_def)
  then have "time_Parse (pg_timestamp [StdFracSecond9 6, Lit ''+00'']) (pg_utc_out t) = Some t"
    by (simp add: pg_timestamp_def pg_local_layout_def pg_utc_out_def Format_def)
  then show ?thesis by (simp add: parseTimestamp_def timestamp_formats_def)
qed

text \<open>A zone suffix of the form \<open>+05:30\<close> is not read by any of the seven layouts.\<close>

definition pg_minute_zone :: "char \<Rightarrow> char \<Rightarrow> char \<Rightarrow> char \<Rightarrow> char \<Rightarrow> string" where
  "pg_minute_zone s h1 h2 m1 m2 = [s, h1, h2, CHR '':'', m1, m2]"

definition is_sign :: "char \<Rightarrow> bool" where
  "is_sign s \<longleftrightarrow> s = CHR ''+'' \<or> s = CHR ''-''"

lemma sign_not_digit: "is_sign s \<Longrightarrow> \<not> is_digit s" "is_sign s \<Longrightarrow> s \<noteq> CHR ''Z''"
  by (auto simp: is_sign_def is_digit_def)

lemma sign_not_frac: "is_sign s \<Longrightarrow> \<not> frac_start (s # r)"
  by (auto simp: is_sign_def frac_start_def split: list.splits)

lemma zone_layouts_reject:
  assumes "is_sign s" "r = pg_minute_zone s h1 h2 m1 m2"
  shows "parse_loop [Lit ''+00''] r st = None" "parse_loop [StdNumShortTZ] r st = None"
    "parse_loop [Lit ''Z''] r st = None"
  using assms by (auto simp: pg_minute_zone_def is_sign_def split: option.splits if_splits)

lemma parse_second_with_frac:
  assumes "pg_instant t" "\<not> next_is_frac rest" "r \<noteq> []" "\<not> is_digit (hd r)" "\<not> frac_start r"
  shows "\<exists>st'. parse_chunk StdZeroSecond rest
      (appendInt (c_sec (civil_of t)) 2 @ format_frac 6 (c_nsec (civil_of t)) @ r) st = Some (st', r)"
proof -
  let ?c = "civil_of t"
  have ok: "0 \<le> c_sec ?c" "c_sec ?c < 60" "0 \<le> c_nsec ?c" "c_nsec ?c < Second"
    using civil_ok_civil_of [of t] by (simp_all add: civil_ok_def)
  note pf = parse_frac_format [OF ok(3,4), of 6 r] pg_instant_frac [OF assms(1)]
  show ?thesis
  proof (cases "format_frac 6 (c_nsec ?c) = []")
    case True
    with assms ok show ?thesis by (simp add: getnum_appendInt)
  next
    case False
    with pf assms have "frac_start (format_frac 6 (c_nsec ?c) @ r)"
      "parse_frac (format_frac 6 (c_nsec ?c) @ r) = (c_nsec ?c, r)" by simp_all
    with assms ok show ?thesis by (simp add: getnum_appendInt)
  qed
qed

definition pg_hm_layout :: "chunk list" where
  "pg_hm_layout = ymd_layout @ [Lit '' '', StdHour, Lit '':'', StdZeroMinute, Lit '':'']"

lemma Format_local_split:
  "Format t pg_local_layout @ r = concat (map (format_chunk (civil_of t)) pg_hm_layout) @
     appendInt (c_sec (civil_of t)) 2 @ format_frac 6 (c_nsec (civil_of t)) @ r"
  "Format t pg_local_layout @ r = concat (map (format_chunk (civil_of t)) ymd_layout) @
     CHR '' '' # concat (map (format_chunk (civil_of t)) (hms_layout @ [StdFracSecond9 6])) @ r"
  by (simp_all add: Format_def pg_local_layout_def pg_hm_layout_def ymd_layout_def hms_layout_def)

lemma parseTimestamp_minute_zone:
  assumes t: "pg_instant t" and s: "is_sign s"
  shows "parseTimestamp (Format t pg_local_layout @ pg_minute_zone s h1 h2 m1 m2) =
    Inl (Errorf ''pglg: unrecognized timestamp format: %q''
      [FStr (Format t pg_local_layout @ pg_minute_zone s h1 h2 m1 m2)])"
proof -
  define r v where "r = pg_minute_zone s h1 h2 m1 m2" and "v = Format t pg_local_layout @ r"
  let ?c = "civil_of t"
  have y: "0 \<le> c_year ?c" "c_year ?c \<le> 9999"
    using t by (simp_all add: pg_instant_def four_digit_year_def)
  have r: "r \<noteq> []" "\<not> is_digit (hd r)" "\<not> frac_start r"
    using sign_not_digit [OF s] sign_not_frac [OF s] by (simp_all add: r_def pg_minute_zone_def)
  note rej = zone_layouts_reject [OF s r_def]
  note local = parse_local [OF t r]
  note fmt = parse_loop_format [OF civil_ok_civil_of y]
  have 123: "time_Parse (pg_timestamp [StdFracSecond9 6, z]) v = None"
    if "\<And>st. parse_loop [z] r st = None" for z
    using local [of "[z]"] that
    by (simp add: v_def time_Parse_def pg_timestamp_def pg_local_layout_def)
  have 45: "time_Parse (ymd_layout @ Lit ''T'' # chs) v = None" for chs
  proof -
    let ?w = "concat (map (format_chunk ?c) (hms_layout @ [StdFracSecond9 6])) @ r"
    have "layout_ok ?c ymd_layout (Lit ''T'' # chs) (CHR '' '' # ?w)"
      by (simp add: ymd_layout_def)
    from fmt [OF this] have "parse_loop (ymd_layout @ Lit ''T'' # chs) v pstate0 =
        parse_loop (Lit ''T'' # chs) (CHR '' '' # ?w) (fold (set_chunk ?c) ymd_layout pstate0)"
      unfolding v_def Format_local_split(2) by blast
    then show ?thesis by (simp add: time_Parse_def)
  qed
  have 67: "time_Parse (pg_timestamp [z]) v = None"
    if z: "\<And>st. parse_loop [z] r st = None" and nf: "\<not> next_is_frac [z]" for z
  proof -
    let ?w = "appendInt (c_sec ?c) 2 @ format_frac 6 (c_nsec ?c) @ r"
    have "layout_ok ?c pg_hm_layout [StdZeroSecond, z] ?w"
      using hms_text_nonblank [of t] by (simp add: pg_hm_layout_def ymd_layout_def)
    from fmt [OF this] have "parse_loop (pg_hm_layout @ [StdZeroSecond, z]) v pstate0 =
        parse_loop [StdZeroSecond, z] ?w (fold (set_chunk ?c) pg_hm_layout pstate0)"
      unfolding v_def Format_local_split(1) by blast
    also have "\<dots> = None"
      using parse_second_with_frac [OF t nf r] z by (metis (no_types, lifting) option.case(2) parse_loop.simps(2) prod.case)
    finally show ?thesis
      by (simp add: time_Parse_def pg_timestamp_def pg_hm_layout_def hms_layout_def)
  qed
  have "try_formats timestamp_formats v = None"
    using 123 [OF rej(1)] 123 [OF rej(2)] 123 [OF rej(3)] 45 67 [OF rej(1)] 67 [OF rej(2)]
    by (simp add: timestamp_formats_def RFC3339_def RFC3339Nano_def next_is_frac_def)
  then show ?thesis by (simp add: parseTimestamp_def v_def r_def)
qed


section \<open>A row of the outbox table\<close>

text \<open>The columns of the outbox table, and the texts pgoutput sends for a row in a UTC session: a
  \<open>run_at\<close> of zero stands for NULL.\<close>

definition outbox_columns :: "string list" where
  "outbox_columns = [''id'', ''created_at'', ''producer_id'', ''job_type'', ''payload'', ''run_at'',
     ''trace_id'', ''shadow'']"

definition text_value :: "string \<Rightarrow> columnValue" where
  "text_value s = \<lparr>isNull = False, data = s\<rparr>"

definition null_value :: columnValue where
  "null_value = \<lparr>isNull = True, data = []\<rparr>"

definition pg_row_out :: "parsedInsert \<Rightarrow> columnValue list" where
  "pg_row_out p =
     [text_value (FormatInt (pid p)), text_value (pg_utc_out (createdAt p)), text_value (producerID p),
      text_value (jobType p), text_value (pg_bytea_out (payload p)),
      (if IsZero (runAt p) then null_value else text_value (pg_utc_out (runAt p))),
      text_value (traceID p), text_value (if shadow p then ''t'' else ''f'')]"

definition storable :: "parsedInsert \<Rightarrow> bool" where
  "storable p \<longleftrightarrow> int64_range (pid p) \<and> pg_instant (createdAt p) \<and>
     (IsZero (runAt p) \<or> pg_instant (runAt p))"

lemma text_value_fields [simp]: "isNull (text_value s) = False" "data (text_value s) = s" "isNull null_value = True"
  by (simp_all add: text_value_def null_value_def)

lemma parseInsertColumns_row:
  assumes "storable p"
  shows "parseInsertColumns outbox_columns (pg_row_out p) = Inr p"
proof -
  have "ParseInt (FormatInt (pid p)) = Inr (pid p)" "parseTimestamp (pg_utc_out (createdAt p)) = Inr (createdAt p)"
    "runAt p \<noteq> 0 \<Longrightarrow> parseTimestamp (pg_utc_out (runAt p)) = Inr (runAt p)"
    using assms by (auto simp: storable_def ParseInt_FormatInt parseTimestamp_utc)
  then show ?thesis
    by (cases p) (simp add: parseInsertColumns_def outbox_columns_def pg_row_out_def parse_column_def
        decodeBytea_out zero_parsedInsert_def)
qed

text \<open>A row whose creation time is printed with a zone of hours and minutes is refused.\<close>

lemma parseInsertColumns_minute_zone:
  assumes "int64_range (pid p)" "pg_instant t" "is_sign s"
  shows "\<exists>e. parseInsertColumns outbox_columns
    ((pg_row_out p)[1 := text_value (Format t pg_local_layout @ pg_minute_zone s h1 h2 m1 m2)]) = Inl e"
  using assms
  by (simp add: parseInsertColumns_def outbox_columns_def pg_row_out_def parse_column_def ParseInt_FormatInt
      parseTimestamp_minute_zone)

end
