(* ===== verification/Pglg_Wal.thy ===== *)
theory Pglg_Wal
  imports Pglg_Wal_Parser
begin

text \<open>
  \<open>wal.go\<close>: the logical replication connection. A \<open>walConsumer\<close> keeps the relations the server
  has announced, the position received so far and the position that is durably processed.

  The packages \<open>pgconn\<close> and \<open>pglogrepl\<close> are libraries: what they return is an argument. The
  parsers of the two replication messages, \<open>pglogrepl.ParseV2\<close> and \<open>pgconn.Timeout\<close> are the
  fields of \<open>wal_api\<close>; the outcome of a network call is an argument of the operation that makes
  it. A status update handed to \<open>pglogrepl.SendStandbyStatusUpdate\<close> is recorded, sent or not.
  The connection the updates go through is the one \<open>connect\<close> stored, so the type assertion of
  \<open>sendStandbyStatus\<close> succeeds (\<open>connected_receiveMessage\<close>).

  The lemmas show that the two positions only move forward, that a status update never claims
  more than the durable position, and that the metadata of a relation is what the server sent
  last.
\<close>

section \<open>The consumer\<close>

text \<open>The dynamic type of the connection: the production one or a stand-in of the tests.\<close>

datatype walConn = PgConn | OtherConn

record relationMeta =
  rel_name :: string
  rel_columns :: "string list"

record walConsumer =
  conn :: "walConn option"
  slotName :: string
  publicationName :: string
  relations :: "oid \<rightharpoonup> relationMeta"
  clientXLogPos :: lsn
  flushLSN :: lsn

datatype backend_msg =
    CopyData bytes
  | OtherBackend

record wal_api =
  pgconn_Timeout :: "go_error \<Rightarrow> bool"
  ParsePrimaryKeepaliveMessage :: "bytes \<Rightarrow> go_error + lsn \<times> bool"  \<comment> \<open>\<open>ServerWALEnd\<close>, \<open>ReplyRequested\<close>\<close>
  ParseXLogData :: "bytes \<Rightarrow> go_error + lsn \<times> bytes"                \<comment> \<open>\<open>WALStart\<close>, \<open>WALData\<close>\<close>
  pglogrepl_ParseV2 :: "bytes \<Rightarrow> go_error + pglogrepl_msg"

definition ObjectInUse :: string where
  "ObjectInUse = ''55006''"

definition PrimaryKeepaliveMessageByteID :: char where
  "PrimaryKeepaliveMessageByteID = CHR ''k''"

definition XLogDataByteID :: char where
  "XLogDataByteID = CHR ''w''"

definition mapStartReplicationError :: "go_error \<Rightarrow> go_error" where
  "mapStartReplicationError err =
     (case errors_As_PgError err of
        Some code \<Rightarrow> if code = ObjectInUse then ErrSlotBusy
                     else Wrapf ''pglg: start replication: %w'' [] err
      | None \<Rightarrow> Wrapf ''pglg: start replication: %w'' [] err)"

definition newWALConsumer :: "string \<Rightarrow> string \<Rightarrow> walConsumer" where
  "newWALConsumer slot publication = \<lparr>conn = None, slotName = slot, publicationName = publication,
     relations = Map.empty, clientXLogPos = 0, flushLSN = 0\<rparr>"

text \<open>The connection string \<open>connect\<close> hands to \<open>pgconn.Connect\<close>.\<close>

definition replication_string :: "string \<Rightarrow> string" where
  "replication_string connString =
     (if connString \<noteq> [] \<and> last connString \<noteq> CHR '' '' then connString @ '' '' else connString)
       @ ''replication=database''"

definition connect :: "(string \<Rightarrow> go_error option) \<Rightarrow> string \<Rightarrow> walConsumer
    \<Rightarrow> go_error option \<times> walConsumer" where
  "connect pgconn_Connect connString w =
     (case pgconn_Connect (replication_string connString) of
        Some err \<Rightarrow> (Some (Wrapf ''pglg: replication connect: %w'' [] err), w)
      | None \<Rightarrow> (None, w\<lparr>conn := Some PgConn\<rparr>))"

definition plugin_args :: "walConsumer \<Rightarrow> string list" where
  "plugin_args w = [''proto_version '' @ [CHR 0x27, CHR ''2'', CHR 0x27],
     ''publication_names '' @ [CHR 0x27] @ publicationName w @ [CHR 0x27]]"

text \<open>The arguments after the connection: the answer of \<open>IdentifySystem\<close>, and that of
  \<open>StartReplication\<close> for a slot, a start position and plugin arguments.\<close>

definition startStreaming :: "go_error option \<Rightarrow> (string \<Rightarrow> lsn \<Rightarrow> string list \<Rightarrow> go_error option)
    \<Rightarrow> lsn \<Rightarrow> walConsumer \<Rightarrow> go_error option \<times> walConsumer" where
  "startStreaming identify StartReplication startLSN w =
     (if conn w \<noteq> Some PgConn then (Some (Errorf ''pglg: invalid connection type'' []), w)
      else case identify of
        Some err \<Rightarrow> (Some (Wrapf ''pglg: identify system: %w'' [] err), w)
      | None \<Rightarrow>
        (case StartReplication (slotName w) startLSN (plugin_args w) of
           Some err \<Rightarrow> (Some (mapStartReplicationError err), w)
         | None \<Rightarrow> (None, w\<lparr>clientXLogPos := startLSN, flushLSN := startLSN\<rparr>)))"

section \<open>Status updates\<close>

record StandbyStatusUpdate =
  WALWritePosition :: lsn
  WALFlushPosition :: lsn
  WALApplyPosition :: lsn
  ClientTime :: gotime

definition standbyStatusUpdate :: "walConsumer \<Rightarrow> gotime \<Rightarrow> StandbyStatusUpdate" where
  "standbyStatusUpdate w now =
     (let writeLSN = (if flushLSN w = 0 then 0
                      else if clientXLogPos w < flushLSN w then flushLSN w
                      else clientXLogPos w)
      in \<lparr>WALWritePosition = writeLSN, WALFlushPosition = flushLSN w,
          WALApplyPosition = flushLSN w, ClientTime = now\<rparr>)"

text \<open>The update handed to the library at time \<open>now\<close>, and the library's answer.\<close>

definition sendStandbyStatus :: "gotime \<Rightarrow> go_error option \<Rightarrow> walConsumer
    \<Rightarrow> go_error option \<times> StandbyStatusUpdate" where
  "sendStandbyStatus now answer w = (answer, standbyStatusUpdate w now)"

definition setFlushLSN :: "lsn \<Rightarrow> walConsumer \<Rightarrow> walConsumer" where
  "setFlushLSN l w = (if l > flushLSN w then w\<lparr>flushLSN := l\<rparr> else w)"

definition writePos :: "walConsumer \<Rightarrow> lsn" where
  "writePos w = clientXLogPos w"

definition receivedPastFlush :: "walConsumer \<Rightarrow> bool" where
  "receivedPastFlush w \<longleftrightarrow> clientXLogPos w > flushLSN w"

text \<open>The replication connections the process opened and closed are logged. \<open>pgconn\<close> closes the
  socket whatever error it reports.\<close>

datatype conn_event = Opened string | Closed

definition close :: "(walConn \<Rightarrow> go_error option) \<Rightarrow> walConsumer \<Rightarrow> go_error option \<times> conn_event list" where
  "close conn_Close w = (case conn w of Some c \<Rightarrow> (conn_Close c, [Closed]) | None \<Rightarrow> (None, []))"

section \<open>Receiving\<close>

text \<open>\<open>if p > w.clientXLogPos { w.clientXLogPos = p }\<close>\<close>

definition received :: "lsn \<Rightarrow> walConsumer \<Rightarrow> walConsumer" where
  "received p w = (if p > clientXLogPos w then w\<lparr>clientXLogPos := p\<rparr> else w)"

text \<open>
  \<open>receive\<close> answers \<open>conn.ReceiveMessage\<close> under a deadline. The result is the error or the WAL
  payload (None for \<open>nil\<close>), the consumer, and the status updates sent.
\<close>

definition receiveMessage :: "wal_api \<Rightarrow> (gotime \<Rightarrow> go_error + backend_msg) \<Rightarrow> gotime
    \<Rightarrow> go_error option \<Rightarrow> gotime \<Rightarrow> walConsumer
    \<Rightarrow> (go_error + bytes option) \<times> walConsumer \<times> StandbyStatusUpdate list" where
  "receiveMessage api receive now answer deadline w =
     (case receive deadline of
        Inl err \<Rightarrow>
          (if pgconn_Timeout api err then (Inl ErrStandbyTimeout, w, [])
           else (Inl (Wrapf ''pglg: receive message: %w'' [] err), w, []))
      | Inr OtherBackend \<Rightarrow> (Inr None, w, [])
      | Inr (CopyData []) \<Rightarrow> (Inr None, w, [])
      | Inr (CopyData (b # body)) \<Rightarrow>
          (if b = PrimaryKeepaliveMessageByteID then
             (case ParsePrimaryKeepaliveMessage api body of
                Inl err \<Rightarrow> (Inl (Wrapf ''pglg: parse keepalive: %w'' [] err), w, [])
              | Inr (serverWALEnd, replyRequested) \<Rightarrow>
                  (let w' = received serverWALEnd w
                   in if replyRequested then
                        (case sendStandbyStatus now answer w' of
                           (Some sendErr, u) \<Rightarrow> (Inl sendErr, w', [u])
                         | (None, u) \<Rightarrow> (Inr None, w', [u]))
                      else (Inr None, w', [])))
           else if b = XLogDataByteID then
             (case ParseXLogData api body of
                Inl err \<Rightarrow> (Inl (Wrapf ''pglg: parse xlog data: %w'' [] err), w, [])
              | Inr (walStart, walData) \<Rightarrow>
                  (Inr (Some walData), received (walStart + of_nat (length walData)) w, []))
           else (Inr None, w, [])))"

section \<open>Relations\<close>

definition setRelation :: "oid \<Rightarrow> string \<Rightarrow> string list \<Rightarrow> walConsumer \<Rightarrow> walConsumer" where
  "setRelation rid name columns w =
     w\<lparr>relations := (relations w)(rid \<mapsto> \<lparr>rel_name = name, rel_columns = columns\<rparr>)\<rparr>"

definition parseInsert :: "oid \<Rightarrow> columnValue list \<Rightarrow> walConsumer
    \<Rightarrow> go_error + parsedInsert option" where
  "parseInsert rid values w =
     (case relations w rid of
        None \<Rightarrow> Inr None
      | Some rel \<Rightarrow>
        (case parseInsertColumns (rel_columns rel) values of
           Inl e \<Rightarrow> Inl e
         | Inr row \<Rightarrow> Inr (Some row)))"

section \<open>Positions\<close>

lemma flushLSN_setFlushLSN [simp]: "flushLSN (setFlushLSN l w) = max (flushLSN w) l"
  by (auto simp: setFlushLSN_def max_def)

lemma setFlushLSN_frame [simp]:
  "clientXLogPos (setFlushLSN l w) = clientXLogPos w" "relations (setFlushLSN l w) = relations w"
  "conn (setFlushLSN l w) = conn w" "slotName (setFlushLSN l w) = slotName w"
  "publicationName (setFlushLSN l w) = publicationName w"
  by (simp_all add: setFlushLSN_def)

lemma clientXLogPos_received [simp]: "clientXLogPos (received p w) = max (clientXLogPos w) p"
  by (auto simp: received_def max_def)

lemma received_frame [simp]:
  "flushLSN (received p w) = flushLSN w" "relations (received p w) = relations w"
  "conn (received p w) = conn w" "slotName (received p w) = slotName w"
  "publicationName (received p w) = publicationName w"
  by (simp_all add: received_def)

lemma setRelation_frame [simp]:
  "clientXLogPos (setRelation i n cs w) = clientXLogPos w" "flushLSN (setRelation i n cs w) = flushLSN w"
  "conn (setRelation i n cs w) = conn w" "slotName (setRelation i n cs w) = slotName w"
  by (simp_all add: setRelation_def)

interpretation flushed: monotone_register flushLSN setFlushLSN
  by unfold_locales simp

interpretation receivedPos: monotone_register clientXLogPos received
  by unfold_locales simp

text \<open>What one \<open>receiveMessage\<close> can change: the received position, and only forward.\<close>

lemma receiveMessage_cases:
  assumes "receiveMessage api receive now answer deadline w = (res, w', us)"
  obtains (same) "w' = w" "us = []"
  | (moved) p where "w' = received p w" "us = [] \<or> us = [standbyStatusUpdate w' now]"
  using assms
  by (auto simp: receiveMessage_def sendStandbyStatus_def Let_def
      split: sum.splits backend_msg.splits list.splits if_splits option.splits prod.splits)

lemma receiveMessage_frame [frame]:
  assumes "receiveMessage api receive now answer deadline w = (res, w', us)"
  shows "flushLSN w' = flushLSN w" "relations w' = relations w" "conn w' = conn w"
    "slotName w' = slotName w" "clientXLogPos w \<le> clientXLogPos w'"
  using assms by (cases rule: receiveMessage_cases; simp)+

lemma receiveMessage_sent:
  assumes "receiveMessage api receive now answer deadline w = (res, w', us)"
  shows "us = [] \<or> us = [standbyStatusUpdate w' now]"
  using assms by (cases rule: receiveMessage_cases) auto

lemma connected_receiveMessage:
  assumes "connect pgconn_Connect connString w0 = (None, w)"
    and "receiveMessage api receive now answer deadline w = (res, w', us)"
  shows "conn w' = Some PgConn"
  using assms(1) receiveMessage_frame(3) [OF assms(2)]
  by (auto simp: connect_def split: option.splits)

text \<open>Only an \<open>XLogData\<close> message returns a payload, and then the received position covers its end.\<close>

lemma receiveMessage_payload:
  assumes "receiveMessage api receive now answer deadline w = (Inr (Some d), w', us)"
  obtains body walStart where "receive deadline = Inr (CopyData (XLogDataByteID # body))"
    "ParseXLogData api body = Inr (walStart, d)"
    "w' = received (walStart + of_nat (length d)) w" "us = []"
  using assms
  by (auto simp: receiveMessage_def sendStandbyStatus_def Let_def
      split: sum.splits backend_msg.splits list.splits if_splits option.splits prod.splits)

lemma status_fields [simp]:
  "WALFlushPosition (standbyStatusUpdate w now) = flushLSN w"
  "WALApplyPosition (standbyStatusUpdate w now) = flushLSN w"
  "ClientTime (standbyStatusUpdate w now) = now"
  "WALWritePosition (standbyStatusUpdate w now) =
     (if flushLSN w = 0 then 0 else max (clientXLogPos w) (flushLSN w))"
  by (auto simp: standbyStatusUpdate_def Let_def max_def)

text \<open>
  \<open>pglogrepl\<close> replaces a zero flush or apply position by the write position before it puts
  the update on the wire. The wire function is the library's; the predicate is what the code
  relies on.
\<close>

definition zero_means_write :: "(StandbyStatusUpdate \<Rightarrow> lsn \<times> lsn \<times> lsn) \<Rightarrow> bool" where
  "zero_means_write wire \<longleftrightarrow> (\<forall>u. wire u =
     (WALWritePosition u,
      if WALFlushPosition u = 0 then WALWritePosition u else WALFlushPosition u,
      if WALApplyPosition u = 0 then WALWritePosition u else WALApplyPosition u))"

lemma status_on_wire:
  assumes "zero_means_write wire" "wire (standbyStatusUpdate w now) = (wr, fl, ap)"
  shows "fl = flushLSN w \<and> ap = flushLSN w \<and> fl \<le> wr"
  using assms by (auto simp: zero_means_write_def split: if_splits)

section \<open>Relation metadata\<close>

text \<open>The relation messages of a session, folded as the receive loop applies them.\<close>

definition announce :: "(oid \<times> string \<times> string list) list \<Rightarrow> walConsumer \<Rightarrow> walConsumer" where
  "announce ms w = fold (\<lambda>(rid, name, columns). setRelation rid name columns) ms w"

lemma relations_announce:
  "relations (announce ms w) rid =
     (case map_of (rev ms) rid of
        Some (name, columns) \<Rightarrow> Some \<lparr>rel_name = name, rel_columns = columns\<rparr>
      | None \<Rightarrow> relations w rid)"
  unfolding announce_def
  by (induction ms arbitrary: w) (auto simp: setRelation_def map_of_append map_add_def split: option.splits)

end
