(* ===== verification/Pglg_Cursor.thy ===== *)
theory Pglg_Cursor
  imports Pglg_Wal
begin

text \<open>
  \<open>cursor.go\<close>: the durable position of a slot, one row of the cursor table. The database is a
  function from table names to the rows of the table. An LSN crosses the connection as text:
  printing and reading it on the client (\<open>pglogrepl\<close>) and on the server (type \<open>pg_lsn\<close>) are the
  fields of \<open>lsn_api\<close>; \<open>lsn_api_ok\<close> says that each side reads what the other prints.

  The lemmas show that a write is an upsert that keeps the larger position (the cursor never
  moves back), that it touches no other slot or table, and that reading gives back what the
  row holds.
\<close>

record lsn_api =
  LSN_String :: "lsn \<Rightarrow> string"
  ParseLSN :: "string \<Rightarrow> go_error + lsn"
  pg_lsn_in :: "string \<Rightarrow> lsn option"
  pg_lsn_out :: "lsn \<Rightarrow> string"

definition lsn_api_ok :: "lsn_api \<Rightarrow> bool" where
  "lsn_api_ok la \<longleftrightarrow> (\<forall>l. pg_lsn_in la (LSN_String la l) = Some l) \<and>
     (\<forall>l. ParseLSN la (pg_lsn_out la l) = Inr l)"

type_synonym cursor_rows = "string \<Rightarrow> string \<rightharpoonup> lsn"

text \<open>\<open>query\<close> is the failure of the query itself, if any.\<close>

definition readCursor :: "lsn_api \<Rightarrow> go_error option \<Rightarrow> driver \<Rightarrow> cursor_rows \<Rightarrow> go_error + lsn" where
  "readCursor la query d db =
     (let scanned = (case query of
            Some err \<Rightarrow> Inl err
          | None \<Rightarrow> (case db (cursorTable (cfg d)) (SlotName (cfg d)) of
                       None \<Rightarrow> Inl ErrNoRows
                     | Some l \<Rightarrow> Inr (pg_lsn_out la l)))
      in case scanned of
           Inl err \<Rightarrow> if errors_Is err ErrNoRows then Inr 0
                      else Inl (Wrapf ''pglg: read cursor: %w'' [] err)
         | Inr lsnStr \<Rightarrow>
           (case ParseLSN la lsnStr of
              Inl err \<Rightarrow> Inl (Wrapf ''pglg: parse cursor LSN %q: %w'' [FStr lsnStr] err)
            | Inr parsed \<Rightarrow> Inr parsed))"

text \<open>The statement of \<open>writeCursorTx\<close>: insert the row, or update it when the new position is
  greater.\<close>

definition upsert_cursor :: "string \<Rightarrow> string \<Rightarrow> lsn \<Rightarrow> cursor_rows \<Rightarrow> cursor_rows" where
  "upsert_cursor table slot l db =
     (case db table slot of
        None \<Rightarrow> db(table := (db table)(slot \<mapsto> l))
      | Some old \<Rightarrow> if l > old then db(table := (db table)(slot \<mapsto> l)) else db)"

definition writeCursorTx :: "lsn_api \<Rightarrow> go_error option \<Rightarrow> driver \<Rightarrow> lsn \<Rightarrow> cursor_rows
    \<Rightarrow> go_error option \<times> cursor_rows" where
  "writeCursorTx la exec d l db =
     (case exec of
        Some err \<Rightarrow> (Some (Wrapf ''pglg: write cursor: %w'' [] err), db)
      | None \<Rightarrow>
        (case pg_lsn_in la (LSN_String la l) of
           None \<Rightarrow> (Some (Wrapf ''pglg: write cursor: %w'' []
                       (PgError ''22P02'' ''invalid input syntax for type pg_lsn'')), db)
         | Some l' \<Rightarrow> (None, upsert_cursor (cursorTable (cfg d)) (SlotName (cfg d)) l' db)))"

section \<open>The cursor as a monotone register\<close>

definition cursor_at :: "string \<Rightarrow> string \<Rightarrow> cursor_rows \<Rightarrow> lsn" where
  "cursor_at table slot db = (case db table slot of None \<Rightarrow> 0 | Some l \<Rightarrow> l)"

lemma cursor_at_upsert [simp]:
  "cursor_at table slot (upsert_cursor table slot l db) = max (cursor_at table slot db) l"
  by (auto simp: cursor_at_def upsert_cursor_def max_def split: option.splits)

lemma upsert_cursor_other [simp]:
  "table' \<noteq> table \<or> slot' \<noteq> slot \<Longrightarrow> upsert_cursor table slot l db table' slot' = db table' slot'"
  by (auto simp: upsert_cursor_def split: option.splits)

interpretation cursor: monotone_register "cursor_at table slot" "upsert_cursor table slot"
  for table slot
  by unfold_locales simp

abbreviation driver_cursor :: "driver \<Rightarrow> cursor_rows \<Rightarrow> lsn" where
  "driver_cursor d db \<equiv> cursor_at (cursorTable (cfg d)) (SlotName (cfg d)) db"

abbreviation driver_upsert :: "driver \<Rightarrow> lsn \<Rightarrow> cursor_rows \<Rightarrow> cursor_rows" where
  "driver_upsert d l db \<equiv> upsert_cursor (cursorTable (cfg d)) (SlotName (cfg d)) l db"

lemma readCursor_value:
  assumes "lsn_api_ok la"
  shows "readCursor la None d db = Inr (driver_cursor d db)"
  using assms by (auto simp: readCursor_def lsn_api_ok_def cursor_at_def split: option.splits)

lemma readCursor_Inr:
  assumes "lsn_api_ok la" "readCursor la query d db = Inr l"
  shows "l = driver_cursor d db \<or> (l = 0 \<and> query \<noteq> None)"
  using assms
  by (auto simp: readCursor_def lsn_api_ok_def cursor_at_def split: option.splits if_splits)

lemma writeCursorTx_ok:
  assumes "lsn_api_ok la"
  shows "writeCursorTx la None d l db = (None, driver_upsert d l db)"
  using assms by (simp add: writeCursorTx_def lsn_api_ok_def)

lemma writeCursorTx_Some:
  "writeCursorTx la exec d l db = (Some e, db') \<Longrightarrow> db' = db"
  by (auto simp: writeCursorTx_def split: option.splits)

lemma writeCursorTx_None:
  assumes "lsn_api_ok la" "writeCursorTx la exec d l db = (None, db')"
  shows "db' = driver_upsert d l db"
  using assms by (auto simp: writeCursorTx_def lsn_api_ok_def split: option.splits)

text \<open>A concrete pair of printers and readers with these laws: decimal text.\<close>

definition decimal_lsn_api :: lsn_api where
  "decimal_lsn_api = \<lparr>LSN_String = (\<lambda>l. digits_nat (unat l)),
     ParseLSN = (\<lambda>s. case ParseUint s of Inl e \<Rightarrow> Inl (ExtError ''pglogrepl'') | Inr n \<Rightarrow> Inr (of_nat n)),
     pg_lsn_in = (\<lambda>s. case ParseUint s of Inl e \<Rightarrow> None | Inr n \<Rightarrow> Some (of_nat n)),
     pg_lsn_out = (\<lambda>l. digits_nat (unat l))\<rparr>"

lemma ParseUint_lsn: "ParseUint (digits_nat (unat (l :: lsn))) = Inr (unat l)"
  using unsigned_less [where ?'a = nat, of l] by (intro ParseUint_digits_nat) simp

lemma decimal_lsn_api_ok: "lsn_api_ok decimal_lsn_api"
  by (simp add: lsn_api_ok_def decimal_lsn_api_def ParseUint_lsn)

end
