(* ===== verification/Pglg_Dlq.thy ===== *)
theory Pglg_Dlq
  imports Pglg_Cursor
begin

text \<open>
  \<open>dlq.go\<close>: results of a submitted batch are matched with the rows of the batch by correlation
  id; a rejected row becomes a row of the dead letter table, which a cleanup empties of rows
  older than the retention.

  \<open>courier.SubmitResult\<close> is a record of the courier library. The dead letter table is a list of
  stored rows. \<open>insertDLQRows\<close> is modelled with its placeholder numbers and its argument list;
  the server takes the tuple of arguments the placeholders name.

  The lemmas show when a response is accepted and which rows it dead-letters, that no row of an
  accepted batch is unaccounted for, what the insert stores, and what the cleanup keeps.
\<close>

section \<open>Matching results\<close>

definition dlqReasonUnspecified :: string where
  "dlqReasonUnspecified = ''unspecified''"

definition dlqErrorMessageMax :: int where
  "dlqErrorMessageMax = 4096"

record dlqRow =
  dl_id :: int
  dl_createdAt :: gotime
  dl_producerID :: string
  dl_jobType :: string
  dl_payload :: bytes
  dl_runAt :: gotime
  dl_traceID :: string
  dl_shadow :: bool
  reason :: string
  errorMessage :: string

record SubmitResult =
  r_CorrelationID :: string
  r_Err :: string
  r_Reason :: string
  r_JobID :: string

definition truncate_str :: "string \<Rightarrow> int \<Rightarrow> string" where
  "truncate_str s n =
     (if n \<le> 0 then ''''
      else ToValidUTF8 (if int (length s) > n then take (nat n) s else s))"

text \<open>The loop that builds \<open>insertByID\<close>.\<close>

fun index_inserts :: "(string \<rightharpoonup> parsedInsert) \<Rightarrow> parsedInsert list
    \<Rightarrow> go_error + (string \<rightharpoonup> parsedInsert)" where
  "index_inserts insertByID [] = Inr insertByID"
| "index_inserts insertByID (p # ps) =
     (let cid = FormatInt (pid p)
      in if insertByID cid \<noteq> None
         then Inl (Errorf ''pglg: duplicate CorrelationID %q among submitted inserts'' [FStr cid])
         else index_inserts (insertByID(cid \<mapsto> p)) ps)"

definition dlq_row_of :: "parsedInsert \<Rightarrow> SubmitResult \<Rightarrow> dlqRow" where
  "dlq_row_of p r = \<lparr>dl_id = pid p, dl_createdAt = createdAt p, dl_producerID = producerID p,
     dl_jobType = jobType p, dl_payload = payload p, dl_runAt = runAt p, dl_traceID = traceID p,
     dl_shadow = shadow p,
     reason = (if r_Reason r = '''' then dlqReasonUnspecified else r_Reason r),
     errorMessage = truncate_str (r_Err r) dlqErrorMessageMax\<rparr>"

text \<open>The loop over the results, with the ids seen and the rows collected.\<close>

fun match_results :: "(string \<rightharpoonup> parsedInsert) \<Rightarrow> string set \<Rightarrow> dlqRow list \<Rightarrow> SubmitResult list
    \<Rightarrow> go_error + dlqRow list" where
  "match_results insertByID seen rows [] = Inr rows"
| "match_results insertByID seen rows (r # rs) =
     (if r_CorrelationID r \<in> seen
      then Inl (Errorf ''pglg: duplicate CorrelationID %q in submit results'' [FStr (r_CorrelationID r)])
      else case insertByID (r_CorrelationID r) of
             None \<Rightarrow> Inl (Errorf ''pglg: unknown CorrelationID %q in submit results''
                            [FStr (r_CorrelationID r)])
           | Some p \<Rightarrow>
               match_results insertByID (insert (r_CorrelationID r) seen)
                 (if r_Err r = '''' then rows else rows @ [dlq_row_of p r]) rs)"

definition mapResults :: "parsedInsert list \<Rightarrow> SubmitResult list \<Rightarrow> go_error + dlqRow list" where
  "mapResults ins results =
     (if length results \<noteq> length ins
      then Inl (Errorf ''pglg: submit returned %d results for %d submitted jobs''
                  [FInt (int (length results)), FInt (int (length ins))])
      else case index_inserts Map.empty ins of
             Inl e \<Rightarrow> Inl e
           | Inr insertByID \<Rightarrow> match_results insertByID {} [] results)"

section \<open>The dead letter table\<close>

datatype sql_arg = ANull | AInt int | ATime gotime | AText string | ABytes bytes | ABool bool

text \<open>A stored row: the columns of the table, with \<open>dead_lettered_at\<close> set by the server.\<close>

record dlq_entry =
  e_id :: int
  e_created_at :: gotime
  e_producer_id :: string
  e_job_type :: string
  e_payload :: bytes
  e_run_at :: "gotime option"
  e_trace_id :: string
  e_shadow :: bool
  e_reason :: string
  e_error_message :: string
  dead_lettered_at :: gotime

type_synonym dlq_rows = "string \<Rightarrow> dlq_entry list"

definition dlq_cols :: nat where
  "dlq_cols = 10"

text \<open>The ten placeholder numbers of row \<open>i\<close>, and their text.\<close>

definition placeholder_numbers :: "nat \<Rightarrow> nat list" where
  "placeholder_numbers i = (let base = i * dlq_cols + 1 in map (\<lambda>k. base + k) [0..<dlq_cols])"

definition placeholder_text :: "nat list \<Rightarrow> string" where
  "placeholder_text ns = ''('' @ Join (map (\<lambda>n. ''$'' @ FormatInt (int n)) ns) '','' @ '')''"

definition dlq_args :: "dlqRow \<Rightarrow> sql_arg list" where
  "dlq_args r =
     [AInt (dl_id r), ATime (dl_createdAt r), AText (dl_producerID r), AText (dl_jobType r),
      ABytes (dl_payload r), (if IsZero (dl_runAt r) then ANull else ATime (dl_runAt r)),
      AText (dl_traceID r), ABool (dl_shadow r), AText (reason r), AText (errorMessage r)]"

definition insert_args :: "dlqRow list \<Rightarrow> sql_arg list" where
  "insert_args rows = concat (map dlq_args rows)"

definition insert_placeholders :: "dlqRow list \<Rightarrow> nat list list" where
  "insert_placeholders rows = map placeholder_numbers [0..<length rows]"

definition insert_query :: "string \<Rightarrow> dlqRow list \<Rightarrow> string" where
  "insert_query table rows =
     ''INSERT INTO '' @ table @
     '' (id, created_at, producer_id, job_type, payload, run_at, trace_id, shadow, reason, error_message) VALUES ''
     @ Join (map placeholder_text (insert_placeholders rows)) '',''"

text \<open>The server's side of the statement: the value of a placeholder is the argument with that
  number, and a tuple of values is stored under the ten columns.\<close>

definition bound_values :: "sql_arg list \<Rightarrow> nat list \<Rightarrow> sql_arg list" where
  "bound_values args ns = map (\<lambda>n. args ! (n - 1)) ns"

definition column_int :: "sql_arg \<Rightarrow> int option" where
  "column_int a = (case a of AInt i \<Rightarrow> Some i | _ \<Rightarrow> None)"

definition column_time :: "sql_arg \<Rightarrow> gotime option" where
  "column_time a = (case a of ATime t \<Rightarrow> Some t | _ \<Rightarrow> None)"

definition column_text :: "sql_arg \<Rightarrow> string option" where
  "column_text a = (case a of AText s \<Rightarrow> Some s | _ \<Rightarrow> None)"

definition column_bytes :: "sql_arg \<Rightarrow> bytes option" where
  "column_bytes a = (case a of ABytes b \<Rightarrow> Some b | _ \<Rightarrow> None)"

definition column_bool :: "sql_arg \<Rightarrow> bool option" where
  "column_bool a = (case a of ABool b \<Rightarrow> Some b | _ \<Rightarrow> None)"

definition column_null_time :: "sql_arg \<Rightarrow> gotime option option" where
  "column_null_time a = (case a of ANull \<Rightarrow> Some None | ATime t \<Rightarrow> Some (Some t) | _ \<Rightarrow> None)"

definition entry_of_values :: "gotime \<Rightarrow> sql_arg list \<Rightarrow> dlq_entry option" where
  "entry_of_values now vs =
     (if length vs \<noteq> dlq_cols then None
      else case (column_int (vs ! 0), column_time (vs ! 1), column_text (vs ! 2), column_text (vs ! 3),
                 column_bytes (vs ! 4), column_null_time (vs ! 5), column_text (vs ! 6),
                 column_bool (vs ! 7), column_text (vs ! 8), column_text (vs ! 9)) of
             (Some i, Some ca, Some pr, Some jt, Some pl, Some ra, Some tr, Some sh, Some rs, Some em) \<Rightarrow>
               Some \<lparr>e_id = i, e_created_at = ca, e_producer_id = pr, e_job_type = jt,
                 e_payload = pl, e_run_at = ra, e_trace_id = tr, e_shadow = sh, e_reason = rs,
                 e_error_message = em, dead_lettered_at = now\<rparr>
           | _ \<Rightarrow> None)"

definition dlq_entry_of :: "gotime \<Rightarrow> dlqRow \<Rightarrow> dlq_entry" where
  "dlq_entry_of now r = \<lparr>e_id = dl_id r, e_created_at = dl_createdAt r, e_producer_id = dl_producerID r,
     e_job_type = dl_jobType r, e_payload = dl_payload r,
     e_run_at = (if IsZero (dl_runAt r) then None else Some (dl_runAt r)),
     e_trace_id = dl_traceID r, e_shadow = dl_shadow r, e_reason = reason r,
     e_error_message = errorMessage r, dead_lettered_at = now\<rparr>"

text \<open>\<open>exec\<close> is the failure of the statement for a query text and its arguments, if any;
  \<open>now\<close> is the server's transaction time.\<close>

definition insertDLQRows :: "(string \<Rightarrow> sql_arg list \<Rightarrow> go_error option) \<Rightarrow> gotime \<Rightarrow> string
    \<Rightarrow> dlqRow list \<Rightarrow> dlq_rows \<Rightarrow> go_error option \<times> dlq_rows" where
  "insertDLQRows exec now table rows db =
     (if rows = [] then (None, db)
      else
        (let args = insert_args rows in
         case exec (insert_query table rows) args of
           Some err \<Rightarrow> (Some (Wrapf ''pglg: insert dlq: %w'' [] err), db)
         | None \<Rightarrow>
           (case those (map (entry_of_values now \<circ> bound_values args) (insert_placeholders rows)) of
              None \<Rightarrow> (Some (Wrapf ''pglg: insert dlq: %w'' []
                          (PgError ''42804'' ''datatype mismatch'')), db)
            | Some entries \<Rightarrow> (None, db(table := db table @ entries)))))"

section \<open>Cleanup\<close>

text \<open>\<open>DLQRetention.Microseconds()\<close> of the interval argument drops the nanoseconds; \<open>now\<close> is
  the server's clock and \<open>took\<close> the client's measured duration.\<close>

definition retention_interval :: "driver \<Rightarrow> duration" where
  "retention_interval d = go_quot (DLQRetention (cfg d)) Microsecond * Microsecond"

definition runDLQCleanup :: "go_error option \<Rightarrow> gotime \<Rightarrow> duration \<Rightarrow> driver \<Rightarrow> dlq_rows
    \<Rightarrow> metric list \<times> dlq_rows" where
  "runDLQCleanup exec now took d db =
     (let table = dlqTable (cfg d) in
      case exec of
        Some err \<Rightarrow> ([Incr ''jack.courier.dlq.cleanup.error'' []], db)
      | None \<Rightarrow>
        (let expired = (\<lambda>e. dead_lettered_at e < now - retention_interval d) in
         ([Distribution ''jack.courier.dlq.cleanup.deleted''
             (of_nat (length (filter expired (db table)))) [],
           Distribution ''jack.courier.dlq.cleanup.duration'' (seconds_of took) []],
          db(table := filter (\<lambda>e. \<not> expired e) (db table)))))"

text \<open>One round of the loop of \<open>dlqCleanup\<close>: the context is done, or the ticker fired.\<close>

datatype tick_event = CtxDone | Tick

record cleanup_env =
  ce_exec :: "go_error option"
  ce_now :: gotime
  ce_took :: duration

text \<open>The events the loop sees, each with the leader flag at that moment and the answers of the
  database; it stops at the first \<open>CtxDone\<close>.\<close>

fun dlqCleanup :: "(tick_event \<times> driver \<times> cleanup_env) list \<Rightarrow> dlq_rows \<Rightarrow> metric list \<times> dlq_rows" where
  "dlqCleanup [] db = ([], db)"
| "dlqCleanup ((CtxDone, d, en) # evs) db = ([], db)"
| "dlqCleanup ((Tick, d, en) # evs) db =
     (if \<not> isLeader d then dlqCleanup evs db
      else case runDLQCleanup (ce_exec en) (ce_now en) (ce_took en) d db of
             (ms, db') \<Rightarrow> (case dlqCleanup evs db' of (ms', db'') \<Rightarrow> (ms @ ms', db'')))"


section \<open>Which responses are accepted\<close>

abbreviation cid_of :: "parsedInsert \<Rightarrow> string" where
  "cid_of p \<equiv> FormatInt (pid p)"

lemma index_inserts_Inr:
  "index_inserts m ps = Inr m' \<longleftrightarrow>
     distinct (map cid_of ps) \<and> (\<forall>p \<in> set ps. m (cid_of p) = None) \<and>
     m' = m ++ map_of (rev (map (\<lambda>p. (cid_of p, p)) ps))"
proof (induction ps arbitrary: m)
  case Nil
  show ?case by auto
next
  case (Cons p ps)
  let ?m = "m(cid_of p \<mapsto> p)"
  have upd: "?m ++ map_of (rev (map (\<lambda>p. (cid_of p, p)) ps)) =
      m ++ map_of (rev (map (\<lambda>p. (cid_of p, p)) (p # ps)))"
    by (simp add: map_add_assoc [symmetric])
  have "index_inserts m (p # ps) = Inr m' \<longleftrightarrow> m (cid_of p) = None \<and> index_inserts ?m ps = Inr m'"
    by (simp add: Let_def)
  also have "\<dots> \<longleftrightarrow> m (cid_of p) = None \<and> distinct (map cid_of ps) \<and> (\<forall>q \<in> set ps. ?m (cid_of q) = None) \<and>
      m' = m ++ map_of (rev (map (\<lambda>p. (cid_of p, p)) (p # ps)))"
    by (simp only: Cons.IH upd)
  also have "(\<forall>q \<in> set ps. ?m (cid_of q) = None) \<longleftrightarrow>
      cid_of p \<notin> set (map cid_of ps) \<and> (\<forall>q \<in> set ps. m (cid_of q) = None)"
    by (auto simp: image_iff)
  finally show ?case by auto
qed

lemma match_results_Inr:
  "match_results m seen rows rs = Inr rows' \<longleftrightarrow>
     distinct (map r_CorrelationID rs) \<and> (\<forall>r \<in> set rs. r_CorrelationID r \<notin> seen) \<and>
     (\<forall>r \<in> set rs. m (r_CorrelationID r) \<noteq> None) \<and>
     rows' = rows @ map (\<lambda>r. dlq_row_of (the (m (r_CorrelationID r))) r) (filter (\<lambda>r. r_Err r \<noteq> '''') rs)"
proof (induction rs arbitrary: seen rows)
  case Nil
  show ?case by auto
next
  case (Cons r rs)
  show ?case by (auto simp: Cons.IH image_iff split: option.splits)
qed

definition insert_index :: "parsedInsert list \<Rightarrow> string \<rightharpoonup> parsedInsert" where
  "insert_index ins = map_of (rev (map (\<lambda>p. (cid_of p, p)) ins))"

lemma insert_index_Some:
  assumes "distinct (map cid_of ins)"
  shows "insert_index ins c = Some p \<longleftrightarrow> p \<in> set ins \<and> cid_of p = c"
proof -
  have "distinct (map fst (rev (map (\<lambda>p. (cid_of p, p)) ins)))"
    using assms by (simp add: rev_map [symmetric] comp_def)
  then show ?thesis
    by (auto simp: insert_index_def map_of_eq_Some_iff)
qed

lemma insert_index_None: "insert_index ins c = None \<longleftrightarrow> c \<notin> set (map cid_of ins)"
  by (auto simp: insert_index_def map_of_eq_None_iff image_iff)

text \<open>The rows an accepted response dead-letters: one per rejected result, in the order of the
  results, for the insert the result names.\<close>

definition rejected_rows :: "parsedInsert list \<Rightarrow> SubmitResult list \<Rightarrow> dlqRow list" where
  "rejected_rows ins results =
     map (\<lambda>r. dlq_row_of (the (insert_index ins (r_CorrelationID r))) r)
       (filter (\<lambda>r. r_Err r \<noteq> '''') results)"

lemma mset_eq_of_distinct:
  assumes "length xs = length ys" "distinct xs" "distinct ys" "set xs \<subseteq> set ys"
  shows "mset xs = mset ys"
proof -
  have "set xs = set ys"
    using assms by (intro card_subset_eq) (auto simp: distinct_card)
  then show ?thesis using assms by (simp add: set_eq_iff_mset_eq_distinct)
qed

lemma mapResults_Inr:
  "mapResults ins results = Inr rows \<longleftrightarrow>
     mset (map r_CorrelationID results) = mset (map cid_of ins) \<and> distinct (map cid_of ins) \<and>
     rows = rejected_rows ins results"
  (is "?L \<longleftrightarrow> ?R")
proof
  assume ?L
  then have *: "length results = length ins" "distinct (map cid_of ins)"
    "distinct (map r_CorrelationID results)" "\<forall>r \<in> set results. insert_index ins (r_CorrelationID r) \<noteq> None"
    "rows = rejected_rows ins results"
    by (auto simp: mapResults_def index_inserts_Inr match_results_Inr insert_index_def rejected_rows_def
        split: if_splits sum.splits)
  then have "set (map r_CorrelationID results) \<subseteq> set (map cid_of ins)"
    by (auto simp: insert_index_None)
  with * show ?R
    using mset_eq_of_distinct [of "map r_CorrelationID results" "map cid_of ins"] by simp
next
  assume R: ?R
  then have "length (map r_CorrelationID results) = length (map cid_of ins)"
    using mset_eq_length by blast
  moreover have "distinct (map r_CorrelationID results)"
    using R by (metis distinct_count_atmost_1 mset_eq_setD)
  moreover have "set (map r_CorrelationID results) = set (map cid_of ins)"
    using R by (metis mset_eq_setD)
  then have "\<forall>r \<in> set results. insert_index ins (r_CorrelationID r) \<noteq> None"
    by (auto simp: insert_index_None)
  moreover have "index_inserts Map.empty ins = Inr (insert_index ins)"
    using R by (simp add: index_inserts_Inr insert_index_def)
  ultimately show ?L
    using R by (simp add: mapResults_def match_results_Inr rejected_rows_def)
qed

lemma mapResults_cids:
  assumes "mapResults ins results = Inr rows"
  shows "set (map r_CorrelationID results) = set (map cid_of ins)"
proof -
  from assms have "mset (map r_CorrelationID results) = mset (map cid_of ins)"
    by (simp only: mapResults_Inr)
  then show ?thesis by (rule mset_eq_setD)
qed

lemma rejected_row_origin:
  assumes "mapResults ins results = Inr rows" "row \<in> set rows"
  obtains p r where "p \<in> set ins" "r \<in> set results" "r_CorrelationID r = cid_of p" "r_Err r \<noteq> ''''"
    "row = dlq_row_of p r"
proof -
  from assms(1) have d: "distinct (map cid_of ins)" and rows: "rows = rejected_rows ins results"
    by (simp_all add: mapResults_Inr)
  note m = mapResults_cids [OF assms(1)]
  from assms(2) rows obtain r where r: "r \<in> set results" "r_Err r \<noteq> ''''"
    "row = dlq_row_of (the (insert_index ins (r_CorrelationID r))) r"
    by (auto simp: rejected_rows_def)
  from r(1) m have "insert_index ins (r_CorrelationID r) \<noteq> None"
    by (auto simp: insert_index_None)
  then obtain p where "insert_index ins (r_CorrelationID r) = Some p" by blast
  with d r show thesis by (intro that [of p r]) (auto simp: insert_index_Some)
qed

text \<open>Accounting: the ids accepted by the service and the ids dead-lettered are together the ids
  of the batch, each once.\<close>

lemma dl_cid_rejected:
  assumes "mapResults ins results = Inr rows"
  shows "map (FormatInt \<circ> dl_id) rows = map r_CorrelationID (filter (\<lambda>r. r_Err r \<noteq> '''') results)"
proof -
  have "FormatInt (pid (the (insert_index ins (r_CorrelationID r)))) = r_CorrelationID r"
    if "r \<in> set results" for r
  proof -
    from assms have d: "distinct (map cid_of ins)" by (simp add: mapResults_Inr)
    from mapResults_cids [OF assms] that have "insert_index ins (r_CorrelationID r) \<noteq> None"
      by (auto simp: insert_index_None)
    then obtain p where "insert_index ins (r_CorrelationID r) = Some p" by blast
    moreover from this have "cid_of p = r_CorrelationID r" using insert_index_Some [OF d] by blast
    ultimately show ?thesis by simp
  qed
  with assms show ?thesis
    by (auto simp: mapResults_Inr rejected_rows_def dlq_row_of_def)
qed

lemma mapResults_accounting:
  assumes "mapResults ins results = Inr rows"
  shows "mset (map r_CorrelationID (filter (\<lambda>r. r_Err r = '''') results)) +
    mset (map (FormatInt \<circ> dl_id) rows) = mset (map cid_of ins)"
proof -
  have "mset (map cid_of ins) = image_mset r_CorrelationID (mset results)"
    using assms by (simp add: mapResults_Inr)
  also have "mset results = mset (filter (\<lambda>r. r_Err r = '''') results) + mset (filter (\<lambda>r. r_Err r \<noteq> '''') results)"
    by (simp only: mset_filter multiset_partition [symmetric])
  also have "image_mset r_CorrelationID \<dots> = mset (map r_CorrelationID (filter (\<lambda>r. r_Err r = '''') results)) +
      mset (map r_CorrelationID (filter (\<lambda>r. r_Err r \<noteq> '''') results))"
    by (simp only: image_mset_union mset_map)
  finally show ?thesis unfolding dl_cid_rejected [OF assms] by (rule sym)
qed

section \<open>Truncated messages\<close>

lemma truncate_bounds:
  "int (length (truncate_str s n)) \<le> max 0 n" "ValidString (truncate_str s n)"
proof -
  have "length (ToValidUTF8 (take (nat n) s)) \<le> nat n"
    using length_ToValidUTF8 [of "take (nat n) s"] by simp
  then show "int (length (truncate_str s n)) \<le> max 0 n"
    using length_ToValidUTF8 [of s] by (auto simp: truncate_str_def)
  show "ValidString (truncate_str s n)" by (simp add: truncate_str_def ValidString_ToValidUTF8)
qed


lemma truncate_str_cut:
  assumes "ValidString s" "0 < n"
  shows "prefix (truncate_str s n) s"
    and "int (length s) > n \<Longrightarrow> n < int (length (truncate_str s n)) + 4"
    and "int (length s) \<le> n \<Longrightarrow> truncate_str s n = s"
proof -
  have *: "prefix (ToValidUTF8 (take (nat n) s)) s" "n < int (length (ToValidUTF8 (take (nat n) s))) + 4"
    if "int (length s) > n"
  proof -
    from that have "nat n \<le> length s" by linarith
    from ToValidUTF8_take [OF assms(1) this] show "prefix (ToValidUTF8 (take (nat n) s)) s"
      "n < int (length (ToValidUTF8 (take (nat n) s))) + 4" by linarith+
  qed
  then show "prefix (truncate_str s n) s"
    using assms by (auto simp: truncate_str_def ToValidUTF8_valid)
  show "int (length s) > n \<Longrightarrow> n < int (length (truncate_str s n)) + 4"
    using assms * by (simp add: truncate_str_def)
  show "int (length s) \<le> n \<Longrightarrow> truncate_str s n = s"
    using assms by (simp add: truncate_str_def ToValidUTF8_valid)
qed

section \<open>What the insert stores\<close>

lemma length_dlq_args [simp]: "length (dlq_args r) = dlq_cols"
  by (simp add: dlq_args_def dlq_cols_def)

lemma length_insert_args [simp]: "length (insert_args rows) = dlq_cols * length rows"
  by (simp add: insert_args_def length_concat comp_def sum_list_triv)

lemma nth_insert_args:
  assumes "i < length rows" "k < dlq_cols"
  shows "insert_args rows ! (i * dlq_cols + k) = dlq_args (rows ! i) ! k"
  using assms
proof (induction rows arbitrary: i)
  case Nil
  then show ?case by simp
next
  case (Cons r rows)
  have *: "insert_args (r # rows) = dlq_args r @ insert_args rows" by (simp add: insert_args_def)
  show ?case
  proof (cases i)
    case 0
    then show ?thesis using Cons.prems by (simp add: * nth_append)
  next
    case (Suc j)
    then have "insert_args (r # rows) ! (i * dlq_cols + k) = insert_args rows ! (j * dlq_cols + k)"
      by (simp add: * nth_append)
    then show ?thesis using Cons Suc by simp
  qed
qed

lemma bound_values_row:
  assumes "i < length rows"
  shows "bound_values (insert_args rows) (placeholder_numbers i) = dlq_args (rows ! i)"
proof (rule nth_equalityI)
  show "length (bound_values (insert_args rows) (placeholder_numbers i)) = length (dlq_args (rows ! i))"
    by (simp add: bound_values_def placeholder_numbers_def Let_def)
next
  fix k assume "k < length (bound_values (insert_args rows) (placeholder_numbers i))"
  then have "k < dlq_cols" by (simp add: bound_values_def placeholder_numbers_def Let_def)
  then show "bound_values (insert_args rows) (placeholder_numbers i) ! k = dlq_args (rows ! i) ! k"
    using nth_insert_args [OF assms] by (simp add: bound_values_def placeholder_numbers_def Let_def)
qed

lemma entry_of_dlq_args [simp]: "entry_of_values now (dlq_args r) = Some (dlq_entry_of now r)"
  by (simp add: entry_of_values_def dlq_args_def dlq_cols_def dlq_entry_of_def column_int_def
      column_time_def column_text_def column_bytes_def column_bool_def column_null_time_def)

lemma those_map_Some: "those (map (\<lambda>x. Some (f x)) xs) = Some (map f xs)"
  by (induction xs) simp_all

lemma entries_stored:
  "those (map (entry_of_values now \<circ> bound_values (insert_args rows)) (insert_placeholders rows)) =
     Some (map (dlq_entry_of now) rows)"
proof -
  have "map (entry_of_values now \<circ> bound_values (insert_args rows)) (insert_placeholders rows) =
      map (\<lambda>i. Some (dlq_entry_of now (rows ! i))) [0..<length rows]"
    by (simp add: insert_placeholders_def bound_values_row)
  also have "\<dots> = map (\<lambda>r. Some (dlq_entry_of now r)) (map ((!) rows) [0..<length rows])" by simp
  finally show ?thesis by (simp add: map_nth those_map_Some)
qed

lemma insertDLQRows_Some: "insertDLQRows exec now table rows db = (Some e, db') \<Longrightarrow> db' = db"
  by (auto simp: insertDLQRows_def Let_def split: if_splits option.splits)

lemma insertDLQRows_None:
  "insertDLQRows exec now table rows db = (None, db') \<Longrightarrow>
   db' = db(table := db table @ map (dlq_entry_of now) rows)"
  by (auto simp: insertDLQRows_def Let_def entries_stored split: if_splits option.splits)

lemma insertDLQRows_ok:
  "rows \<noteq> [] \<Longrightarrow> exec (insert_query table rows) (insert_args rows) = None \<Longrightarrow>
   insertDLQRows exec now table rows db = (None, db(table := db table @ map (dlq_entry_of now) rows))"
  by (simp add: insertDLQRows_def Let_def entries_stored)

text \<open>The placeholder numbers of a statement are \<open>1, 2, \<dots>\<close> in order, one for each argument.\<close>

lemma insert_placeholders_enum:
  "concat (insert_placeholders rows) = [1..<Suc (length (insert_args rows))]"
proof -
  have "concat (map placeholder_numbers [0..<n]) = [1..<Suc (dlq_cols * n)]" for n
  proof (induction n)
    case 0
    show ?case by (simp del: upt_Suc)
  next
    case (Suc n)
    have "placeholder_numbers n = [n * dlq_cols + 1..<n * dlq_cols + 1 + dlq_cols]"
      unfolding placeholder_numbers_def Let_def
      by (rule nth_equalityI) (auto simp: nth_append)
    then show ?case
      using Suc upt_add_eq_append [of 1 "Suc (dlq_cols * n)" dlq_cols] upt_Suc_append [of 0 n]
      by (simp add: mult.commute add.commute del: upt_Suc)
  qed
  then show ?thesis by (simp add: insert_placeholders_def)
qed

section \<open>What the cleanup keeps\<close>

lemma runDLQCleanup_table:
  assumes "runDLQCleanup exec now took d db = (ms, db')"
  shows "db' (dlqTable (cfg d)) = (if exec = None
      then filter (\<lambda>e. now - retention_interval d \<le> dead_lettered_at e) (db (dlqTable (cfg d)))
      else db (dlqTable (cfg d)))"
    and "\<And>t. t \<noteq> dlqTable (cfg d) \<Longrightarrow> db' t = db t"
  using assms by (auto simp: runDLQCleanup_def Let_def not_less split: option.splits)

lemma retention_interval_bounds:
  assumes "0 \<le> DLQRetention (cfg d)"
  shows "retention_interval d \<le> DLQRetention (cfg d)"
    and "DLQRetention (cfg d) < retention_interval d + Microsecond"
  using assms by (simp_all add: retention_interval_def minus_mod_eq_div_mult [symmetric])

text \<open>An entry that some run of the loop removes was older than the retention, up to a
  microsecond, at a tick the process held the leadership for.\<close>

lemma dlqCleanup_keeps:
  assumes "dlqCleanup evs db = (ms, db')" "e \<in> set (db t)" "e \<notin> set (db' t)"
  shows "\<exists>d en. (Tick, d, en) \<in> set evs \<and> isLeader d \<and> t = dlqTable (cfg d) \<and>
    dead_lettered_at e < ce_now en - retention_interval d"
  using assms
proof (induction evs db arbitrary: ms rule: dlqCleanup.induct)
  case (3 d en evs db)
  show ?case
  proof (cases "isLeader d")
    case False
    with 3 show ?thesis by fastforce
  next
    case True
    obtain ms1 db1 where r: "runDLQCleanup (ce_exec en) (ce_now en) (ce_took en) d db = (ms1, db1)"
      by fastforce
    obtain ms2 where d: "dlqCleanup evs db1 = (ms2, db')"
      using 3(3) True r by (auto split: prod.splits)
    show ?thesis
    proof (cases "e \<in> set (db1 t)")
      case True
      then show ?thesis using 3(2) [OF _ r [symmetric] d] 3(5) \<open>isLeader d\<close> by fastforce
    next
      case False
      with runDLQCleanup_table [OF r] 3(4) have "t = dlqTable (cfg d)"
        "dead_lettered_at e < ce_now en - retention_interval d"
        by (cases "t = dlqTable (cfg d)"; auto split: if_splits)+
      with True show ?thesis by fastforce
    qed
  qed
qed simp_all

lemma dlqCleanup_subset:
  assumes "dlqCleanup evs db = (ms, db')" "e \<in> set (db' t)"
  shows "e \<in> set (db t)"
  using assms
proof (induction evs db arbitrary: ms rule: dlqCleanup.induct)
  case (3 d en evs db)
  obtain ms1 db1 where r: "runDLQCleanup (ce_exec en) (ce_now en) (ce_took en) d db = (ms1, db1)"
    by fastforce
  have sub: "set (db1 t) \<subseteq> set (db t)"
    using runDLQCleanup_table [OF r] by (cases "t = dlqTable (cfg d)") (auto split: if_splits)
  show ?case
    using 3 r sub by (cases "isLeader d") (auto split: prod.splits)
qed simp_all

end
