(* ===== verification/Pglg_Stream.thy ===== *)
theory Pglg_Stream
  imports Pglg_Dlq
begin

text \<open>
  The streaming session of \<open>driver.go\<close>: \<open>processWALStream\<close> with \<open>flushBatch\<close> and
  \<open>persistFlushResult\<close>. The outside world is a record: the cursor and dead letter tables, the
  log of submissions with the service's answers, the log of status updates, the metrics and the
  log of replication connections. The
  state of the loop has one more field than the code has variables: the log of decoded messages,
  which only the specification reads. Everything the code asks of its environment in one round of the loop is a field of \<open>iter_env\<close>: the clock
  readings, the message received under a deadline, the answers of the database, of the submit
  function and of the server. A run is the loop over a list of such records; it ends by
  returning an error, or is still running when the list is exhausted.

  A commit whose answer is an error may have been applied by the server or not
  (\<open>CommitFailed err applied\<close>): both are possible after a lost connection.
\<close>

section \<open>State\<close>

record world =
  cursors :: cursor_rows
  dlqs :: dlq_rows
  submissions :: "(Job list \<times> (go_error + SubmitResult list)) list"
  statuses :: "StandbyStatusUpdate list"
  metrics :: "metric list"
  connections :: "conn_event list"

definition emit :: "metric list \<Rightarrow> world \<Rightarrow> world" where
  "emit ms w = w\<lparr>metrics := metrics w @ ms\<rparr>"

definition sent :: "StandbyStatusUpdate list \<Rightarrow> world \<Rightarrow> world" where
  "sent us w = w\<lparr>statuses := statuses w @ us\<rparr>"

definition conn_log :: "conn_event list \<Rightarrow> world \<Rightarrow> world" where
  "conn_log evs w = w\<lparr>connections := connections w @ evs\<rparr>"

record stream =
  buf :: txBuffer
  pendingInserts :: "parsedInsert list"
  pendingCommitLSN :: lsn
  inTx :: bool
  nextBatchAt :: gotime
  nextStandbyAt :: gotime
  wal :: walConsumer
  world :: world
  decoded :: "walMessage list"

section \<open>Flushing\<close>

datatype commit_answer = CommitOk | CommitFailed go_error bool

record tx_env =
  tx_begin :: "go_error option"
  tx_now :: gotime
  tx_exec_dlq :: "string \<Rightarrow> sql_arg list \<Rightarrow> go_error option"
  tx_exec_cursor :: "go_error option"
  tx_commit :: commit_answer

definition persistFlushResult :: "lsn_api \<Rightarrow> tx_env \<Rightarrow> driver \<Rightarrow> dlqRow list \<Rightarrow> lsn \<Rightarrow> world
    \<Rightarrow> go_error option \<times> world" where
  "persistFlushResult la te d rows commitLSN w =
     (case tx_begin te of
        Some err \<Rightarrow> (Some (Wrapf ''pglg: begin flush tx: %w'' [] err), w)
      | None \<Rightarrow>
        (case insertDLQRows (tx_exec_dlq te) (tx_now te) (dlqTable (cfg d)) rows (dlqs w) of
           (Some err, _) \<Rightarrow> (Some err, w)
         | (None, dlqs') \<Rightarrow>
           (case writeCursorTx la (tx_exec_cursor te) d commitLSN (cursors w) of
              (Some err, _) \<Rightarrow> (Some err, w)
            | (None, cursors') \<Rightarrow>
              (let w' = w\<lparr>dlqs := dlqs', cursors := cursors'\<rparr> in
               case tx_commit te of
                 CommitOk \<Rightarrow> (None, w')
               | CommitFailed err applied \<Rightarrow>
                   (Some (Wrapf ''pglg: commit flush tx: %w'' [] err), if applied then w' else w)))))"

record flush_env =
  fe_submit :: "Job list \<Rightarrow> go_error + SubmitResult list"
  fe_tx :: tx_env
  fe_status_now :: gotime
  fe_status_answer :: "go_error option"
  fe_took :: duration

definition flush_failed :: metric where
  "flush_failed = Incr ''jack.courier.flush.count'' [''status:error'']"

definition success_metrics :: "duration \<Rightarrow> dlqRow list \<Rightarrow> metric list" where
  "success_metrics took rows =
     map (\<lambda>row. Incr ''jack.courier.dlq.write''
       [''job_type:'' @ dl_jobType row, ''reason:'' @ reason row]) rows @
     [Incr ''jack.courier.flush.count'' [''status:success''],
      Distribution ''jack.courier.flush.duration'' (seconds_of took) []] @
     (if rows \<noteq> [] then [Distribution ''jack.courier.flush.failed_jobs'' (of_nat (length rows)) []]
      else [])"

definition flushBatch :: "lsn_api \<Rightarrow> flush_env \<Rightarrow> driver \<Rightarrow> parsedInsert list \<Rightarrow> lsn
    \<Rightarrow> walConsumer \<Rightarrow> world \<Rightarrow> go_error option \<times> walConsumer \<times> world" where
  "flushBatch la fe d ins commitLSN wc w =
     (if ins = [] then (None, wc, w)
      else
        (let jobs = map toJob ins;
             answer = fe_submit fe jobs;
             w1 = emit [Distribution ''jack.courier.flush.batch_size'' (of_nat (length jobs)) []] w;
             w2 = w1\<lparr>submissions := submissions w1 @ [(jobs, answer)]\<rparr>
         in case answer of
              Inl err \<Rightarrow> (Some (Wrapf ''pglg: submit failed: %w'' [] err), wc, emit [flush_failed] w2)
            | Inr results \<Rightarrow>
              (case mapResults ins results of
                 Inl err \<Rightarrow>
                   (Some (Wrapf ''pglg: jack response inconsistent: %w'' [] err), wc, emit [flush_failed] w2)
               | Inr rows \<Rightarrow>
                 (case persistFlushResult la (fe_tx fe) d rows commitLSN w2 of
                    (Some err, w3) \<Rightarrow> (Some err, wc, w3)
                  | (None, w3) \<Rightarrow>
                    (let wc' = setFlushLSN commitLSN wc;
                         (_, u) = sendStandbyStatus (fe_status_now fe) (fe_status_answer fe) wc'
                     in (None, wc', emit (success_metrics (fe_took fe) rows) (sent [u] w3)))))))"

section \<open>The receive loop\<close>

definition nextReceiveDeadline :: "gotime \<Rightarrow> gotime \<Rightarrow> gotime" where
  "nextReceiveDeadline batchAt standbyAt =
     (if IsZero batchAt \<or> standbyAt < batchAt then standbyAt else batchAt)"

definition canAdvanceIdleFlush :: "parsedInsert list \<Rightarrow> txBuffer \<Rightarrow> bool \<Rightarrow> bool" where
  "canAdvanceIdleFlush pending tb tx \<longleftrightarrow> length pending = 0 \<and> empty tb \<and> \<not> tx"

text \<open>\<open>now\<close> is the clock reading of \<open>time.Since\<close>.\<close>

definition recordRowAge :: "gotime \<Rightarrow> parsedInsert \<Rightarrow> metric list" where
  "recordRowAge now p =
     (if IsZero (createdAt p) then []
      else [Distribution ''jack.courier.row.age'' (seconds_of (now - createdAt p))
              [''job_type:'' @ jobType p]])"

record iter_env =
  ie_done :: "go_error option"       \<comment> \<open>\<open>ctx.Err()\<close> when the context is done\<close>
  ie_now :: gotime                   \<comment> \<open>the first clock reading\<close>
  ie_batch_flush :: flush_env        \<comment> \<open>the flush of a batch whose time has come\<close>
  ie_now_flushed :: gotime           \<comment> \<open>the clock after it\<close>
  ie_idle_tx :: tx_env               \<comment> \<open>the idle cursor write\<close>
  ie_status_now :: gotime
  ie_status_answer :: "go_error option"
  ie_now_standby :: gotime           \<comment> \<open>the clock after the status update\<close>
  ie_receive :: "gotime \<Rightarrow> go_error + backend_msg"
  ie_reply_now :: gotime
  ie_reply_answer :: "go_error option"
  ie_ages :: "nat \<Rightarrow> gotime"         \<comment> \<open>the clock for the age of each committed row\<close>
  ie_now_commit :: gotime            \<comment> \<open>the clock when a batch begins\<close>
  ie_size_flush :: flush_env         \<comment> \<open>the flush of a full batch\<close>

text \<open>The flush of the pending rows: an error returns from the loop; after success there is no
  pending row and no batch deadline.\<close>

definition flush_pending :: "lsn_api \<Rightarrow> driver \<Rightarrow> flush_env \<Rightarrow> stream \<Rightarrow> stream loop_result" where
  "flush_pending la d fe st =
     (case flushBatch la fe d (pendingInserts st) (pendingCommitLSN st) (wal st) (world st) of
        (Some err, wc, w) \<Rightarrow> Returned err (st\<lparr>wal := wc, world := w\<rparr>)
      | (None, wc, w) \<Rightarrow> Running (st\<lparr>pendingInserts := [], nextBatchAt := 0, wal := wc, world := w\<rparr>))"

text \<open>The flush of a batch whose time has come; the result also carries the clock the rest of the
  round uses.\<close>

definition batch_due :: "lsn_api \<Rightarrow> driver \<Rightarrow> iter_env \<Rightarrow> stream \<Rightarrow> stream loop_result \<times> gotime" where
  "batch_due la d en st =
     (if \<not> IsZero (nextBatchAt st) \<and> \<not> ie_now en < nextBatchAt st then
        (if length (pendingInserts st) > 0 then
           (flush_pending la d (ie_batch_flush en) st, ie_now_flushed en)
         else (Running (st\<lparr>nextBatchAt := 0\<rparr>), ie_now_flushed en))
      else (Running st, ie_now en))"

definition idle_flush :: "lsn_api \<Rightarrow> driver \<Rightarrow> iter_env \<Rightarrow> stream \<Rightarrow> stream loop_result" where
  "idle_flush la d en st =
     (if canAdvanceIdleFlush (pendingInserts st) (buf st) (inTx st) \<and> receivedPastFlush (wal st) then
        (let l = writePos (wal st) in
         case persistFlushResult la (ie_idle_tx en) d [] l (world st) of
           (Some err, w) \<Rightarrow> Returned err (st\<lparr>world := w\<rparr>)
         | (None, w) \<Rightarrow> Running (st\<lparr>wal := setFlushLSN l (wal st), world := w\<rparr>))
      else Running st)"

definition standby_due :: "lsn_api \<Rightarrow> driver \<Rightarrow> iter_env \<Rightarrow> gotime \<Rightarrow> stream \<Rightarrow> stream loop_result" where
  "standby_due la d en now st =
     (if \<not> now < nextStandbyAt st then
        (case idle_flush la d en st of
           Returned err st' \<Rightarrow> Returned err st'
         | Running st' \<Rightarrow>
           (case sendStandbyStatus (ie_status_now en) (ie_status_answer en) (wal st') of
              (answer, u) \<Rightarrow>
                (let st'' = st'\<lparr>world := sent [u] (world st')\<rparr> in
                 case answer of
                   Some sendErr \<Rightarrow> Returned (Wrapf ''pglg: standby status: %w'' [] sendErr) st''
                 | None \<Rightarrow> Running (st''\<lparr>nextStandbyAt := ie_now_standby en + StandbyInterval (cfg d)\<rparr>))))
      else Running st)"

text \<open>The case of a commit message.\<close>

definition commit_rows :: "iter_env \<Rightarrow> driver \<Rightarrow> lsn \<Rightarrow> stream \<Rightarrow> stream" where
  "commit_rows en d commitLSN st =
     (let wasPendingEmpty = (length (pendingInserts st) = 0);
          rows = inserts (buf st);
          pending = pendingInserts st @ rows
      in st\<lparr>world := emit (concat (map (\<lambda>(i, p). recordRowAge (ie_ages en i) p) (enumerate 0 rows)))
                        (world st),
            pendingInserts := pending,
            pendingCommitLSN := (if commitLSN > pendingCommitLSN st then commitLSN
                                 else pendingCommitLSN st),
            buf := reset (buf st),
            inTx := False,
            nextBatchAt := (if wasPendingEmpty \<and> length pending > 0
                            then ie_now_commit en + BatchTimeout (cfg d) else nextBatchAt st)\<rparr>)"

definition size_flush :: "lsn_api \<Rightarrow> driver \<Rightarrow> iter_env \<Rightarrow> stream \<Rightarrow> stream loop_result" where
  "size_flush la d en st =
     (if int (length (pendingInserts st)) \<ge> MaxBatchSize (cfg d) then
        flush_pending la d (ie_size_flush en) st
      else Running st)"

text \<open>The \<open>switch\<close> over a decoded message.\<close>

definition handle_message :: "lsn_api \<Rightarrow> driver \<Rightarrow> iter_env \<Rightarrow> walMessage \<Rightarrow> stream \<Rightarrow> stream loop_result" where
  "handle_message la d en msg st =
     (case msg of
        walBegin \<Rightarrow> Running (st\<lparr>inTx := True\<rparr>)
      | walRelation rid name columns \<Rightarrow> Running (st\<lparr>wal := setRelation rid name columns (wal st)\<rparr>)
      | walInsert rid vals \<Rightarrow>
          (case parseInsert rid vals (wal st) of
             Inl err \<Rightarrow> Running (st\<lparr>world := emit [Incr ''jack.courier.parse.error'' []] (world st)\<rparr>)
           | Inr None \<Rightarrow> Running st
           | Inr (Some job) \<Rightarrow> Running (st\<lparr>buf := addInsert job (buf st)\<rparr>))
      | walCommit commitLSN \<Rightarrow> size_flush la d en (commit_rows en d commitLSN st))"

definition receive_step :: "lsn_api \<Rightarrow> wal_api \<Rightarrow> driver \<Rightarrow> iter_env \<Rightarrow> stream \<Rightarrow> stream loop_result" where
  "receive_step la api d en st =
     (case receiveMessage api (ie_receive en) (ie_reply_now en) (ie_reply_answer en)
             (nextReceiveDeadline (nextBatchAt st) (nextStandbyAt st)) (wal st) of
        (res, wc, us) \<Rightarrow>
          (let st1 = st\<lparr>wal := wc, world := sent us (world st)\<rparr> in
           case res of
             Inl err \<Rightarrow> if errors_Is err ErrStandbyTimeout then Running st1
                        else Returned (Wrapf ''pglg: receive: %w'' [] err) st1
           | Inr None \<Rightarrow> Running st1
           | Inr (Some walData) \<Rightarrow>
             (case parseWALMessage (pglogrepl_ParseV2 api) walData of
                Inl err \<Rightarrow>
                  Running (st1\<lparr>world := emit [Incr ''jack.courier.wal.parse.error'' []] (world st1)\<rparr>)
              | Inr None \<Rightarrow> Running st1
              | Inr (Some msg) \<Rightarrow>
                  handle_message la d en msg
                    (st1\<lparr>decoded := decoded st1 @ [msg]\<rparr>))))"

text \<open>One round of the \<open>for\<close> loop.\<close>

definition iteration :: "lsn_api \<Rightarrow> wal_api \<Rightarrow> driver \<Rightarrow> iter_env \<Rightarrow> stream \<Rightarrow> stream loop_result" where
  "iteration la api d en st =
     (case ie_done en of
        Some err \<Rightarrow> Returned err st
      | None \<Rightarrow>
        (case batch_due la d en st of
           (Returned err st', _) \<Rightarrow> Returned err st'
         | (Running st1, now) \<Rightarrow>
           (case standby_due la d en now st1 of
              Returned err st' \<Rightarrow> Returned err st'
            | Running st2 \<Rightarrow> receive_step la api d en st2)))"

fun stream_loop :: "lsn_api \<Rightarrow> wal_api \<Rightarrow> driver \<Rightarrow> iter_env list \<Rightarrow> stream \<Rightarrow> stream loop_result" where
  "stream_loop la api d [] st = Running st"
| "stream_loop la api d (en # ens) st =
     (case iteration la api d en st of
        Returned err st' \<Rightarrow> Returned err st'
      | Running st' \<Rightarrow> stream_loop la api d ens st')"

text \<open>The variables before the loop; \<open>now\<close> is the clock reading.\<close>

definition stream_start :: "driver \<Rightarrow> gotime \<Rightarrow> walConsumer \<Rightarrow> lsn \<Rightarrow> world \<Rightarrow> stream" where
  "stream_start d now wc startLSN w =
     \<lparr>buf = \<lparr>inserts = []\<rparr>, pendingInserts = [], pendingCommitLSN = startLSN, inTx = False,
      nextBatchAt = 0, nextStandbyAt = now + StandbyInterval (cfg d), wal = wc, world = w,
      decoded = []\<rparr>"

definition processWALStream :: "lsn_api \<Rightarrow> wal_api \<Rightarrow> driver \<Rightarrow> gotime \<Rightarrow> iter_env list \<Rightarrow> walConsumer
    \<Rightarrow> lsn \<Rightarrow> world \<Rightarrow> stream loop_result" where
  "processWALStream la api d now ens wc startLSN w =
     stream_loop la api d ens (stream_start d now wc startLSN w)"


section \<open>Frames\<close>

lemma emit_frame [simp]:
  "cursors (emit ms w) = cursors w" "dlqs (emit ms w) = dlqs w" "submissions (emit ms w) = submissions w"
  "statuses (emit ms w) = statuses w" "connections (emit ms w) = connections w"
  by (simp_all add: emit_def)

lemma sent_frame [simp]:
  "cursors (sent us w) = cursors w" "dlqs (sent us w) = dlqs w" "submissions (sent us w) = submissions w"
  "statuses (sent us w) = statuses w @ us" "metrics (sent us w) = metrics w" "connections (sent us w) = connections w"
  by (simp_all add: sent_def)

lemma conn_log_frame [simp]:
  "cursors (conn_log evs w) = cursors w" "dlqs (conn_log evs w) = dlqs w" "submissions (conn_log evs w) = submissions w"
  "statuses (conn_log evs w) = statuses w" "metrics (conn_log evs w) = metrics w"
  "connections (conn_log evs w) = connections w @ evs" "conn_log [] w = w"
  by (simp_all add: conn_log_def)

interpretation receive_loop: scripted_loop "iteration la api d" "stream_loop la api d"
  for la api d
  by unfold_locales simp_all

section \<open>Atomicity of a flush\<close>

text \<open>The world after the transaction of \<open>persistFlushResult\<close> was applied.\<close>

definition persisted :: "gotime \<Rightarrow> driver \<Rightarrow> dlqRow list \<Rightarrow> lsn \<Rightarrow> world \<Rightarrow> world" where
  "persisted now d rows l w =
     w\<lparr>dlqs := (dlqs w)(dlqTable (cfg d) := dlqs w (dlqTable (cfg d)) @ map (dlq_entry_of now) rows),
       cursors := driver_upsert d l (cursors w)\<rparr>"

lemma persisted_frame [simp]:
  "submissions (persisted now d rows l w) = submissions w" "statuses (persisted now d rows l w) = statuses w"
  "metrics (persisted now d rows l w) = metrics w"
  "cursors (persisted now d rows l w) = driver_upsert d l (cursors w)"
  "dlqs (persisted now d rows l w) (dlqTable (cfg d)) =
     dlqs w (dlqTable (cfg d)) @ map (dlq_entry_of now) rows"
  by (simp_all add: persisted_def)

lemma persist_None:
  assumes la: "lsn_api_ok la" and p: "persistFlushResult la te d rows l w = (None, w')"
  shows "w' = persisted (tx_now te) d rows l w"
  using p
  by (auto simp: persistFlushResult_def persisted_def Let_def dest: insertDLQRows_None writeCursorTx_None [OF la]
      split: option.splits prod.splits commit_answer.splits)

lemma persist_Some:
  assumes la: "lsn_api_ok la" and p: "persistFlushResult la te d rows l w = (Some e, w')"
  shows "w' = w \<or> w' = persisted (tx_now te) d rows l w"
  using p
  by (auto simp: persistFlushResult_def persisted_def Let_def dest: insertDLQRows_None writeCursorTx_None [OF la]
      split: option.splits prod.splits commit_answer.splits if_splits)

lemma persist_cases:
  assumes "lsn_api_ok la" "persistFlushResult la te d rows l w = (err, w')"
  obtains (unchanged) "err \<noteq> None" "w' = w" | (applied) "w' = persisted (tx_now te) d rows l w"
  using persist_None [OF assms(1)] persist_Some [OF assms(1)] assms(2) by (cases err) blast+

lemma flushBatch_cases:
  assumes la: "lsn_api_ok la" and ne: "ins \<noteq> []" and f: "flushBatch la fe d ins l wc w = (err, wc', w')"
  obtains
    (unchanged) "err \<noteq> None" "wc' = wc" "cursors w' = cursors w" "dlqs w' = dlqs w"
      "statuses w' = statuses w"
      "submissions w' = submissions w @ [(map toJob ins, fe_submit fe (map toJob ins))]"
  | (applied) results rows where "fe_submit fe (map toJob ins) = Inr results"
      "mapResults ins results = Inr rows"
      "submissions w' = submissions w @ [(map toJob ins, Inr results)]"
      "cursors w' = driver_upsert d l (cursors w)"
      "dlqs w' (dlqTable (cfg d)) =
         dlqs w (dlqTable (cfg d)) @ map (dlq_entry_of (tx_now (fe_tx fe))) rows"
      "wc' = (if err = None then setFlushLSN l wc else wc)"
      "statuses w' = statuses w @ (if err = None then [standbyStatusUpdate wc' (fe_status_now fe)] else [])"
proof -
  define w2 where "w2 = (emit [Distribution ''jack.courier.flush.batch_size'' (of_nat (length ins)) []] w)
      \<lparr>submissions := submissions w @ [(map toJob ins, fe_submit fe (map toJob ins))]\<rparr>"
  have w2: "cursors w2 = cursors w" "dlqs w2 = dlqs w" "statuses w2 = statuses w"
    "submissions w2 = submissions w @ [(map toJob ins, fe_submit fe (map toJob ins))]"
    by (simp_all add: w2_def)
  show thesis
  proof (cases "\<exists>results rows. fe_submit fe (map toJob ins) = Inr results \<and> mapResults ins results = Inr rows")
    case False
    with f ne show thesis
      by (intro unchanged) (auto simp: flushBatch_def Let_def split: sum.splits)
  next
    case True
    then obtain results rows where r: "fe_submit fe (map toJob ins) = Inr results"
      "mapResults ins results = Inr rows" by blast
    obtain err3 w3 where p: "persistFlushResult la (fe_tx fe) d rows l w2 = (err3, w3)" by fastforce
    show thesis
      using la p
    proof (cases rule: persist_cases)
      case unchanged
      with f ne r p w2 show thesis
        by (intro that(1)) (auto simp: flushBatch_def Let_def w2_def split: option.splits)
    next
      case a: applied
      with f ne r p w2 show thesis
        by (intro that(2) [OF r])
          (auto simp: flushBatch_def Let_def w2_def sendStandbyStatus_def split: option.splits)
    qed
  qed
qed


section \<open>Invariants of the loop\<close>

text \<open>The elementary changes a round is made of, apart from the flushes and the messages.\<close>

definition send_status :: "gotime \<Rightarrow> stream \<Rightarrow> stream" where
  "send_status now st = st\<lparr>world := sent [standbyStatusUpdate (wal st) now] (world st)\<rparr>"

definition with_metrics :: "metric list \<Rightarrow> stream \<Rightarrow> stream" where
  "with_metrics ms st = st\<lparr>world := emit ms (world st)\<rparr>"

definition advance :: "lsn \<Rightarrow> stream \<Rightarrow> stream" where
  "advance p st = st\<lparr>wal := received p (wal st)\<rparr>"

definition log_message :: "walMessage \<Rightarrow> stream \<Rightarrow> stream" where
  "log_message msg st = st\<lparr>decoded := decoded st @ [msg]\<rparr>"

text \<open>
  An invariant \<open>I\<close> of the loop, and the property \<open>Q\<close> of the states in which it returns: it is
  enough to show that the elementary changes, the two flushes and the handling of a message keep
  \<open>I\<close>. \<open>E\<close> is what is assumed of the answers of the environment in a round and \<open>H\<close> what is assumed
  of the states at the head of the loop.
\<close>

locale stream_invariant =
  fixes la :: lsn_api and d :: driver
    and I :: "stream \<Rightarrow> bool" and Q :: "stream \<Rightarrow> bool"
    and E :: "iter_env \<Rightarrow> bool" and H :: "stream \<Rightarrow> bool"
  assumes weaken: "I st \<Longrightarrow> Q st"
    and due: "I st \<Longrightarrow> E en \<Longrightarrow> result_holds I Q (fst (batch_due la d en st))"
    and due_H: "H st \<Longrightarrow> result_holds H (\<lambda>_. True) (fst (batch_due la d en st))"
    and idle: "I st \<Longrightarrow> H st \<Longrightarrow> E en \<Longrightarrow> result_holds I Q (idle_flush la d en st)"
    and status: "I st \<Longrightarrow> I (send_status now st)"
    and standby: "I st \<Longrightarrow> I (st\<lparr>nextStandbyAt := t\<rparr>)"
    and stats: "I st \<Longrightarrow> I (with_metrics ms st)"
    and receive: "I st \<Longrightarrow> I (advance p st)"
    and message: "I st \<Longrightarrow> E en \<Longrightarrow> result_holds I Q (handle_message la d en msg (log_message msg st))"
begin

lemma standby_due_inv:
  assumes "I st" "H st" "E en"
  shows "result_holds I Q (standby_due la d en now st)"
proof (cases "now < nextStandbyAt st")
  case True
  then show ?thesis using assms by (simp add: standby_due_def)
next
  case False
  have i: "result_holds I Q (idle_flush la d en st)" using idle [OF assms] .
  show ?thesis
  proof (cases "idle_flush la d en st")
    case (Returned err st')
    then show ?thesis using i False by (simp add: standby_due_def)
  next
    case (Running st')
    then have s: "I (send_status (ie_status_now en) st')" using i status by simp
    from False Running weaken [OF s] standby [OF s] show ?thesis
      by (simp add: standby_due_def sendStandbyStatus_def send_status_def Let_def split: option.splits)
  qed
qed

lemma receive_step_inv:
  assumes "I st" "E en"
  shows "result_holds I Q (receive_step la api d en st)"
proof -
  obtain res wc us where r: "receiveMessage api (ie_receive en) (ie_reply_now en) (ie_reply_answer en)
      (nextReceiveDeadline (nextBatchAt st) (nextStandbyAt st)) (wal st) = (res, wc, us)"
    using prod_cases3 by blast
  define st1 where "st1 = st\<lparr>wal := wc, world := sent us (world st)\<rparr>"
  have st1: "I st1"
    using r
  proof (cases rule: receiveMessage_cases)
    case same
    then have "st1 = st" by (simp add: st1_def sent_def)
    then show ?thesis using assms by simp
  next
    case (moved p)
    from moved(2) show ?thesis
    proof
      assume "us = []"
      then have "st1 = advance p st" using moved by (simp add: st1_def sent_def advance_def)
      then show ?thesis using receive assms by simp
    next
      assume "us = [standbyStatusUpdate wc (ie_reply_now en)]"
      then have "st1 = send_status (ie_reply_now en) (advance p st)"
        using moved by (simp add: st1_def send_status_def advance_def)
      then show ?thesis using receive status assms by simp
    qed
  qed
  have "receive_step la api d en st =
    (case res of
       Inl err \<Rightarrow> if errors_Is err ErrStandbyTimeout then Running st1
                  else Returned (Wrapf ''pglg: receive: %w'' [] err) st1
     | Inr None \<Rightarrow> Running st1
     | Inr (Some walData) \<Rightarrow>
       (case parseWALMessage (pglogrepl_ParseV2 api) walData of
          Inl err \<Rightarrow> Running (with_metrics [Incr ''jack.courier.wal.parse.error'' []] st1)
        | Inr None \<Rightarrow> Running st1
        | Inr (Some msg) \<Rightarrow> handle_message la d en msg (log_message msg st1)))"
    by (simp add: receive_step_def r st1_def Let_def with_metrics_def log_message_def
        split: sum.splits option.splits)
  then show ?thesis
    using st1 weaken [OF st1] stats [OF st1] message [OF st1 assms(2)]
    by (simp split: sum.splits option.splits)
qed

lemma iteration_inv:
  assumes "I st" "H st" "E en"
  shows "result_holds I Q (iteration la api d en st)"
proof (cases "ie_done en")
  case (Some err)
  then show ?thesis using weaken assms by (simp add: iteration_def)
next
  case None
  obtain r now where b: "batch_due la d en st = (r, now)" by fastforce
  from due [OF assms(1,3)] due_H [OF assms(2), of en] b
  have "result_holds I Q r" "result_holds H (\<lambda>_. True) r" by simp_all
  then show ?thesis
  proof (cases r)
    case (Running st1)
    with \<open>result_holds I Q r\<close> \<open>result_holds H (\<lambda>_. True) r\<close>
    have "result_holds I Q (standby_due la d en now st1)"
      using standby_due_inv assms(3) by simp
    then show ?thesis
      using None b Running receive_step_inv [OF _ assms(3)]
      by (cases "standby_due la d en now st1") (simp_all add: iteration_def)
  qed (simp add: iteration_def None b)
qed

lemma stream_inv:
  assumes "I st" "\<And>en. en \<in> set ens \<Longrightarrow> E en"
    and "\<And>pre en suf st'. ens = pre @ en # suf \<Longrightarrow> stream_loop la api d pre st = Running st' \<Longrightarrow> H st'"
  shows "result_holds I Q (stream_loop la api d ens st)"
proof (rule receive_loop.run_invariant_assuming [where H = "\<lambda>en st. E en \<and> H st"])
  show "\<And>en st. I st \<Longrightarrow> E en \<and> H st \<Longrightarrow> result_holds I Q (iteration la api d en st)"
    using iteration_inv by blast
next
  fix pre en suf st'
  assume "ens = pre @ en # suf" "stream_loop la api d pre st = Running st'"
  then show "E en \<and> H st'" using assms(2) [of en] assms(3) [of pre en suf st'] by simp
qed (rule assms(1))

end

end
