(* ===== verification/Pglg_Delivery.thy ===== *)
theory Pglg_Delivery
  imports Pglg_Stream
begin

text \<open>
  What a streaming session delivers. The specification is a transaction log, read off the
  decoded messages: the rows of each committed transaction, in commit order. The theorems relate
  the batches handed to the submit function, the cursor, the status updates and the dead letter
  table to that log.
\<close>

section \<open>The transaction log\<close>

record txlog =
  t_rels :: "oid \<rightharpoonup> relationMeta"
  t_open :: "parsedInsert list"
  t_done :: "(lsn \<times> parsedInsert list) list"

definition empty_txlog :: txlog where
  "empty_txlog = \<lparr>t_rels = Map.empty, t_open = [], t_done = []\<rparr>"

fun tx_step :: "walMessage \<Rightarrow> txlog \<Rightarrow> txlog" where
  "tx_step walBegin t = t"
| "tx_step (walRelation rid name columns) t =
     t\<lparr>t_rels := (t_rels t)(rid \<mapsto> \<lparr>rel_name = name, rel_columns = columns\<rparr>)\<rparr>"
| "tx_step (walInsert rid vals) t =
     (case t_rels t rid of
        None \<Rightarrow> t
      | Some rel \<Rightarrow>
        (case parseInsertColumns (rel_columns rel) vals of
           Inl e \<Rightarrow> t
         | Inr row \<Rightarrow> t\<lparr>t_open := t_open t @ [row]\<rparr>))"
| "tx_step (walCommit l) t = t\<lparr>t_open := [], t_done := t_done t @ [(l, t_open t)]\<rparr>"

definition txs_of :: "walMessage list \<Rightarrow> txlog" where
  "txs_of msgs = fold tx_step msgs empty_txlog"

definition tx_rows :: "(lsn \<times> parsedInsert list) list \<Rightarrow> parsedInsert list" where
  "tx_rows txs = concat (map snd txs)"

lemma tx_rows_simps [simp]:
  "tx_rows [] = []" "tx_rows ((l, rows) # txs) = rows @ tx_rows txs" "tx_rows (xs @ ys) = tx_rows xs @ tx_rows ys"
  by (simp_all add: tx_rows_def)

lemma txs_of_snoc [simp]: "txs_of (msgs @ [m]) = tx_step m (txs_of msgs)"
  by (simp add: txs_of_def)

lemma txs_of_Nil [simp]: "txs_of [] = empty_txlog"
  by (simp add: txs_of_def)

section \<open>Conservation and order\<close>

text \<open>The jobs submitted since the first \<open>n\<close> submissions, in order.\<close>

definition batches :: "nat \<Rightarrow> stream \<Rightarrow> Job list" where
  "batches n st = concat (map fst (drop n (submissions (world st))))"

definition last_commit :: "lsn \<Rightarrow> (lsn \<times> parsedInsert list) list \<Rightarrow> lsn" where
  "last_commit start txs = fold max (map fst txs) start"

definition conserved :: "nat \<Rightarrow> lsn \<Rightarrow> stream \<Rightarrow> bool" where
  "conserved n start st \<longleftrightarrow>
     relations (wal st) = t_rels (txs_of (decoded st)) \<and>
     inserts (buf st) = t_open (txs_of (decoded st)) \<and>
     pendingCommitLSN st = last_commit start (t_done (txs_of (decoded st))) \<and>
     n \<le> length (submissions (world st)) \<and>
     batches n st @ map toJob (pendingInserts st) = map toJob (tx_rows (t_done (txs_of (decoded st))))"

definition delivered_prefix :: "nat \<Rightarrow> stream \<Rightarrow> bool" where
  "delivered_prefix n st \<longleftrightarrow>
     prefix (batches n st) (map toJob (tx_rows (t_done (txs_of (decoded st)))))"

lemma persist_frame:
  assumes "persistFlushResult la te d rows l w = (err, w')"
  shows "submissions w' = submissions w" "statuses w' = statuses w" "metrics w' = metrics w"
  using assms by (auto simp: persistFlushResult_def Let_def
      split: option.splits prod.splits commit_answer.splits if_splits)

lemma flushBatch_log:
  assumes "flushBatch la fe d ins l wc w = (err, wc', w')"
  shows "submissions w' = submissions w @
      (if ins = [] then [] else [(map toJob ins, fe_submit fe (map toJob ins))])"
    and "relations wc' = relations wc" "clientXLogPos wc' = clientXLogPos wc"
  using assms
  by (auto simp: flushBatch_def Let_def sendStandbyStatus_def dest: persist_frame(1)
      split: if_splits sum.splits prod.splits option.splits)

lemma flush_pending_cases:
  obtains (ok) wc w where "flush_pending la d fe st =
      Running (st\<lparr>pendingInserts := [], nextBatchAt := 0, wal := wc, world := w\<rparr>)"
      "flushBatch la fe d (pendingInserts st) (pendingCommitLSN st) (wal st) (world st) = (None, wc, w)"
  | (failed) err wc w where "flush_pending la d fe st = Returned err (st\<lparr>wal := wc, world := w\<rparr>)"
      "flushBatch la fe d (pendingInserts st) (pendingCommitLSN st) (wal st) (world st) = (Some err, wc, w)"
  by (cases "flushBatch la fe d (pendingInserts st) (pendingCommitLSN st) (wal st) (world st)")
    (auto simp: flush_pending_def split: option.splits)

lemma idle_flush_cases:
  obtains (skip) "idle_flush la d en st = Running st"
  | (ok) w where "idle_flush la d en st =
        Running (st\<lparr>wal := setFlushLSN (clientXLogPos (wal st)) (wal st), world := w\<rparr>)"
      "persistFlushResult la (ie_idle_tx en) d [] (clientXLogPos (wal st)) (world st) = (None, w)"
      "pendingInserts st = []" "inserts (buf st) = []" "\<not> inTx st"
  | (failed) err w where "idle_flush la d en st = Returned err (st\<lparr>world := w\<rparr>)"
      "persistFlushResult la (ie_idle_tx en) d [] (clientXLogPos (wal st)) (world st) = (Some err, w)"
      "pendingInserts st = []" "inserts (buf st) = []" "\<not> inTx st"
proof -
  obtain e w where p: "persistFlushResult la (ie_idle_tx en) d [] (clientXLogPos (wal st)) (world st) = (e, w)"
    by fastforce
  show thesis
  proof (cases "canAdvanceIdleFlush (pendingInserts st) (buf st) (inTx st) \<and> receivedPastFlush (wal st)")
    case True
    then have "pendingInserts st = []" "inserts (buf st) = []" "\<not> inTx st"
      by (simp_all add: canAdvanceIdleFlush_def empty_def)
    with True p show thesis
      by (cases e) (auto simp: idle_flush_def writePos_def Let_def intro: that)
  next
    case False
    then have "idle_flush la d en st = Running st" by (auto simp: idle_flush_def)
    then show thesis by (rule skip)
  qed
qed

lemma batch_due_fst:
  "fst (batch_due la d en st) =
     (if nextBatchAt st = 0 \<or> ie_now en < nextBatchAt st then Running st
      else if pendingInserts st = [] then Running (st\<lparr>nextBatchAt := 0\<rparr>)
      else flush_pending la d (ie_batch_flush en) st)"
  by (simp add: batch_due_def)

lemma conserved_prefix: "conserved n start st \<Longrightarrow> delivered_prefix n st"
  unfolding conserved_def delivered_prefix_def by (metis prefixI)

lemma conserved_flush:
  assumes "conserved n start st"
  shows "result_holds (conserved n start) (delivered_prefix n) (flush_pending la d fe st)"
proof (cases rule: flush_pending_cases [of la d fe st])
  case (ok wc w)
  then show ?thesis
    using assms flushBatch_log [OF ok(2)] by (cases "pendingInserts st = []") (auto simp: conserved_def batches_def)
next
  case (failed err wc w)
  have "prefix (batches n (st\<lparr>wal := wc, world := w\<rparr>)) (batches n st @ map toJob (pendingInserts st))"
    using assms flushBatch_log(1) [OF failed(2)]
    by (cases "pendingInserts st = []") (auto simp: conserved_def batches_def)
  then show ?thesis using assms failed by (simp add: conserved_def delivered_prefix_def)
qed

lemma conserved_commit:
  "conserved n start st \<Longrightarrow> conserved n start (commit_rows en d l (log_message (walCommit l) st))"
  by (auto simp: conserved_def commit_rows_def log_message_def batches_def reset_def Let_def
      last_commit_def max_def)

lemma conserved_message:
  assumes "conserved n start st"
  shows "result_holds (conserved n start) (delivered_prefix n) (handle_message la d en msg (log_message msg st))"
proof (cases msg)
  case (walCommit l)
  have c: "conserved n start (commit_rows en d l (log_message msg st))"
    using conserved_commit [OF assms] walCommit by simp
  then show ?thesis
    using conserved_flush [OF c] walCommit by (simp add: handle_message_def size_flush_def)
qed (use assms in \<open>auto simp: handle_message_def log_message_def conserved_def batches_def setRelation_def
    parseInsert_def addInsert_def split: option.splits sum.splits\<close>)

interpretation conservation: stream_invariant la d "conserved n start" "delivered_prefix n"
    "\<lambda>_. True" "\<lambda>_. True"
  for la d n start
proof unfold_locales
  fix st en
  assume c: "conserved n start st"
  then show "result_holds (conserved n start) (delivered_prefix n) (fst (batch_due la d en st))"
    using conserved_flush [OF c, of la d]
    by (cases "pendingInserts st = []") (auto simp: batch_due_fst conserved_def batches_def)
  show "result_holds (conserved n start) (delivered_prefix n) (idle_flush la d en st)"
    by (cases rule: idle_flush_cases [of la d en st])
      (use c conserved_prefix in \<open>auto simp: conserved_def delivered_prefix_def batches_def dest: persist_frame(1)\<close>)
next
  fix st en
  show "result_holds (\<lambda>_. True) (\<lambda>_. True) (fst (batch_due la d en st))"
    by (simp add: result_holds_state)
qed (use conserved_prefix conserved_message in \<open>auto simp: conserved_def send_status_def with_metrics_def
    advance_def batches_def\<close>)


lemma conserved_start:
  "relations wc = Map.empty \<Longrightarrow>
   conserved (length (submissions w)) start (stream_start d now wc start w)"
  by (simp add: conserved_def stream_start_def batches_def empty_txlog_def last_commit_def)

section \<open>The confirmed position is durable\<close>

abbreviation stream_cursor :: "driver \<Rightarrow> stream \<Rightarrow> lsn" where
  "stream_cursor d st \<equiv> driver_cursor d (cursors (world st))"

definition confirmed_durable :: "driver \<Rightarrow> stream \<Rightarrow> bool" where
  "confirmed_durable d st \<longleftrightarrow> flushLSN (wal st) \<le> stream_cursor d st \<and>
     (\<forall>u \<in> set (statuses (world st)). WALFlushPosition u \<le> stream_cursor d st)"

lemma driver_upsert_ge [simp]:
  "x \<le> driver_cursor d db \<Longrightarrow> x \<le> max (driver_cursor d db) l"
  by (simp add: le_max_iff_disj)

lemma confirmed_flush:
  assumes la: "lsn_api_ok la" and c: "confirmed_durable d st"
  shows "result_holds (confirmed_durable d) (confirmed_durable d) (flush_pending la d fe st)"
proof (cases "pendingInserts st = []")
  case True
  then show ?thesis using c by (simp add: flush_pending_def flushBatch_def confirmed_durable_def)
next
  case ne: False
  have "confirmed_durable d (st\<lparr>wal := wc, world := w\<rparr>)"
    if f: "flushBatch la fe d (pendingInserts st) (pendingCommitLSN st) (wal st) (world st) = (err, wc, w)" for err wc w
    using la ne f
  proof (cases rule: flushBatch_cases)
    case unchanged
    then show ?thesis using c by (simp add: confirmed_durable_def)
  next
    case (applied results rows)
    then show ?thesis using c by (auto simp: confirmed_durable_def le_max_iff_disj max_def)
  qed
  then show ?thesis
    by (cases rule: flush_pending_cases [of la d fe st]) (simp_all add: confirmed_durable_def)
qed

lemma confirmed_idle:
  assumes la: "lsn_api_ok la" and c: "confirmed_durable d st"
  shows "result_holds (confirmed_durable d) (confirmed_durable d) (idle_flush la d en st)"
proof (cases rule: idle_flush_cases [of la d en st])
  case skip
  then show ?thesis using c by simp
next
  case (ok w)
  then show ?thesis using c persist_None [OF la ok(2)]
    by (auto simp: confirmed_durable_def le_max_iff_disj max_def)
next
  case (failed err w)
  then show ?thesis using c persist_Some [OF la failed(2)]
    by (auto simp: confirmed_durable_def le_max_iff_disj)
qed

lemma confirmed_message:
  assumes la: "lsn_api_ok la" and c: "confirmed_durable d st"
  shows "result_holds (confirmed_durable d) (confirmed_durable d) (handle_message la d en msg (log_message msg st))"
proof (cases msg)
  case (walCommit l)
  have "confirmed_durable d (commit_rows en d l (log_message msg st))"
    using c by (simp add: confirmed_durable_def commit_rows_def log_message_def Let_def)
  then show ?thesis
    using confirmed_flush [OF la] walCommit by (simp add: handle_message_def size_flush_def)
qed (use c in \<open>auto simp: handle_message_def log_message_def confirmed_durable_def
    split: option.splits sum.splits\<close>)

interpretation confirmation: stream_invariant la d "\<lambda>st. lsn_api_ok la \<longrightarrow> confirmed_durable d st"
    "\<lambda>st. lsn_api_ok la \<longrightarrow> confirmed_durable d st" "\<lambda>_. True" "\<lambda>_. True"
  for la d
proof unfold_locales
  fix st en msg
  let ?I = "\<lambda>st. lsn_api_ok la \<longrightarrow> confirmed_durable d st"
  assume c: "?I st"
  have weak: "result_holds ?I ?I r" if "lsn_api_ok la \<Longrightarrow> result_holds (confirmed_durable d) (confirmed_durable d) r" for r
    using that by (cases r) auto
  show "result_holds ?I ?I (fst (batch_due la d en st))"
    using c confirmed_flush [of la d st] by (intro weak) (auto simp: batch_due_fst confirmed_durable_def)
  show "result_holds ?I ?I (idle_flush la d en st)"
    using c confirmed_idle [of la d st] by (intro weak) simp
  show "result_holds ?I ?I (handle_message la d en msg (log_message msg st))"
    using c confirmed_message [of la d st] by (intro weak) simp
qed (auto simp: result_holds_state confirmed_durable_def send_status_def with_metrics_def advance_def)

section \<open>Batch deadlines\<close>

text \<open>At the head of the loop a batch deadline is set exactly while rows are pending, and the
  pending rows are fewer than the batch size.\<close>

definition timed :: "driver \<Rightarrow> stream \<Rightarrow> bool" where
  "timed d st \<longleftrightarrow> (nextBatchAt st \<noteq> 0 \<longleftrightarrow> pendingInserts st \<noteq> []) \<and>
     int (length (pendingInserts st)) < MaxBatchSize (cfg d)"

definition clock_ok :: "driver \<Rightarrow> iter_env \<Rightarrow> bool" where
  "clock_ok d en \<longleftrightarrow> 0 < ie_now_commit en + BatchTimeout (cfg d)"

lemma timed_flush:
  "0 < MaxBatchSize (cfg d) \<Longrightarrow> result_holds (timed d) (\<lambda>_. True) (flush_pending la d fe st)"
  by (cases rule: flush_pending_cases [of la d fe st]) (simp_all add: timed_def)

lemma timed_message:
  assumes "0 < MaxBatchSize (cfg d)" "timed d st" "clock_ok d en"
  shows "result_holds (timed d) (\<lambda>_. True) (handle_message la d en msg (log_message msg st))"
proof (cases msg)
  case (walCommit l)
  have "timed d (commit_rows en d l (log_message msg st))"
    if "int (length (pendingInserts (commit_rows en d l (log_message msg st)))) < MaxBatchSize (cfg d)"
    using that assms by (auto simp: timed_def clock_ok_def commit_rows_def log_message_def Let_def)
  then show ?thesis
    using timed_flush [OF assms(1)] walCommit by (simp add: handle_message_def size_flush_def)
qed (use assms in \<open>auto simp: handle_message_def log_message_def timed_def split: option.splits sum.splits\<close>)

interpretation timing: stream_invariant la d "\<lambda>st. 0 < MaxBatchSize (cfg d) \<longrightarrow> timed d st"
    "\<lambda>_. True" "clock_ok d" "\<lambda>_. True"
  for la d
proof unfold_locales
  fix st en msg
  let ?I = "\<lambda>st. 0 < MaxBatchSize (cfg d) \<longrightarrow> timed d st"
  assume c: "?I st"
  have weak: "result_holds ?I (\<lambda>_. True) r" if "0 < MaxBatchSize (cfg d) \<Longrightarrow> result_holds (timed d) (\<lambda>_. True) r" for r
    using that by (cases r) auto
  show "result_holds ?I (\<lambda>_. True) (fst (batch_due la d en st))"
    using c timed_flush [of d la] by (intro weak) (auto simp: batch_due_fst timed_def)
  show "result_holds ?I (\<lambda>_. True) (idle_flush la d en st)"
    using c by (cases rule: idle_flush_cases [of la d en st]) (auto simp: timed_def)
  show "result_holds ?I (\<lambda>_. True) (handle_message la d en msg (log_message msg st))" if "clock_ok d en"
    using c timed_message [of d st en] that by (intro weak) simp
qed (auto simp: result_holds_state timed_def send_status_def with_metrics_def advance_def)


section \<open>At-least-once delivery\<close>

text \<open>A row is settled when a submission contained it and the service answered for it: it was
  accepted, or its rejection is stored in the dead letter table.\<close>

definition settled :: "driver \<Rightarrow> world \<Rightarrow> parsedInsert \<Rightarrow> bool" where
  "settled d w p \<longleftrightarrow>
     (\<exists>jobs results r. (jobs, Inr results) \<in> set (submissions w) \<and> toJob p \<in> set jobs \<and>
        r \<in> set results \<and> r_CorrelationID r = cid_of p \<and>
        (r_Err r = '''' \<or> (\<exists>now. dlq_entry_of now (dlq_row_of p r) \<in> set (dlqs w (dlqTable (cfg d))))))"

definition covered :: "driver \<Rightarrow> (lsn \<times> parsedInsert list) list \<Rightarrow> world \<Rightarrow> bool" where
  "covered d L w \<longleftrightarrow>
     (\<forall>(l, rows) \<in> set L. l \<le> driver_cursor d (cursors w) \<longrightarrow> (\<forall>p \<in> set rows. settled d w p))"

lemma settled_mono:
  assumes "settled d w p" "set (submissions w) \<subseteq> set (submissions w')"
    "set (dlqs w (dlqTable (cfg d))) \<subseteq> set (dlqs w' (dlqTable (cfg d)))"
  shows "settled d w' p"
  using assms unfolding settled_def by blast

lemma settled_by_flush:
  assumes m: "mapResults ins results = Inr rows" and p: "p \<in> set ins"
    and s: "(map toJob ins, Inr results) \<in> set (submissions w)"
    and t: "dlq_entry_of now ` set rows \<subseteq> set (dlqs w (dlqTable (cfg d)))"
  shows "settled d w p"
proof -
  from mapResults_cids [OF m] p obtain r where r: "r \<in> set results" "r_CorrelationID r = cid_of p"
    by (metis (no_types, lifting) imageE image_eqI list.set_map)
  from m have "distinct (map cid_of ins)" "rows = rejected_rows ins results"
    by (simp_all add: mapResults_Inr)
  with r p have "r_Err r \<noteq> '''' \<Longrightarrow> dlq_row_of p r \<in> set rows"
    by (auto simp: rejected_rows_def insert_index_Some image_iff intro!: bexI [of _ r])
       (metis insert_index_Some option.sel)
  with r p s t show ?thesis unfolding settled_def by fastforce
qed

text \<open>A transaction the cursor \<open>c\<close> has not passed, or whose rows are settled.\<close>

definition ahead :: "driver \<Rightarrow> world \<Rightarrow> lsn \<times> parsedInsert list \<Rightarrow> bool" where
  "ahead d w t \<longleftrightarrow> driver_cursor d (cursors w) < fst t \<or> (\<forall>p \<in> set (snd t). settled d w p)"

lemma covered_ahead: "covered d L w \<longleftrightarrow> (\<forall>t \<in> set L. ahead d w t)"
  by (auto simp: covered_def ahead_def not_less)

text \<open>The log splits into transactions whose rows are settled, transactions whose rows are
  pending, and transactions not yet received. A session may have started behind the cursor, so
  some of the latter two may already be settled too.\<close>

definition split_log :: "driver \<Rightarrow> (lsn \<times> parsedInsert list) list \<Rightarrow> stream \<Rightarrow> bool" where
  "split_log d L st \<longleftrightarrow>
     (\<exists>D1 D2 U. L = D1 @ D2 @ U \<and> t_done (txs_of (decoded st)) = D1 @ D2 \<and>
        pendingInserts st = tx_rows D2 \<and> (\<forall>p \<in> set (tx_rows D1). settled d (world st) p) \<and>
        (\<forall>t \<in> set D2. ahead d (world st) t) \<and>
        (\<forall>t \<in> set U. ahead d (world st) t \<and> pendingCommitLSN st < fst t))"

text \<open>The session has received a prefix of the transactions the server has for it.\<close>

definition received_prefix :: "(lsn \<times> parsedInsert list) list \<Rightarrow> stream \<Rightarrow> bool" where
  "received_prefix L st \<longleftrightarrow> prefix (t_done (txs_of (decoded st))) L"

text \<open>Between transactions, the received position lies before every commit not yet received.\<close>

definition honest_position :: "(lsn \<times> parsedInsert list) list \<Rightarrow> stream \<Rightarrow> bool" where
  "honest_position L st \<longleftrightarrow> (inTx st \<or> inserts (buf st) \<noteq> [] \<or>
     (\<forall>(l, rows) \<in> set (drop (length (t_done (txs_of (decoded st)))) L). clientXLogPos (wal st) < l))"

definition server_log :: "lsn \<Rightarrow> (lsn \<times> parsedInsert list) list \<Rightarrow> bool" where
  "server_log start L \<longleftrightarrow> sorted_wrt (<) (map fst L) \<and> (\<forall>(l, rows) \<in> set L. start < l)"

lemma settled_ahead: "\<forall>p \<in> set (tx_rows D). settled d w p \<Longrightarrow> t \<in> set D \<Longrightarrow> ahead d w t"
  by (auto simp: ahead_def tx_rows_def)

lemma split_log_covered: "split_log d L st \<Longrightarrow> covered d L (world st)"
  unfolding split_log_def covered_ahead by (elim exE conjE) (simp only: set_append Un_iff, blast intro: settled_ahead)

lemma covered_cong:
  assumes "covered d L w" "cursors w' = cursors w" "dlqs w' = dlqs w" "set (submissions w) \<subseteq> set (submissions w')"
  shows "covered d L w'"
  using assms settled_mono [of d w _ w'] by (fastforce simp: covered_def)

lemma split_log_world:
  assumes "split_log d L st" "stream_cursor d st' = stream_cursor d st"
    "t_done (txs_of (decoded st')) = t_done (txs_of (decoded st))"
    "pendingInserts st' = pendingInserts st" "pendingCommitLSN st' = pendingCommitLSN st"
    "set (submissions (world st)) \<subseteq> set (submissions (world st'))"
    "set (dlqs (world st) (dlqTable (cfg d))) \<subseteq> set (dlqs (world st') (dlqTable (cfg d)))"
  shows "split_log d L st'"
proof -
  have old: "settled d (world st') p" if "settled d (world st) p" for p
    using settled_mono [OF that, of "world st'"] assms by simp
  then have "ahead d (world st') t" if "ahead d (world st) t" for t
    using that assms(2) by (auto simp: ahead_def)
  with old show ?thesis
    using assms(1) unfolding split_log_def assms(3-5)
    apply (elim exE conjE)
    subgoal for D1 D2 U by (intro exI [of _ D1] exI [of _ D2] exI [of _ U]) simp
    done
qed

text \<open>A state in which everything received is settled.\<close>

lemma split_log_all_settled:
  assumes s: "split_log d L st" and d: "decoded st' = decoded st" and p: "pendingInserts st' = []"
    and old: "\<And>p. settled d (world st) p \<Longrightarrow> settled d (world st') p"
    and pend: "\<And>p. p \<in> set (pendingInserts st) \<Longrightarrow> settled d (world st') p"
    and pc: "pendingCommitLSN st' = pendingCommitLSN st"
    and cur: "stream_cursor d st' = max (stream_cursor d st) l"
    and l: "\<And>l' rows. (l', rows) \<in> set (drop (length (t_done (txs_of (decoded st)))) L) \<Longrightarrow> l < l'"
  shows "split_log d L st'"
proof -
  from s obtain D1 D2 U where *: "L = D1 @ D2 @ U" "t_done (txs_of (decoded st)) = D1 @ D2"
    "pendingInserts st = tx_rows D2" "\<forall>p \<in> set (tx_rows D1). settled d (world st) p"
    "\<forall>t \<in> set U. ahead d (world st) t \<and> pendingCommitLSN st < fst t"
    unfolding split_log_def by blast
  have "drop (length (t_done (txs_of (decoded st)))) L = U" using * by simp
  with * l old have "\<forall>t \<in> set U. ahead d (world st') t \<and> pendingCommitLSN st' < fst t"
    by (auto simp: cur pc ahead_def)
  moreover have "\<forall>p \<in> set (tx_rows (D1 @ D2)). settled d (world st') p"
    using * old pend by auto
  ultimately show ?thesis
    unfolding split_log_def using * d p
    by (intro exI [of _ "D1 @ D2"] exI [of _ "[]"] exI [of _ U]) simp
qed

lemma split_log_pending_bound:
  assumes "split_log d L st" "(l', rows) \<in> set (drop (length (t_done (txs_of (decoded st)))) L)"
  shows "pendingCommitLSN st < l'"
  using assms unfolding split_log_def by fastforce


text \<open>The invariant of a session: conservation, and the split of the log as long as the session
  has received a prefix of it.\<close>

definition delivering :: "driver \<Rightarrow> nat \<Rightarrow> lsn \<Rightarrow> (lsn \<times> parsedInsert list) list \<Rightarrow> stream \<Rightarrow> bool" where
  "delivering d n start L st \<longleftrightarrow> conserved n start st \<and> (received_prefix L st \<longrightarrow> split_log d L st)"

definition delivered :: "driver \<Rightarrow> (lsn \<times> parsedInsert list) list \<Rightarrow> stream \<Rightarrow> bool" where
  "delivered d L st \<longleftrightarrow> (received_prefix L st \<longrightarrow> covered d L (world st))"

lemma delivering_flush:
  assumes la: "lsn_api_ok la" and I: "delivering d n start L st"
  shows "result_holds (delivering d n start L) (delivered d L) (flush_pending la d fe st)"
proof (cases "pendingInserts st = []")
  case True
  with I show ?thesis
    by (simp add: flush_pending_def flushBatch_def delivering_def conserved_def batches_def received_prefix_def)
      (auto intro: split_log_world)
next
  case ne: False
  have prem: "split_log d L st" if "received_prefix L st" using I that by (simp add: delivering_def)
  have cov: "covered d L w \<and> (err = None \<longrightarrow>
      split_log d L (st\<lparr>pendingInserts := [], nextBatchAt := 0, wal := wc, world := w\<rparr>))"
    if f: "flushBatch la fe d (pendingInserts st) (pendingCommitLSN st) (wal st) (world st) = (err, wc, w)"
      and r: "received_prefix L st" for err wc w
    using la ne f
  proof (cases rule: flushBatch_cases)
    case unchanged
    then show ?thesis
      using split_log_covered [OF prem [OF r]] covered_cong [of d L "world st" w] by auto
  next
    case (applied results rows)
    let ?st = "st\<lparr>pendingInserts := [], nextBatchAt := 0, wal := wc, world := w\<rparr>"
    have old: "settled d w p" if "settled d (world st) p" for p
      using settled_mono [OF that, of w] applied by auto
    have new: "settled d w p" if "p \<in> set (pendingInserts st)" for p
      using settled_by_flush [OF applied(2) that, of w "tx_now (fe_tx fe)" d] applied by auto
    have "split_log d L ?st"
      by (rule split_log_all_settled [OF prem [OF r], of ?st "pendingCommitLSN st"])
        (use old new applied split_log_pending_bound [OF prem [OF r]] in auto)
    then show ?thesis using split_log_covered [of d L ?st] by simp
  qed
  have c: "result_holds (conserved n start) (delivered_prefix n) (flush_pending la d fe st)"
    using conserved_flush I by (simp add: delivering_def)
  show ?thesis
  proof (cases rule: flush_pending_cases [of la d fe st])
    case (ok wc w)
    then show ?thesis using c cov [OF ok(2)] by (simp add: delivering_def received_prefix_def)
  next
    case (failed err wc w)
    then show ?thesis using cov [OF failed(2)] by (simp add: delivered_def received_prefix_def)
  qed
qed

lemma delivering_idle:
  assumes la: "lsn_api_ok la" and I: "delivering d n start L st" and H: "honest_position L st"
  shows "result_holds (delivering d n start L) (delivered d L) (idle_flush la d en st)"
proof -
  have prem: "split_log d L st" if "received_prefix L st" using I that by (simp add: delivering_def)
  have app: "split_log d L (st\<lparr>wal := wc, world := w\<rparr>)"
    if "w = persisted now d [] (clientXLogPos (wal st)) (world st)" "received_prefix L st"
      "pendingInserts st = []" "inserts (buf st) = []" "\<not> inTx st" for wc w now
    by (rule split_log_all_settled [OF prem, of _ "clientXLogPos (wal st)"])
      (use that H in \<open>auto simp: honest_position_def intro: settled_mono\<close>)
  show ?thesis
  proof (cases rule: idle_flush_cases [of la d en st])
    case skip
    then show ?thesis using I by simp
  next
    case (ok w)
    have "conserved n start (st\<lparr>wal := setFlushLSN (clientXLogPos (wal st)) (wal st), world := w\<rparr>)"
      using I persist_frame(1) [OF ok(2)] by (simp add: delivering_def conserved_def batches_def)
    then show ?thesis
      using ok app [OF persist_None [OF la ok(2)]] by (simp add: delivering_def received_prefix_def)
  next
    case (failed err w)
    have "covered d L w" if r: "received_prefix L st"
      using persist_Some [OF la failed(2)]
    proof
      assume "w = world st"
      then show ?thesis using split_log_covered [OF prem [OF r]] by simp
    next
      assume "w = persisted (tx_now (ie_idle_tx en)) d [] (clientXLogPos (wal st)) (world st)"
      from split_log_covered [OF app [OF this r failed(3,4,5)]] show ?thesis by simp
    qed
    then show ?thesis using failed by (simp add: delivered_def received_prefix_def)
  qed
qed

lemma delivering_commit:
  assumes L: "server_log start L" and I: "delivering d n start L st"
  shows "delivering d n start L (commit_rows en d l (log_message (walCommit l) st))" (is "delivering _ _ _ _ ?st")
proof -
  let ?T = "txs_of (decoded st)"
  have c: "conserved n start st" using I by (simp add: delivering_def)
  have "split_log d L ?st" if "received_prefix L ?st"
  proof -
    from that obtain U where U: "L = t_done ?T @ (l, t_open ?T) # U"
      by (auto simp: received_prefix_def commit_rows_def log_message_def Let_def prefix_def)
    then have "received_prefix L st" by (simp add: received_prefix_def)
    then have "split_log d L st" using I by (simp add: delivering_def)
    then obtain D1 D2 U' where *: "L = D1 @ D2 @ U'" "t_done ?T = D1 @ D2"
      "pendingInserts st = tx_rows D2" "\<forall>p \<in> set (tx_rows D1). settled d (world st) p"
      "\<forall>t \<in> set D2. ahead d (world st) t"
      "\<forall>t \<in> set U'. ahead d (world st) t \<and> pendingCommitLSN st < fst t"
      unfolding split_log_def by blast
    have U': "U' = (l, t_open ?T) # U" using U * by simp
    have "\<forall>(l', rows) \<in> set U. l < l'"
      using L U by (auto simp: server_log_def sorted_wrt_append)
    moreover have w: "ahead d (world ?st) = ahead d (world st)"
      by (auto simp: fun_eq_iff ahead_def settled_def commit_rows_def log_message_def Let_def)
    ultimately have "\<forall>t \<in> set U. ahead d (world ?st) t \<and> pendingCommitLSN ?st < fst t"
      using * U' by (auto simp: commit_rows_def log_message_def Let_def)
    then show ?thesis
      unfolding split_log_def w using * U' c
      by (intro exI [of _ D1] exI [of _ "D2 @ [(l, t_open ?T)]"] exI [of _ U])
        (auto simp: commit_rows_def log_message_def Let_def conserved_def settled_def)
  qed
  then show ?thesis using conserved_commit [OF c] by (simp add: delivering_def)
qed


lemma delivering_weaken: "delivering d n start L st \<Longrightarrow> delivered d L st"
  by (simp add: delivering_def delivered_def split_log_covered)

text \<open>Changes that leave the log, the tables and the pending rows alone.\<close>

lemma delivering_frame:
  assumes "delivering d n start L st" "conserved n start st'"
    "t_done (txs_of (decoded st')) = t_done (txs_of (decoded st))"
    "pendingInserts st' = pendingInserts st" "pendingCommitLSN st' = pendingCommitLSN st"
    "cursors (world st') = cursors (world st)" "submissions (world st') = submissions (world st)"
    "set (dlqs (world st) (dlqTable (cfg d))) \<subseteq> set (dlqs (world st') (dlqTable (cfg d)))"
  shows "delivering d n start L st'"
  using assms split_log_world [of d L st st']
  by (auto simp: delivering_def received_prefix_def)

lemma delivering_other_message:
  assumes I: "delivering d n start L st" and m: "\<And>l. msg \<noteq> walCommit l"
  shows "result_holds (delivering d n start L) (delivered d L) (handle_message la d en msg (log_message msg st))"
proof -
  have c: "result_holds (conserved n start) (delivered_prefix n) (handle_message la d en msg (log_message msg st))"
    using I conserved_message by (simp add: delivering_def)
  have "\<exists>st'. handle_message la d en msg (log_message msg st) = Running st' \<and>
    pendingInserts st' = pendingInserts st \<and> pendingCommitLSN st' = pendingCommitLSN st \<and>
    cursors (world st') = cursors (world st) \<and> submissions (world st') = submissions (world st) \<and>
    dlqs (world st') = dlqs (world st) \<and> decoded st' = decoded st @ [msg]"
    using m by (cases msg) (auto simp: handle_message_def log_message_def split: option.splits sum.splits)
  then obtain st' where r: "handle_message la d en msg (log_message msg st) = Running st'"
    "pendingInserts st' = pendingInserts st" "pendingCommitLSN st' = pendingCommitLSN st"
    "cursors (world st') = cursors (world st)" "submissions (world st') = submissions (world st)"
    "dlqs (world st') = dlqs (world st)" "decoded st' = decoded st @ [msg]"
    by blast
  moreover have "t_done (tx_step msg (txs_of (decoded st))) = t_done (txs_of (decoded st))"
    using m by (cases msg) (auto split: option.splits sum.splits)
  ultimately show ?thesis using c delivering_frame [OF I, of st'] by simp
qed

lemma delivering_message:
  assumes "lsn_api_ok la" "server_log start L" "delivering d n start L st"
  shows "result_holds (delivering d n start L) (delivered d L) (handle_message la d en msg (log_message msg st))"
proof (cases "\<exists>l. msg = walCommit l")
  case False
  then show ?thesis using delivering_other_message [OF assms(3)] by blast
next
  case True
  then obtain l where l: "msg = walCommit l" by blast
  note c = delivering_commit [OF assms(2,3), of en l]
  then show ?thesis
    using delivering_flush [OF assms(1) c] l by (simp add: handle_message_def size_flush_def)
qed

lemma honest_flush: "honest_position L st \<Longrightarrow> result_holds (honest_position L) (\<lambda>_. True) (flush_pending la d fe st)"
proof (cases rule: flush_pending_cases [of la d fe st])
  case (ok wc w)
  assume "honest_position L st"
  then show ?thesis using ok(1) flushBatch_log(3) [OF ok(2)] by (simp add: honest_position_def)
qed simp

lemma delivering_elementary:
  assumes "delivering d n start L st"
  shows "delivering d n start L (send_status now st)" "delivering d n start L (with_metrics ms st)"
    "delivering d n start L (advance p st)" "delivering d n start L (st\<lparr>nextStandbyAt := t\<rparr>)"
    "delivering d n start L (st\<lparr>nextBatchAt := t\<rparr>)"
proof -
  have "conserved n start st" using assms by (simp add: delivering_def)
  note c = this [unfolded conserved_def batches_def]
  note defs = send_status_def with_metrics_def advance_def conserved_def batches_def
  show "delivering d n start L (send_status now st)" "delivering d n start L (with_metrics ms st)"
    "delivering d n start L (advance p st)" "delivering d n start L (st\<lparr>nextStandbyAt := t\<rparr>)"
    "delivering d n start L (st\<lparr>nextBatchAt := t\<rparr>)"
    by (rule delivering_frame [OF assms]; use c in \<open>simp add: defs\<close>)+
qed

interpretation delivery: stream_invariant la d
    "\<lambda>st. lsn_api_ok la \<and> server_log start L \<longrightarrow> delivering d n start L st"
    "\<lambda>st. lsn_api_ok la \<and> server_log start L \<longrightarrow> delivered d L st"
    "\<lambda>_. True" "honest_position L"
  for la d n start L
proof unfold_locales
  fix st en msg
  let ?P = "lsn_api_ok la \<and> server_log start L"
  let ?I = "\<lambda>st. ?P \<longrightarrow> delivering d n start L st" and ?Q = "\<lambda>st. ?P \<longrightarrow> delivered d L st"
  assume I: "?I st"
  then show "?Q st" using delivering_weaken by blast
  have weak: "result_holds ?I ?Q r"
    if "?P \<Longrightarrow> result_holds (delivering d n start L) (delivered d L) r" for r
    using that by (cases r) auto
  show "result_holds ?I ?Q (fst (batch_due la d en st))"
  proof (rule weak)
    assume P: ?P
    then have i: "delivering d n start L st" using I by blast
    from delivering_elementary(5) [OF this] show "result_holds (delivering d n start L) (delivered d L) (fst (batch_due la d en st))"
      using delivering_flush [of la d n start L st] P i by (simp add: batch_due_fst)
  qed
  show "result_holds ?I ?Q (idle_flush la d en st)" if "honest_position L st"
    using I that delivering_idle [of la d n start L st en] by (intro weak) blast
  show "result_holds ?I ?Q (handle_message la d en msg (log_message msg st))"
    using I delivering_message [of la start L d n st en msg] by (intro weak) blast
next
  fix st en
  assume "honest_position L st"
  then show "result_holds (honest_position L) (\<lambda>_. True) (fst (batch_due la d en st))"
    using honest_flush [of L st] by (auto simp: batch_due_fst honest_position_def)
qed (blast intro: delivering_elementary)+

lemma delivering_start:
  assumes "relations wc = Map.empty" "server_log start L" "covered d L w"
  shows "delivering d (length (submissions w)) start L (stream_start d now wc start w)"
proof -
  have "split_log d L (stream_start d now wc start w)"
    unfolding split_log_def
    by (intro exI [of _ "[]"] exI [of _ "[]"] exI [of _ L])
      (use assms in \<open>auto simp: stream_start_def empty_txlog_def server_log_def covered_ahead\<close>)
  then show ?thesis using conserved_start [OF assms(1)] by (simp add: delivering_def)
qed

section \<open>Growth of the world\<close>

text \<open>The tables and logs of the world only grow, and the cursor never moves back.\<close>

definition world_le :: "driver \<Rightarrow> world \<Rightarrow> world \<Rightarrow> bool" where
  "world_le d w w' \<longleftrightarrow> prefix (submissions w) (submissions w') \<and> prefix (statuses w) (statuses w') \<and>
     prefix (dlqs w (dlqTable (cfg d))) (dlqs w' (dlqTable (cfg d))) \<and>
     driver_cursor d (cursors w) \<le> driver_cursor d (cursors w')"

lemma world_le_refl [simp]: "world_le d w w"
  by (simp add: world_le_def)

lemma world_le_trans: "world_le d w w' \<Longrightarrow> world_le d w' w'' \<Longrightarrow> world_le d w w''"
  by (auto simp: world_le_def intro: prefix_order.trans order.trans)

lemma settled_world_le: "settled d w p \<Longrightarrow> world_le d w w' \<Longrightarrow> settled d w' p"
  by (rule settled_mono) (auto simp: world_le_def dest: set_mono_prefix)

lemma world_le_flush:
  assumes "lsn_api_ok la" "flushBatch la fe d ins l wc w = (err, wc', w')"
  shows "world_le d w w'"
proof (cases "ins = []")
  case True
  then show ?thesis using assms by (simp add: flushBatch_def)
next
  case False
  with assms(1) show ?thesis
    using assms(2)
    by (cases rule: flushBatch_cases) (simp_all add: world_le_def)
qed

lemma world_le_flush_pending:
  assumes "lsn_api_ok la"
  shows "world_le d (world st) (world (result_state (flush_pending la d fe st)))"
  by (cases rule: flush_pending_cases [of la d fe st]) (auto dest: world_le_flush [OF assms])

lemma world_le_persist:
  assumes "lsn_api_ok la" "persistFlushResult la te d rows l w = (err, w')"
  shows "world_le d w w'"
  using assms by (cases rule: persist_cases) (simp_all add: world_le_def)

interpretation growth: stream_invariant la d
    "\<lambda>st. lsn_api_ok la \<longrightarrow> world_le d w (world st)" "\<lambda>st. lsn_api_ok la \<longrightarrow> world_le d w (world st)"
    "\<lambda>_. True" "\<lambda>_. True"
  for la d w
proof unfold_locales
  fix st :: stream and en msg
  let ?I = "\<lambda>st. lsn_api_ok la \<longrightarrow> world_le d w (world st)"
  assume I: "?I st"
  have flush: "result_holds ?I ?I (flush_pending la d fe st')" if "world st' = world st \<or> (\<exists>ms. world st' = emit ms (world st))" for fe st'
    using I that world_le_flush_pending [of la d st' fe]
    by (auto simp: result_holds_state world_le_def intro: prefix_order.trans order.trans)
  show "result_holds ?I ?I (fst (batch_due la d en st))"
    using I flush [of st] by (simp add: batch_due_fst)
  show "result_holds ?I ?I (idle_flush la d en st)"
    using I by (cases rule: idle_flush_cases [of la d en st])
      (auto dest: world_le_persist intro: world_le_trans)
  show "result_holds ?I ?I (handle_message la d en msg (log_message msg st))"
  proof (cases msg)
    case (walCommit l)
    have *: "\<exists>ms. world (commit_rows en d l (log_message msg st)) = emit ms (world st)"
      by (auto simp: commit_rows_def log_message_def Let_def)
    with I have "?I (commit_rows en d l (log_message msg st))" by (auto simp: world_le_def)
    with flush * walCommit show ?thesis by (simp add: handle_message_def size_flush_def)
  qed (use I in \<open>auto simp: handle_message_def log_message_def world_le_def split: option.splits sum.splits\<close>)
qed (auto simp: result_holds_state world_le_def send_status_def with_metrics_def advance_def intro: prefix_order.trans)

section \<open>The connection\<close>

text \<open>The loop neither replaces the connection nor opens or closes one: the type assertion of
  \<open>sendStandbyStatus\<close> succeeds in every round.\<close>

definition linked :: "conn_event list \<Rightarrow> stream \<Rightarrow> bool" where
  "linked evs st \<longleftrightarrow> conn (wal st) = Some PgConn \<and> connections (world st) = evs"

lemma persist_connections:
  "persistFlushResult la te d rows l w = (err, w') \<Longrightarrow> connections w' = connections w"
  by (auto simp: persistFlushResult_def Let_def split: option.splits prod.splits commit_answer.splits if_splits)

lemma flushBatch_connections:
  "flushBatch la fe d ins l wc w = (err, wc', w') \<Longrightarrow> conn wc' = conn wc \<and> connections w' = connections w"
  by (auto simp: flushBatch_def Let_def sendStandbyStatus_def dest: persist_connections
      split: if_splits sum.splits prod.splits option.splits)

lemma linked_flush_pending: "linked evs st \<Longrightarrow> linked evs (result_state (flush_pending la d fe st))"
  by (cases rule: flush_pending_cases [of la d fe st]) (auto simp: linked_def dest: flushBatch_connections)

interpretation connection: stream_invariant la d "linked evs" "linked evs" "\<lambda>_. True" "\<lambda>_. True"
  for la d evs
proof unfold_locales
  fix st :: stream and en msg
  assume I: "linked evs st"
  note flush = linked_flush_pending [of evs _ la d]
  show "result_holds (linked evs) (linked evs) (fst (batch_due la d en st))"
    using I flush by (auto simp: batch_due_fst result_holds_state linked_def)
  show "result_holds (linked evs) (linked evs) (idle_flush la d en st)"
    using I by (cases rule: idle_flush_cases [of la d en st]) (auto simp: linked_def dest: persist_connections)
  show "result_holds (linked evs) (linked evs) (handle_message la d en msg (log_message msg st))"
  proof (cases msg)
    case (walCommit l)
    have "linked evs (commit_rows en d l (log_message msg st))"
      using I by (simp add: linked_def commit_rows_def log_message_def Let_def)
    then show ?thesis using flush walCommit by (simp add: handle_message_def size_flush_def result_holds_state)
  qed (use I in \<open>auto simp: handle_message_def log_message_def linked_def split: option.splits sum.splits\<close>)
qed (simp_all add: linked_def result_holds_state send_status_def with_metrics_def advance_def)

section \<open>The decoded messages\<close>

text \<open>The log of decoded messages, and with it the transactions received, only grows.\<close>

lemma t_done_step: "prefix (t_done t) (t_done (tx_step m t))"
  by (cases m) (auto split: option.splits sum.splits)

lemma t_done_mono:
  assumes "prefix xs ys"
  shows "prefix (t_done (txs_of xs)) (t_done (txs_of ys))"
proof -
  from assms obtain zs where "ys = xs @ zs" by (auto simp: prefix_def)
  moreover have "prefix (t_done (txs_of xs)) (t_done (txs_of (xs @ zs)))"
    by (induction zs rule: rev_induct) (auto simp: append_assoc [symmetric] intro: prefix_order.trans t_done_step simp del: append_assoc)
  ultimately show ?thesis by simp
qed

lemma decoded_flush: "decoded (result_state (flush_pending la d fe st)) = decoded st"
  by (cases rule: flush_pending_cases [of la d fe st]) simp_all

lemma decoded_message: "decoded (result_state (handle_message la d en msg st)) = decoded st"
  by (auto simp: handle_message_def size_flush_def decoded_flush commit_rows_def Let_def
      split: walMessage.splits sum.splits option.splits)

lemma decoded_batch: "decoded (result_state (fst (batch_due la d en st))) = decoded st"
  by (simp add: batch_due_fst decoded_flush)

lemma decoded_standby: "decoded (result_state (standby_due la d en now st)) = decoded st"
  by (cases rule: idle_flush_cases [of la d en st])
    (auto simp: standby_due_def sendStandbyStatus_def Let_def split: option.splits)

interpretation decoding: stream_invariant la d "\<lambda>st. prefix ms (decoded st)" "\<lambda>st. prefix ms (decoded st)"
    "\<lambda>_. True" "\<lambda>_. True"
  for la d ms
proof unfold_locales
  fix st :: stream and en msg
  assume I: "prefix ms (decoded st)"
  show "result_holds (\<lambda>st. prefix ms (decoded st)) (\<lambda>st. prefix ms (decoded st)) (fst (batch_due la d en st))"
    using I by (simp add: decoded_batch result_holds_state)
  show "result_holds (\<lambda>st. prefix ms (decoded st)) (\<lambda>st. prefix ms (decoded st)) (idle_flush la d en st)"
    using I by (cases rule: idle_flush_cases [of la d en st]) simp_all
  show "result_holds (\<lambda>st. prefix ms (decoded st)) (\<lambda>st. prefix ms (decoded st)) (handle_message la d en msg (log_message msg st))"
    using I by (simp add: result_holds_state decoded_message log_message_def)
qed (simp_all add: result_holds_state send_status_def with_metrics_def advance_def)

lemma received_prefix_earlier:
  assumes "received_prefix L (result_state (stream_loop la api d ens st))"
  shows "received_prefix L st"
proof -
  have "result_holds (\<lambda>st'. prefix (decoded st) (decoded st')) (\<lambda>st'. prefix (decoded st) (decoded st')) (stream_loop la api d ens st)"
    by (rule decoding.stream_inv) simp_all
  then show ?thesis
    using assms t_done_mono by (auto simp: received_prefix_def result_holds_state intro: prefix_order.trans)
qed

end
