(* ===== verification/Pglg_Leadership.thy ===== *)
theory Pglg_Leadership
  imports Pglg_Dlq
begin

text \<open>
  Leadership in \<open>driver.go\<close>: the flag \<open>isLeader\<close> is raised when a session starts streaming and
  lowered on shutdown or when the slot is busy; \<open>maintWake\<close> hands one token to the maintenance
  goroutine. The operations return the driver and the metrics they emit. The goroutines of \<open>Run\<close>
  interleave, so their joint behaviour is a step relation on the shared driver, the program
  counters of the goroutines and a log of what happened; each step is one operation of one
  goroutine on the shared flag or channel.
\<close>

section \<open>Operations\<close>

definition emitLeaderGauge :: "driver \<Rightarrow> metric list" where
  "emitLeaderGauge d =
     [Gauge ''jack.courier.leader.is_leader'' (if isLeader d then 1 else 0) []]"

definition acquireLeadership :: "driver \<Rightarrow> driver \<times> metric list" where
  "acquireLeadership d =
     (if \<not> isLeader d then
        (let d1 = d\<lparr>isLeader := True, standbyLogged := False\<rparr>
         in (d1\<lparr>maintWake := True\<rparr>,
             Incr ''jack.courier.leader.acquired'' [] # emitLeaderGauge d1))
      else (d, []))"

definition relinquishLeadership :: "string \<Rightarrow> driver \<Rightarrow> driver \<times> metric list" where
  "relinquishLeadership why d =
     (if isLeader d then
        (let d1 = d\<lparr>isLeader := False\<rparr>
         in (d1, Incr ''jack.courier.leader.relinquished'' [''reason:'' @ why] # emitLeaderGauge d1))
      else (d, []))"

text \<open>The heartbeat emits once and then at every tick until the context is done; the events come
  with the driver as it is at that moment.\<close>

fun heartbeat_loop :: "(tick_event \<times> driver) list \<Rightarrow> metric list" where
  "heartbeat_loop [] = []"
| "heartbeat_loop ((CtxDone, d) # evs) = []"
| "heartbeat_loop ((Tick, d) # evs) = emitLeaderGauge d @ heartbeat_loop evs"

definition leaderHeartbeat :: "driver \<Rightarrow> (tick_event \<times> driver) list \<Rightarrow> metric list" where
  "leaderHeartbeat d evs = emitLeaderGauge d @ heartbeat_loop evs"

section \<open>Interleaving\<close>

datatype maint_pc =
    AwaitWake        \<comment> \<open>the first \<open>select\<close> of \<open>partitionMaintenance\<close>\<close>
  | MaintLoop        \<comment> \<open>the \<open>select\<close> of its loop\<close>
  | CheckLeader      \<comment> \<open>woken, before \<open>isLeader.Load()\<close>\<close>
  | Maintaining      \<comment> \<open>in \<open>runPartitionMaintenance\<close>\<close>
  | MaintDone

datatype cleanup_pc = CleanupLoop | CleanupCheck | Cleaning | CleanupDone

datatype runner_pc =
    RunLoop          \<comment> \<open>outside \<open>acquireLeadership\<close>\<close>
  | Signalling       \<comment> \<open>in it, before the send on \<open>maintWake\<close>\<close>

datatype action = Acquired | Relinquished string | MaintStart | CleanupStart

record system =
  drv :: driver
  runner :: runner_pc
  maint :: maint_pc
  cleanup :: cleanup_pc
  ctx_done :: bool
  history :: "action list"

inductive sys_step :: "system \<Rightarrow> system \<Rightarrow> bool" where
  acquire: "runner s = RunLoop \<Longrightarrow> \<not> isLeader (drv s) \<Longrightarrow>
    sys_step s (s\<lparr>drv := (drv s)\<lparr>isLeader := True, standbyLogged := False\<rparr>, runner := Signalling,
      history := history s @ [Acquired]\<rparr>)"
| signal: "runner s = Signalling \<Longrightarrow>
    sys_step s (s\<lparr>drv := (drv s)\<lparr>maintWake := True\<rparr>, runner := RunLoop\<rparr>)"
| relinquish: "runner s = RunLoop \<Longrightarrow> isLeader (drv s) \<Longrightarrow>
    sys_step s (s\<lparr>drv := fst (relinquishLeadership why (drv s)), history := history s @ [Relinquished why]\<rparr>)"
| cancel: "sys_step s (s\<lparr>ctx_done := True\<rparr>)"
| first_wake: "maint s = AwaitWake \<Longrightarrow> maintWake (drv s) \<Longrightarrow>
    sys_step s (s\<lparr>drv := (drv s)\<lparr>maintWake := False\<rparr>, maint := Maintaining, history := history s @ [MaintStart]\<rparr>)"
| loop_wake: "maint s = MaintLoop \<Longrightarrow> maintWake (drv s) \<Longrightarrow>
    sys_step s (s\<lparr>drv := (drv s)\<lparr>maintWake := False\<rparr>, maint := CheckLeader\<rparr>)"
| loop_tick: "maint s = MaintLoop \<Longrightarrow> sys_step s (s\<lparr>maint := CheckLeader\<rparr>)"
| not_leader: "maint s = CheckLeader \<Longrightarrow> \<not> isLeader (drv s) \<Longrightarrow> sys_step s (s\<lparr>maint := MaintLoop\<rparr>)"
| is_leader: "maint s = CheckLeader \<Longrightarrow> isLeader (drv s) \<Longrightarrow>
    sys_step s (s\<lparr>maint := Maintaining, history := history s @ [MaintStart]\<rparr>)"
| maintained: "maint s = Maintaining \<Longrightarrow> sys_step s (s\<lparr>maint := MaintLoop\<rparr>)"
| maint_stop: "ctx_done s \<Longrightarrow> maint s = AwaitWake \<or> maint s = MaintLoop \<Longrightarrow> sys_step s (s\<lparr>maint := MaintDone\<rparr>)"
| cleanup_tick: "cleanup s = CleanupLoop \<Longrightarrow> sys_step s (s\<lparr>cleanup := CleanupCheck\<rparr>)"
| cleanup_skip: "cleanup s = CleanupCheck \<Longrightarrow> \<not> isLeader (drv s) \<Longrightarrow> sys_step s (s\<lparr>cleanup := CleanupLoop\<rparr>)"
| cleanup_start: "cleanup s = CleanupCheck \<Longrightarrow> isLeader (drv s) \<Longrightarrow>
    sys_step s (s\<lparr>cleanup := Cleaning, history := history s @ [CleanupStart]\<rparr>)"
| cleaned: "cleanup s = Cleaning \<Longrightarrow> sys_step s (s\<lparr>cleanup := CleanupLoop\<rparr>)"
| cleanup_stop: "ctx_done s \<Longrightarrow> cleanup s = CleanupLoop \<Longrightarrow> sys_step s (s\<lparr>cleanup := CleanupDone\<rparr>)"

inductive_cases sys_stepE: "sys_step s s'"

definition sys_start :: "driver \<Rightarrow> system" where
  "sys_start d = \<lparr>drv = d, runner = RunLoop, maint = AwaitWake, cleanup = CleanupLoop, ctx_done = False, history = []\<rparr>"

inductive sys_reachable :: "driver \<Rightarrow> system \<Rightarrow> bool" for d where
  start: "sys_reachable d (sys_start d)"
| step: "sys_reachable d s \<Longrightarrow> sys_step s s' \<Longrightarrow> sys_reachable d s'"

text \<open>Without interference the two steps of an acquisition are \<open>acquireLeadership\<close>.\<close>

lemma acquire_steps:
  assumes "runner s = RunLoop" "\<not> isLeader (drv s)"
  shows "\<exists>s1. sys_step s s1 \<and>
    sys_step s1 (s\<lparr>drv := fst (acquireLeadership (drv s)), history := history s @ [Acquired]\<rparr>)"
proof (intro exI conjI)
  let ?s1 = "s\<lparr>drv := (drv s)\<lparr>isLeader := True, standbyLogged := False\<rparr>, runner := Signalling,
    history := history s @ [Acquired]\<rparr>"
  show "sys_step s ?s1" using assms by (rule acquire)
  have "sys_step ?s1 (?s1\<lparr>drv := (drv ?s1)\<lparr>maintWake := True\<rparr>, runner := RunLoop\<rparr>)"
    by (rule signal) simp
  also have "?s1\<lparr>drv := (drv ?s1)\<lparr>maintWake := True\<rparr>, runner := RunLoop\<rparr> =
      s\<lparr>drv := fst (acquireLeadership (drv s)), history := history s @ [Acquired]\<rparr>"
    using assms by (cases s) (simp add: acquireLeadership_def Let_def)
  finally show "sys_step ?s1 (s\<lparr>drv := fst (acquireLeadership (drv s)), history := history s @ [Acquired]\<rparr>)" .
qed

section \<open>Invariants\<close>

lemmas leadership_defs = acquireLeadership_def relinquishLeadership_def emitLeaderGauge_def Let_def

definition acquisitions :: "action list \<Rightarrow> nat" where
  "acquisitions h = length (filter (\<lambda>a. a = Acquired) h)"

definition is_relinquish :: "action \<Rightarrow> bool" where
  "is_relinquish a \<longleftrightarrow> (\<exists>why. a = Relinquished why)"

definition relinquishments :: "action list \<Rightarrow> nat" where
  "relinquishments h = length (filter is_relinquish h)"

lemma is_relinquish_simps [simp]:
  "is_relinquish (Relinquished why)" "\<not> is_relinquish Acquired" "\<not> is_relinquish MaintStart"
  "\<not> is_relinquish CleanupStart"
  by (simp_all add: is_relinquish_def)

lemmas history_defs = acquisitions_def relinquishments_def

text \<open>Work done for the leader is logged only after the leadership was held.\<close>

fun after_acquire :: "bool \<Rightarrow> action list \<Rightarrow> bool" where
  "after_acquire seen [] = True"
| "after_acquire seen (Acquired # h) = after_acquire True h"
| "after_acquire seen (Relinquished why # h) = after_acquire seen h"
| "after_acquire seen (a # h) = (seen \<and> after_acquire seen h)"

lemma after_acquire_snoc:
  "after_acquire seen (h @ [a]) \<longleftrightarrow>
     after_acquire seen h \<and> (a \<in> {MaintStart, CleanupStart} \<longrightarrow> seen \<or> Acquired \<in> set h)"
  by (induction seen h rule: after_acquire.induct) (cases a; auto)+

definition sys_inv :: "system \<Rightarrow> bool" where
  "sys_inv s \<longleftrightarrow>
     acquisitions (history s) = relinquishments (history s) + (if isLeader (drv s) then 1 else 0) \<and>
     (maintWake (drv s) \<longrightarrow> Acquired \<in> set (history s)) \<and>
     (runner s = Signalling \<longrightarrow> Acquired \<in> set (history s)) \<and>
     (maint s \<in> {MaintLoop, CheckLeader, Maintaining} \<longrightarrow> Acquired \<in> set (history s)) \<and>
     after_acquire False (history s)"

lemma acquisitions_pos: "0 < acquisitions h \<longleftrightarrow> Acquired \<in> set h"
  by (simp add: acquisitions_def filter_empty_conv)

lemma leader_acquired: "sys_inv s \<Longrightarrow> isLeader (drv s) \<Longrightarrow> Acquired \<in> set (history s)"
  by (simp add: sys_inv_def acquisitions_pos [symmetric])

lemma sys_inv_step [wf_pres]: "sys_step s s' \<Longrightarrow> sys_inv s \<Longrightarrow> sys_inv s'"
proof (induction rule: sys_step.induct)
  case (is_leader s)
  then have "Acquired \<in> set (history s)" by (blast intro: leader_acquired)
  with is_leader show ?case by (simp add: sys_inv_def history_defs after_acquire_snoc)
next
  case (cleanup_start s)
  then have "Acquired \<in> set (history s)" by (blast intro: leader_acquired)
  with cleanup_start show ?case by (simp add: sys_inv_def history_defs after_acquire_snoc)
qed (auto simp: sys_inv_def history_defs after_acquire_snoc leadership_defs)

lemma sys_inv_reachable:
  assumes "sys_reachable d s" "\<not> isLeader d" "\<not> maintWake d"
  shows "sys_inv s"
  using assms
proof (induction rule: sys_reachable.induct)
  case start
  then show ?case by (simp add: sys_inv_def sys_start_def history_defs)
next
  case (step s s')
  then show ?case by (blast intro: sys_inv_step)
qed

section \<open>Wake-ups\<close>

text \<open>Maintenance has started since the leadership was last acquired.\<close>

fun served :: "bool \<Rightarrow> action list \<Rightarrow> bool" where
  "served b [] = b"
| "served b (Acquired # h) = served False h"
| "served b (MaintStart # h) = served True h"
| "served b (a # h) = served b h"

lemma served_snoc [simp]:
  "served b (h @ [Acquired]) = False" "served b (h @ [MaintStart]) = True"
  "served b (h @ [Relinquished why]) = served b h" "served b (h @ [CleanupStart]) = served b h"
  by (induction b h rule: served.induct) simp_all

text \<open>A leader that has not been served has its token in the channel or about to be sent, or the
  goroutine is about to look at the flag, or has ended.\<close>

definition wake_inv :: "system \<Rightarrow> bool" where
  "wake_inv s \<longleftrightarrow> (isLeader (drv s) \<and> \<not> served True (history s) \<longrightarrow>
     maintWake (drv s) \<or> runner s = Signalling \<or> maint s = CheckLeader \<or> maint s = MaintDone)"

lemma wake_inv_step [wf_pres]: "sys_step s s' \<Longrightarrow> wake_inv s \<Longrightarrow> wake_inv s'"
  by (induction rule: sys_step.induct) (auto simp: wake_inv_def leadership_defs)

lemma wake_inv_reachable:
  assumes "sys_reachable d s"
  shows "wake_inv s"
  using assms
proof (induction rule: sys_reachable.induct)
  case start
  show ?case by (simp add: wake_inv_def sys_start_def)
qed (rule wake_inv_step)

text \<open>From every state of a running leader, its maintenance can start without a new acquisition.\<close>

definition can_serve :: "system \<Rightarrow> bool" where
  "can_serve s \<longleftrightarrow> (\<exists>s'. sys_step\<^sup>*\<^sup>* s s' \<and> served True (history s') \<and> isLeader (drv s') \<and>
     acquisitions (history s') = acquisitions (history s))"

lemma can_serve_step:
  "sys_step s s1 \<Longrightarrow> acquisitions (history s1) = acquisitions (history s) \<Longrightarrow> can_serve s1 \<Longrightarrow> can_serve s"
  unfolding can_serve_def by (metis converse_rtranclp_into_rtranclp)

lemma can_serve_now: "served True (history s) \<Longrightarrow> isLeader (drv s) \<Longrightarrow> can_serve s"
  unfolding can_serve_def by blast

lemma can_serve_check: "maint s = CheckLeader \<Longrightarrow> isLeader (drv s) \<Longrightarrow> can_serve s"
  by (rule can_serve_step [OF sys_step.is_leader]) (simp_all add: history_defs can_serve_now)

lemma can_serve_loop: "maint s = MaintLoop \<Longrightarrow> isLeader (drv s) \<Longrightarrow> can_serve s"
  by (rule can_serve_step [OF sys_step.loop_tick]) (simp_all add: can_serve_check)

lemma can_serve_token: "maint s = AwaitWake \<Longrightarrow> maintWake (drv s) \<Longrightarrow> isLeader (drv s) \<Longrightarrow> can_serve s"
  by (rule can_serve_step [OF sys_step.first_wake]) (simp_all add: history_defs can_serve_now)

lemma can_serve_leader:
  assumes "wake_inv s" "isLeader (drv s)" "maint s \<noteq> MaintDone"
  shows "can_serve s"
proof (cases "maint s")
  case AwaitWake
  show ?thesis
  proof (cases "served True (history s) \<or> maintWake (drv s)")
    case True
    then show ?thesis using assms(2) AwaitWake can_serve_now can_serve_token by blast
  next
    case False
    then have "runner s = Signalling" using assms AwaitWake by (auto simp: wake_inv_def)
    then show ?thesis
      by (rule can_serve_step [OF sys_step.signal]) (simp_all add: assms(2) AwaitWake can_serve_token)
  qed
next
  case Maintaining
  then show ?thesis by (rule can_serve_step [OF sys_step.maintained]) (simp_all add: assms(2) can_serve_loop)
qed (use assms can_serve_check can_serve_loop in simp_all)

end
