(* ===== verification/Pglg_Backoff.thy ===== *)
theory Pglg_Backoff
  imports Pglg_Prelude Go_Float
begin

text \<open>
  \<open>backoff.go\<close>: exponential delays with a cap and a jitter of 75 to 100 per cent. The
  computation is in \<open>float64\<close>: a number is a rational and \<open>fl\<close> rounds the exact result of each
  operation, as IEEE arithmetic does. What the bounds need of the rounding is \<open>rounding fl\<close>: it
  is monotone, leaves a rounded number alone, and is exact on the integers that a \<open>float64\<close>
  holds exactly and on their quarters; \<open>float64\<close> is such a rounding. A power that overflows to infinity is capped like any power beyond
  the maximum. \<open>rand.Float64\<close> is an argument in [0, 1).
\<close>

record backoff =
  initial :: duration
  max_delay :: duration
  multiplier :: rat
  attempt :: nat

definition rounding :: "(rat \<Rightarrow> rat) \<Rightarrow> bool" where
  "rounding fl \<longleftrightarrow> mono fl \<and> (\<forall>x. fl (fl x) = fl x) \<and>
     (\<forall>i. \<bar>i\<bar> \<le> 2 ^ 53 \<longrightarrow> fl (of_int i) = of_int i \<and> fl (of_int i / 4) = of_int i / 4)"

definition next_uncapped :: "(rat \<Rightarrow> rat) \<Rightarrow> backoff \<Rightarrow> rat" where
  "next_uncapped fl b = fl (fl (of_int (initial b)) * fl (multiplier b ^ attempt b))"

definition next_base :: "(rat \<Rightarrow> rat) \<Rightarrow> backoff \<Rightarrow> rat" where
  "next_base fl b =
     (let d = next_uncapped fl b
      in if d > fl (of_int (max_delay b)) then fl (of_int (max_delay b)) else d)"

text \<open>The delay and the backoff with its attempt counted.\<close>

definition next_delay :: "(rat \<Rightarrow> rat) \<Rightarrow> rat \<Rightarrow> backoff \<Rightarrow> duration \<times> backoff" where
  "next_delay fl rnd b =
     (let d = next_base fl b;
          jitter = fl (3/4 + fl (rnd * (1/4)))
      in (\<lfloor>fl (d * jitter)\<rfloor>, b\<lparr>attempt := attempt b + 1\<rparr>))"

definition reset_backoff :: "backoff \<Rightarrow> backoff" where
  "reset_backoff b = b\<lparr>attempt := 0\<rparr>"

text \<open>\<open>wait\<close>: the delay asked of the timer, the error when the context ends first (\<open>ctx_done\<close>
  holds its error), and the backoff afterwards.\<close>

definition wait :: "(rat \<Rightarrow> rat) \<Rightarrow> rat \<Rightarrow> go_error option \<Rightarrow> backoff
    \<Rightarrow> duration \<times> go_error option \<times> backoff" where
  "wait fl rnd ctx_done b = (case next_delay fl rnd b of (d, b') \<Rightarrow> (d, ctx_done, b'))"

section \<open>Bounds\<close>

lemma next_base_le: "next_base fl b \<le> fl (of_int (max_delay b))"
  by (simp add: next_base_def Let_def)

lemma next_base_le_uncapped: "next_base fl b \<le> next_uncapped fl b"
  by (simp add: next_base_def Let_def)

lemma next_base_fixed: "rounding fl \<Longrightarrow> fl (next_base fl b) = next_base fl b"
  by (simp add: next_base_def next_uncapped_def Let_def rounding_def)

lemma rounding_mono: "rounding fl \<Longrightarrow> x \<le> y \<Longrightarrow> fl x \<le> fl y"
  by (simp add: rounding_def mono_def)

lemma rounding_int: "rounding fl \<Longrightarrow> \<bar>i\<bar> \<le> 2 ^ 53 \<Longrightarrow> fl (of_int i) = of_int i"
  by (simp add: rounding_def)

lemma rounding_quarter: "rounding fl \<Longrightarrow> \<bar>i\<bar> \<le> 2 ^ 53 \<Longrightarrow> fl (of_int i / 4) = of_int i / 4"
  by (simp add: rounding_def)

text \<open>The rounding of IEEE double precision is one.\<close>

lemma float64_rounding: "rounding float64"
  unfolding rounding_def
proof (intro conjI allI impI)
  fix i :: int
  assume i: "\<bar>i\<bar> \<le> 2 ^ 53"
  show "float64 (of_int i) = of_int i" by (rule float64_exact [of _ 0 i]) (use i in simp_all)
  show "float64 (of_int i / 4) = of_int i / 4" by (rule float64_exact [of _ 2 i]) (use i in simp_all)
qed (rule float64_mono float64_idem)+

lemma rounding_consts [simp]:
  assumes "rounding fl"
  shows "fl 0 = 0" "fl 1 = 1" "fl (1/4) = 1/4" "fl (3/4) = 3/4"
  using rounding_int [OF assms, of 0] rounding_int [OF assms, of 1]
    rounding_quarter [OF assms, of 1] rounding_quarter [OF assms, of 3] by simp_all

lemma jitter_bounds:
  assumes fl: "rounding fl" and "0 \<le> rnd" "rnd < 1"
  shows "3/4 \<le> fl (3/4 + fl (rnd * (1/4)))" "fl (3/4 + fl (rnd * (1/4))) \<le> 1"
proof -
  note m = rounding_mono [OF fl]
  show "3/4 \<le> fl (3/4 + fl (rnd * (1/4)))"
    using m [of "3/4" "3/4 + fl (rnd * (1/4))"] m [of 0 "rnd * (1/4)"] assms by simp
  show "fl (3/4 + fl (rnd * (1/4))) \<le> 1"
    using m [of "3/4 + fl (rnd * (1/4))" 1] m [of "rnd * (1/4)" "1/4"] assms by simp
qed

lemma next_base_nonneg:
  assumes fl: "rounding fl" and "0 \<le> initial b" "0 \<le> max_delay b" "0 \<le> multiplier b"
  shows "0 \<le> next_base fl b"
proof -
  note m = rounding_mono [OF fl, of 0]
  have "0 \<le> fl (of_int (initial b)) * fl (multiplier b ^ attempt b)"
    using m [of "of_int (initial b)"] m [of "multiplier b ^ attempt b"] assms by simp
  then have "0 \<le> next_uncapped fl b" using m fl by (simp add: next_uncapped_def)
  then show ?thesis
    using m [of "of_int (max_delay b)"] assms by (simp add: next_base_def Let_def)
qed

lemma next_delay_bounds:
  assumes fl: "rounding fl" and rnd: "0 \<le> rnd" "rnd < 1"
    and b: "0 \<le> initial b" "0 \<le> max_delay b" "max_delay b \<le> 2 ^ 53" "0 \<le> multiplier b"
  shows "\<lfloor>fl (next_base fl b * (3/4))\<rfloor> \<le> fst (next_delay fl rnd b)"
    and "fst (next_delay fl rnd b) \<le> \<lfloor>next_base fl b\<rfloor>"
    and "0 \<le> fst (next_delay fl rnd b)"
    and "fst (next_delay fl rnd b) \<le> max_delay b"
proof -
  let ?d = "next_base fl b" and ?j = "fl (3/4 + fl (rnd * (1/4)))"
  note j = jitter_bounds [OF fl rnd] and m = rounding_mono [OF fl] and d0 = next_base_nonneg [OF fl b(1,2,4)]
  have f: "fst (next_delay fl rnd b) = \<lfloor>fl (?d * ?j)\<rfloor>" by (simp add: next_delay_def Let_def)
  show lower: "\<lfloor>fl (?d * (3/4))\<rfloor> \<le> fst (next_delay fl rnd b)"
    unfolding f using j(1) d0 by (intro floor_mono m mult_left_mono)
  have "fl (?d * ?j) \<le> fl (?d * 1)" using j(2) d0 by (intro m mult_left_mono)
  then show upper: "fst (next_delay fl rnd b) \<le> \<lfloor>?d\<rfloor>"
    unfolding f using next_base_fixed [OF fl, of b] by (intro floor_mono) simp
  have "0 \<le> fl (?d * (3/4))" using m [of 0 "?d * (3/4)"] d0 fl by simp
  with lower show "0 \<le> fst (next_delay fl rnd b)" by linarith
  have "?d \<le> of_int (max_delay b)"
    using next_base_le [of fl b] rounding_int [OF fl, of "max_delay b"] b by simp
  then have "\<lfloor>?d\<rfloor> \<le> max_delay b" by linarith
  with upper show "fst (next_delay fl rnd b) \<le> max_delay b" by linarith
qed

text \<open>With the driver's multiplier of two, the delay before jitter is the initial delay doubled
  once per attempt, up to the cap.\<close>

lemma next_base_doubling:
  assumes fl: "rounding fl" and b: "multiplier b = 2" "1 \<le> initial b" "0 \<le> max_delay b"
    and small: "initial b * 2 ^ attempt b \<le> 2 ^ 53" "max_delay b \<le> 2 ^ 53"
  shows "next_base fl b = of_int (min (initial b * 2 ^ attempt b) (max_delay b))"
proof -
  have "initial b * 1 \<le> initial b * 2 ^ attempt b" using b by (intro mult_left_mono) simp_all
  then have i: "initial b \<le> 2 ^ 53" using small by linarith
  have "1 * 2 ^ attempt b \<le> initial b * 2 ^ attempt b" using b by (intro mult_right_mono) simp_all
  then have p: "(2 :: int) ^ attempt b \<le> 2 ^ 53" using small by linarith
  note r = rounding_int [OF fl]
  have "fl (2 ^ attempt b) = 2 ^ attempt b" using r [of "2 ^ attempt b"] p by simp
  moreover have "fl (of_int (initial b)) = of_int (initial b)" using r i b by simp
  moreover have "fl (of_int (initial b) * 2 ^ attempt b) = of_int (initial b) * 2 ^ attempt b"
    using r [of "initial b * 2 ^ attempt b"] small b by simp
  ultimately have "next_uncapped fl b = of_int (initial b * 2 ^ attempt b)"
    using b by (simp add: next_uncapped_def)
  moreover have "fl (of_int (max_delay b)) = of_int (max_delay b)" using r small b by simp
  ultimately show ?thesis
    by (auto simp: next_base_def Let_def min_def simp del: of_int_mult of_int_power)
qed

end
