(* ===== verification/Pglg_Run.thy ===== *)
theory Pglg_Run
  imports Pglg_Delivery Pglg_Leadership Pglg_Backoff
begin

text \<open>
  \<open>runOnce\<close> and the reconnect loop of \<open>Run\<close>. One round of the loop is a session with everything
  the environment answers in it, followed by the wait the code chooses: a jittered fixed delay
  when the slot is busy, the exponential backoff after any other error. A session whose script
  ends while it is still streaming is an unfinished one; a process that dies then leaves the
  world as it is, so the same function models crashes.
\<close>

section \<open>One session\<close>

record session_env =
  se_query :: "go_error option"              \<comment> \<open>failure of the cursor query\<close>
  se_connect :: "string \<Rightarrow> go_error option"
  se_identify :: "go_error option"
  se_start :: "string \<Rightarrow> lsn \<Rightarrow> string list \<Rightarrow> go_error option"
  se_close :: "walConn \<Rightarrow> go_error option"
  se_now :: gotime
  se_rounds :: "iter_env list"

datatype session_result =
    Failed go_error      \<comment> \<open>\<open>runOnce\<close> returned this error\<close>
  | Streaming            \<comment> \<open>still in the receive loop at the end of the script\<close>

text \<open>\<open>defer wal.close(ctx)\<close>: it runs when \<open>runOnce\<close> returns, and its error is dropped.\<close>

definition deferred_close :: "session_env \<Rightarrow> walConsumer \<Rightarrow> world \<Rightarrow> world" where
  "deferred_close se wc w = (case close (se_close se) wc of (_, evs) \<Rightarrow> conn_log evs w)"

definition runOnce :: "lsn_api \<Rightarrow> wal_api \<Rightarrow> session_env \<Rightarrow> driver \<Rightarrow> world
    \<Rightarrow> session_result \<times> driver \<times> world" where
  "runOnce la api se d w =
     (case readCursor la (se_query se) d (cursors w) of
        Inl err \<Rightarrow> (Failed (Wrapf ''pglg: read cursor: %w'' [] err), d, w)
      | Inr startLSN \<Rightarrow>
        (case connect (se_connect se) (ConnString (cfg d))
                (newWALConsumer (SlotName (cfg d)) (PublicationName (cfg d))) of
           (Some err, _) \<Rightarrow> (Failed err, d, w)
         | (None, wc) \<Rightarrow>
           (let w1 = conn_log [Opened (replication_string (ConnString (cfg d)))] w in
            case startStreaming (se_identify se) (se_start se) startLSN wc of
              (Some err, wc') \<Rightarrow> (Failed err, d, deferred_close se wc' w1)
            | (None, wc') \<Rightarrow>
              (case acquireLeadership d of
                 (d', ms) \<Rightarrow>
                   (case processWALStream la api d' (se_now se) (se_rounds se) wc' startLSN (emit ms w1) of
                      Returned err st \<Rightarrow> (Failed err, d', deferred_close se (wal st) (world st))
                    | Running st \<Rightarrow> (Streaming, d', world st))))))"

section \<open>The reconnect loop\<close>

record round_env =
  re_session :: session_env
  re_ctx :: "go_error option"        \<comment> \<open>\<open>ctx.Err()\<close> after the session\<close>
  re_int64n :: "int \<Rightarrow> int"          \<comment> \<open>\<open>rand.Int64N\<close>\<close>
  re_float64 :: rat                  \<comment> \<open>\<open>rand.Float64\<close>\<close>
  re_wait :: "go_error option"       \<comment> \<open>\<open>ctx.Err()\<close> when the context ends before the timer\<close>

record run_state =
  run_driver :: driver
  run_backoff :: backoff
  run_world :: world
  run_waits :: "duration list"       \<comment> \<open>the durations asked of the timers\<close>
  run_pools :: "string list"         \<comment> \<open>the open connection pools\<close>

datatype run_result =
    Looping run_state                      \<comment> \<open>before the next session\<close>
  | InSession run_state
  | RunReturned "go_error option" run_state
  | Panicked run_state                     \<comment> \<open>\<open>rand.Int64N\<close> of a number that is not positive\<close>

definition new_backoff :: "Config \<Rightarrow> backoff" where
  "new_backoff c = \<lparr>initial = ReconnectInitialDelay c, max_delay = ReconnectMaxDelay c,
     multiplier = 2, attempt = 0\<rparr>"

definition jitter_range :: "Config \<Rightarrow> int" where
  "jitter_range c = wrap64 (2 * SlotBusyRetryJitter c + 1)"

text \<open>The branch of a busy slot.\<close>

definition slot_busy_wait :: "round_env \<Rightarrow> run_state \<Rightarrow> run_result" where
  "slot_busy_wait re rs =
     (case relinquishLeadership ''slot_busy'' (run_driver rs) of
        (d, ms) \<Rightarrow>
          (let d1 = d\<lparr>standbyLogged := True\<rparr>;
               c = cfg d1;
               rs1 = rs\<lparr>run_driver := d1, run_world := emit ms (run_world rs)\<rparr>;
               n = jitter_range c
           in if n \<le> 0 then Panicked rs1
              else
                (let jitter = wrap64 (re_int64n re n - SlotBusyRetryJitter c);
                     rs2 = rs1\<lparr>run_waits := run_waits rs1 @ [wrap64 (SlotBusyRetryDelay c + jitter)]\<rparr>
                 in case re_wait re of
                      Some err \<Rightarrow> RunReturned (Some err) rs2
                    | None \<Rightarrow> Looping rs2)))"

definition backoff_wait :: "(rat \<Rightarrow> rat) \<Rightarrow> round_env \<Rightarrow> run_state \<Rightarrow> run_result" where
  "backoff_wait fl re rs =
     (let rs1 = rs\<lparr>run_world := emit [Incr ''jack.courier.wal.reconnect'' []] (run_world rs)\<rparr> in
      case wait fl (re_float64 re) (re_wait re) (run_backoff rs1) of
        (t, waitErr, bo) \<Rightarrow>
          (let rs2 = rs1\<lparr>run_backoff := bo, run_waits := run_waits rs1 @ [t]\<rparr> in
           case waitErr of
             Some err \<Rightarrow> RunReturned (Some err) rs2
           | None \<Rightarrow> Looping rs2))"

text \<open>The rest of a round, after a session has returned an error.\<close>

definition after_session :: "(rat \<Rightarrow> rat) \<Rightarrow> round_env \<Rightarrow> go_error \<Rightarrow> run_state \<Rightarrow> run_result" where
  "after_session fl re err rs =
     (if re_ctx re \<noteq> None then
        (case relinquishLeadership ''shutdown'' (run_driver rs) of
           (d, ms) \<Rightarrow>
             RunReturned (re_ctx re) (rs\<lparr>run_driver := d, run_world := emit ms (run_world rs)\<rparr>))
      else if errors_Is err ErrSlotBusy then slot_busy_wait re rs
      else backoff_wait fl re rs)"

definition run_round :: "(rat \<Rightarrow> rat) \<Rightarrow> lsn_api \<Rightarrow> wal_api \<Rightarrow> round_env \<Rightarrow> run_state \<Rightarrow> run_result" where
  "run_round fl la api re rs =
     (case runOnce la api (re_session re) (run_driver rs) (run_world rs) of
        (res, d, w) \<Rightarrow>
          (let rs1 = rs\<lparr>run_driver := d, run_world := w\<rparr> in
           case res of
             Streaming \<Rightarrow> InSession rs1
           | Failed err \<Rightarrow> after_session fl re err rs1))"

fun run_loop :: "(rat \<Rightarrow> rat) \<Rightarrow> lsn_api \<Rightarrow> wal_api \<Rightarrow> round_env list \<Rightarrow> run_state \<Rightarrow> run_result" where
  "run_loop fl la api [] rs = Looping rs"
| "run_loop fl la api (re # res) rs =
     (case run_round fl la api re rs of
        Looping rs' \<Rightarrow> run_loop fl la api res rs'
      | r \<Rightarrow> r)"

text \<open>The deferred function of \<open>Run\<close>: it runs when \<open>Run\<close> returns, and also when it panics.\<close>

definition close_pools :: "driver \<Rightarrow> string list \<Rightarrow> string list" where
  "close_pools d opened = fold remove1 (pool d # map rp_pool (replicaPools d)) opened"

definition Run :: "(rat \<Rightarrow> rat) \<Rightarrow> lsn_api \<Rightarrow> wal_api \<Rightarrow> round_env list \<Rightarrow> driver \<Rightarrow> string list \<Rightarrow> world \<Rightarrow> run_result" where
  "Run fl la api res d opened w =
     (case run_loop fl la api res
             \<lparr>run_driver = d, run_backoff = new_backoff (cfg d), run_world = w, run_waits = [], run_pools = opened\<rparr> of
        RunReturned e rs \<Rightarrow> RunReturned e (rs\<lparr>run_pools := close_pools (run_driver rs) (run_pools rs)\<rparr>)
      | Panicked rs \<Rightarrow> Panicked (rs\<lparr>run_pools := close_pools (run_driver rs) (run_pools rs)\<rparr>)
      | r \<Rightarrow> r)"

primrec run_result_state :: "run_result \<Rightarrow> run_state" where
  "run_result_state (Looping rs) = rs"
| "run_result_state (InSession rs) = rs"
| "run_result_state (RunReturned e rs) = rs"
| "run_result_state (Panicked rs) = rs"

text \<open>
  An invariant of the reconnect loop: what one round keeps, the loop keeps. \<open>E\<close> is what is assumed
  of the environment in a round, in the state the round starts from.
\<close>

locale run_invariant =
  fixes fl :: "rat \<Rightarrow> rat" and la :: lsn_api and api :: wal_api
    and J :: "run_result \<Rightarrow> bool" and E :: "round_env \<Rightarrow> run_state \<Rightarrow> bool"
  assumes round: "J (Looping rs) \<Longrightarrow> E re rs \<Longrightarrow> J (run_round fl la api re rs)"
begin

lemma loop_inv:
  assumes "J (Looping rs)"
    and "\<And>pre re suf rs'. res = pre @ re # suf \<Longrightarrow> run_loop fl la api pre rs = Looping rs' \<Longrightarrow> E re rs'"
  shows "J (run_loop fl la api res rs)"
  using assms
proof (induction res arbitrary: rs)
  case (Cons re res)
  have J: "J (run_round fl la api re rs)" using round [OF Cons.prems(1)] Cons.prems(2) [of "[]" re res rs] by simp
  show ?case
  proof (cases "run_round fl la api re rs")
    case (Looping rs')
    have "E re' rs''" if "res = pre @ re' # suf" "run_loop fl la api pre rs' = Looping rs''" for pre re' suf rs''
      using Cons.prems(2) [of "re # pre" re' suf rs''] that Looping by simp
    then show ?thesis using Cons.IH [of rs'] J Looping by simp
  qed (use J in simp_all)
qed simp

end

section \<open>Sessions\<close>

lemma acquire_cfg [simp]: "cfg (fst (acquireLeadership d)) = cfg d"
  by (simp add: acquireLeadership_def Let_def)

lemma relinquish_cfg [simp]: "cfg (fst (relinquishLeadership why d)) = cfg d"
  by (simp add: relinquishLeadership_def Let_def)

text \<open>The consumer of a session that has started streaming.\<close>

definition started_consumer :: "Config \<Rightarrow> lsn \<Rightarrow> walConsumer" where
  "started_consumer c l = \<lparr>conn = Some PgConn, slotName = SlotName c,
     publicationName = PublicationName c, relations = Map.empty, clientXLogPos = l, flushLSN = l\<rparr>"

lemma started_consumer_fields [simp]:
  "relations (started_consumer c l) = Map.empty" "clientXLogPos (started_consumer c l) = l"
  "flushLSN (started_consumer c l) = l" "conn (started_consumer c l) = Some PgConn"
  by (simp_all add: started_consumer_def)

text \<open>The world when the connection is open.\<close>

abbreviation conn_opened :: "driver \<Rightarrow> world \<Rightarrow> world" where
  "conn_opened d w \<equiv> conn_log [Opened (replication_string (ConnString (cfg d)))] w"

text \<open>The receive loop of a session, for the start position it read.\<close>

definition session_stream :: "lsn_api \<Rightarrow> wal_api \<Rightarrow> session_env \<Rightarrow> driver \<Rightarrow> lsn \<Rightarrow> world \<Rightarrow> stream loop_result" where
  "session_stream la api se d start w =
     (let (d', ms) = acquireLeadership d
      in processWALStream la api d' (se_now se) (se_rounds se) (started_consumer (cfg d) start) start
           (emit ms (conn_opened d w)))"

text \<open>What a session does to the log of connections besides the receive loop.\<close>

definition session_close :: "session_env \<Rightarrow> stream loop_result \<Rightarrow> conn_event list" where
  "session_close se r = (case r of Running st \<Rightarrow> [] | Returned err st \<Rightarrow> snd (close (se_close se) (wal st)))"

lemma runOnce_cases:
  assumes "runOnce la api se d w = (res, d', w')"
  obtains (early) err evs where "res = Failed err" "d' = d" "w' = conn_log evs w"
      "evs = [] \<or> evs = [Opened (replication_string (ConnString (cfg d))), Closed]"
  | (streamed) start where "readCursor la (se_query se) d (cursors w) = Inr start"
      "d' = fst (acquireLeadership d)"
      "w' = conn_log (session_close se (session_stream la api se d start w))
         (world (result_state (session_stream la api se d start w)))"
      "res = (case session_stream la api se d start w of Running st \<Rightarrow> Streaming | Returned err st \<Rightarrow> Failed err)"
proof (cases "readCursor la (se_query se) d (cursors w)")
  case (Inl e)
  then show thesis using assms by (intro early [of _ "[]"]) (auto simp: runOnce_def)
next
  case start: (Inr start)
  let ?wc = "newWALConsumer (SlotName (cfg d)) (PublicationName (cfg d))"
  show thesis
  proof (cases "se_connect se (replication_string (ConnString (cfg d)))")
    case (Some e)
    then show thesis using assms start by (intro early [of _ "[]"]) (auto simp: runOnce_def connect_def)
  next
    case con: None
    obtain err wc where st: "startStreaming (se_identify se) (se_start se) start (?wc\<lparr>conn := Some PgConn\<rparr>) = (err, wc)"
      by fastforce
    have c: "conn wc = Some PgConn" "err = None \<Longrightarrow> wc = started_consumer (cfg d) start"
      using st by (auto simp: startStreaming_def newWALConsumer_def started_consumer_def split: option.splits)
    show thesis
    proof (cases err)
      case (Some e)
      then show thesis
        using assms start con st c
        by (intro early [of e "[Opened (replication_string (ConnString (cfg d))), Closed]"])
          (auto simp: runOnce_def connect_def deferred_close_def close_def conn_log_def Let_def)
    next
      case None
      then show thesis
        using assms start con st c
        by (intro streamed [of start])
          (auto simp: runOnce_def connect_def session_stream_def session_close_def deferred_close_def Let_def
            split: loop_result.splits prod.splits)
    qed
  qed
qed

lemma cfg_runOnce:
  assumes "runOnce la api se d w = (res, d', w')"
  shows "cfg d' = cfg d"
  using assms
proof (cases rule: runOnce_cases)
  case (streamed start)
  then show ?thesis by simp
qed simp

text \<open>The tables and predicates of the delivery theory depend on the driver only through its
  configuration.\<close>

lemma cfg_cong:
  assumes "cfg d' = cfg d"
  shows "settled d' = settled d" "covered d' = covered d" "world_le d' = world_le d"
  using assms by (auto simp: fun_eq_iff settled_def covered_def world_le_def)

lemma conn_log_delivery [simp]:
  "settled d (conn_log evs w) = settled d w" "covered d L (conn_log evs w) = covered d L w"
  "world_le d w0 (conn_log evs w) = world_le d w0 w" "world_le d (conn_log evs w) w1 = world_le d w w1"
  by (auto simp: fun_eq_iff settled_def covered_def world_le_def)

section \<open>What a session is sent\<close>

text \<open>The part of the server's log a session starting at \<open>start\<close> is sent.\<close>

definition pending_log :: "lsn \<Rightarrow> (lsn \<times> parsedInsert list) list \<Rightarrow> (lsn \<times> parsedInsert list) list" where
  "pending_log start L = filter (\<lambda>(l, rows). start < l) L"

text \<open>
  What is assumed of the server in a session. It receives the committed transactions after its
  start position, in order and up to some point; and whenever the loop is between transactions,
  the received position lies before the commits that are still to come.
\<close>

definition server_faithful :: "lsn_api \<Rightarrow> wal_api \<Rightarrow> (lsn \<times> parsedInsert list) list \<Rightarrow> session_env
    \<Rightarrow> driver \<Rightarrow> world \<Rightarrow> bool" where
  "server_faithful la api L se d w \<longleftrightarrow>
     (\<forall>start. readCursor la (se_query se) d (cursors w) = Inr start \<longrightarrow>
        received_prefix (pending_log start L) (result_state (session_stream la api se d start w)) \<and>
        (\<forall>n < length (se_rounds se). \<forall>st.
           session_stream la api (se\<lparr>se_rounds := take n (se_rounds se)\<rparr>) d start w = Running st \<longrightarrow>
           honest_position (pending_log start L) st))"

lemma session_world_le:
  assumes "lsn_api_ok la"
  shows "world_le d w (world (result_state (session_stream la api se d start w)))"
proof -
  obtain d' ms where a: "acquireLeadership d = (d', ms)" by fastforce
  have c: "cfg d' = cfg d" using acquire_cfg [of d] a by simp
  let ?st = "stream_start d' (se_now se) (started_consumer (cfg d) start) start (emit ms (conn_opened d w))"
  have "world_le d' w (world ?st)" by (simp add: stream_start_def world_le_def)
  then have "result_holds (\<lambda>st. lsn_api_ok la \<longrightarrow> world_le d' w (world st))
      (\<lambda>st. lsn_api_ok la \<longrightarrow> world_le d' w (world st)) (stream_loop la api d' (se_rounds se) ?st)"
    by (intro growth.stream_inv) simp_all
  then show ?thesis
    using assms by (simp add: result_holds_state session_stream_def a processWALStream_def cfg_cong(3) [OF c])
qed

section \<open>Waiting and leadership\<close>

lemma run_round_backoff:
  assumes "run_round fl la api re rs = r"
  shows "run_backoff (run_result_state r) = run_backoff rs \<or>
    run_backoff (run_result_state r) = (run_backoff rs)\<lparr>attempt := attempt (run_backoff rs) + 1\<rparr>"
  using assms
  by (auto simp: run_round_def after_session_def slot_busy_wait_def backoff_wait_def wait_def next_delay_def Let_def
      split: prod.splits session_result.splits option.splits if_splits)

interpretation attempts: run_invariant fl la api "\<lambda>r. n \<le> attempt (run_backoff (run_result_state r))" "\<lambda>_ _. True"
  for fl la api n
proof unfold_locales
  fix rs re
  assume "n \<le> attempt (run_backoff (run_result_state (Looping rs)))"
  with run_round_backoff [OF refl, of fl la api re rs]
  show "n \<le> attempt (run_backoff (run_result_state (run_round fl la api re rs)))" by auto
qed

lemma run_loop_backoff_mono:
  "attempt (run_backoff rs) \<le> attempt (run_backoff (run_result_state (run_loop fl la api res rs)))"
  by (rule attempts.loop_inv) simp_all

lemma slot_busy_delay:
  assumes r: "\<And>n. 0 < n \<Longrightarrow> 0 \<le> re_int64n re n \<and> re_int64n re n < n"
    and j: "0 < SlotBusyRetryJitter (cfg (run_driver rs))" "SlotBusyRetryJitter (cfg (run_driver rs)) < 2 ^ 62"
    and d: "0 < SlotBusyRetryDelay (cfg (run_driver rs))" "SlotBusyRetryDelay (cfg (run_driver rs)) < 2 ^ 62"
  shows "\<exists>t. run_waits (run_result_state (slot_busy_wait re rs)) = run_waits rs @ [t] \<and>
      \<bar>t - SlotBusyRetryDelay (cfg (run_driver rs))\<bar> \<le> SlotBusyRetryJitter (cfg (run_driver rs)) \<and>
      (\<forall>s. slot_busy_wait re rs \<noteq> Panicked s)"
proof -
  let ?c = "cfg (run_driver rs)"
  obtain dd ms where a: "relinquishLeadership ''slot_busy'' (run_driver rs) = (dd, ms)" by fastforce
  have c: "cfg dd = ?c" using relinquish_cfg [of "''slot_busy''" "run_driver rs"] a by simp
  have n: "jitter_range ?c = 2 * SlotBusyRetryJitter ?c + 1"
    using j by (simp add: jitter_range_def)
  define x where "x = re_int64n re (2 * SlotBusyRetryJitter ?c + 1)"
  have x: "0 \<le> x" "x < 2 * SlotBusyRetryJitter ?c + 1"
    using r [of "2 * SlotBusyRetryJitter ?c + 1"] j by (simp_all add: x_def)
  have w: "wrap64 (x - SlotBusyRetryJitter ?c) = x - SlotBusyRetryJitter ?c"
    "wrap64 (SlotBusyRetryDelay ?c + (x - SlotBusyRetryJitter ?c)) = SlotBusyRetryDelay ?c + (x - SlotBusyRetryJitter ?c)"
    using x j d by simp_all
  show ?thesis
    using n w x j
    by (auto simp: slot_busy_wait_def a c Let_def x_def [symmetric] split: option.splits
        intro!: exI [of _ "SlotBusyRetryDelay ?c + (x - SlotBusyRetryJitter ?c)"])
qed

section \<open>Pools\<close>

lemma leadership_pools [simp]:
  "pool (fst (acquireLeadership d)) = pool d" "replicaPools (fst (acquireLeadership d)) = replicaPools d"
  "pool (fst (relinquishLeadership why d)) = pool d" "replicaPools (fst (relinquishLeadership why d)) = replicaPools d"
  by (simp_all add: acquireLeadership_def relinquishLeadership_def Let_def)

lemma runOnce_pools:
  assumes "runOnce la api se d w = (res, d', w')"
  shows "pool d' = pool d \<and> replicaPools d' = replicaPools d"
  using assms by (cases rule: runOnce_cases) simp_all

definition same_pools :: "run_state \<Rightarrow> run_state \<Rightarrow> bool" where
  "same_pools rs rs' \<longleftrightarrow> pool (run_driver rs') = pool (run_driver rs) \<and>
     replicaPools (run_driver rs') = replicaPools (run_driver rs) \<and> run_pools rs' = run_pools rs"

lemma slot_busy_pools: "same_pools rs (run_result_state (slot_busy_wait re rs))"
  using leadership_pools(3,4) [of "''slot_busy''" "run_driver rs"]
  by (cases "relinquishLeadership ''slot_busy'' (run_driver rs)")
    (auto simp: slot_busy_wait_def same_pools_def Let_def split: option.splits)

lemma backoff_pools: "same_pools rs (run_result_state (backoff_wait fl re rs))"
  by (auto simp: backoff_wait_def same_pools_def Let_def split: option.splits prod.splits)

text \<open>Every connection that was opened is closed, up to \<open>n\<close> that are still open.\<close>

definition open_connections :: "world \<Rightarrow> int" where
  "open_connections w = int (length (filter (\<lambda>e. e \<noteq> Closed) (connections w))) -
     int (length (filter (\<lambda>e. e = Closed) (connections w)))"

lemma open_connections_simps [simp]:
  "open_connections (emit ms w) = open_connections w"
  "open_connections (conn_log evs w) = open_connections w +
     (int (length (filter (\<lambda>e. e \<noteq> Closed) evs)) - int (length (filter (\<lambda>e. e = Closed) evs)))"
  by (simp_all add: open_connections_def)

lemma runOnce_connections:
  assumes "runOnce la api se d w = (res, d', w')"
  shows "open_connections w' = open_connections w + (if res = Streaming then 1 else 0)"
  using assms
proof (cases rule: runOnce_cases)
  case (early err evs)
  then show ?thesis by auto
next
  case (streamed start)
  obtain d1 ms where a: "acquireLeadership d = (d1, ms)" by fastforce
  let ?w = "emit ms (conn_opened d w)"
  have "linked (connections ?w) (stream_start d1 (se_now se) (started_consumer (cfg d) start) start ?w)"
    by (simp add: linked_def stream_start_def)
  then have "result_holds (linked (connections ?w)) (linked (connections ?w)) (session_stream la api se d start w)"
    unfolding session_stream_def processWALStream_def a by (simp only: split_conv Let_def) (intro connection.stream_inv; simp)
  then show ?thesis
    using streamed by (cases "session_stream la api se d start w")
      (simp_all add: linked_def open_connections_def session_close_def close_def)
qed

lemma after_session_pools: "same_pools rs (run_result_state (after_session fl re err rs))"
  using slot_busy_pools [of rs re] backoff_pools [of rs fl re] leadership_pools(3,4) [of "''shutdown''" "run_driver rs"]
  by (cases "relinquishLeadership ''shutdown'' (run_driver rs)") (auto simp: after_session_def same_pools_def)

lemma run_round_pools: "same_pools rs (run_result_state (run_round fl la api re rs))"
proof -
  obtain res d w where r: "runOnce la api (re_session re) (run_driver rs) (run_world rs) = (res, d, w)"
    using prod_cases3 by blast
  let ?rs = "rs\<lparr>run_driver := d, run_world := w\<rparr>"
  have "same_pools rs ?rs" using runOnce_pools [OF r] by (simp add: same_pools_def)
  moreover have "same_pools ?rs (run_result_state (run_round fl la api re rs))"
    using after_session_pools [of ?rs fl re]
    by (auto simp: run_round_def r same_pools_def Let_def split: session_result.splits)
  ultimately show ?thesis by (simp add: same_pools_def)
qed

interpretation pools: run_invariant fl la api "\<lambda>r. same_pools rs (run_result_state r)" "\<lambda>_ _. True"
  for fl la api rs
  using run_round_pools by unfold_locales (simp add: same_pools_def)

lemma run_loop_pools: "same_pools rs (run_result_state (run_loop fl la api res rs))"
  by (rule pools.loop_inv) (simp_all add: same_pools_def)

text \<open>The connections: open exactly while a session streams.\<close>

definition connections_are :: "int \<Rightarrow> run_result \<Rightarrow> bool" where
  "connections_are n r \<longleftrightarrow> open_connections (run_world (run_result_state r)) =
     n + (case r of InSession rs \<Rightarrow> 1 | _ \<Rightarrow> 0)"

lemma after_session_connections: "connections_are (open_connections (run_world rs)) (after_session fl re err rs)"
  by (auto simp: after_session_def slot_busy_wait_def backoff_wait_def connections_are_def Let_def
      split: prod.splits option.splits)

interpretation connection_count: run_invariant fl la api "connections_are n" "\<lambda>_ _. True"
  for fl la api n
proof unfold_locales
  fix rs :: run_state and re :: round_env
  obtain res d w where r: "runOnce la api (re_session re) (run_driver rs) (run_world rs) = (res, d, w)"
    using prod_cases3 by blast
  assume "connections_are n (Looping rs)"
  then show "connections_are n (run_round fl la api re rs)"
    using runOnce_connections [OF r] after_session_connections [of "rs\<lparr>run_driver := d, run_world := w\<rparr>" fl re]
    by (auto simp: run_round_def r connections_are_def Let_def split: session_result.splits)
qed

lemma fold_remove1_self: "fold remove1 xs xs = []"
proof -
  have "mset (fold remove1 xs xs) = {#}" by (simp add: mset_fold_remove1)
  then show ?thesis by (simp only: mset_zero_iff)
qed

lemma Run_releases:
  assumes "Run fl la api res d (pool d # map rp_pool (replicaPools d)) w \<in> {RunReturned e rs, Panicked rs}"
  shows "run_pools rs = []" "open_connections (run_world rs) = open_connections w"
proof -
  let ?rs0 = "\<lparr>run_driver = d, run_backoff = new_backoff (cfg d), run_world = w, run_waits = [],
    run_pools = pool d # map rp_pool (replicaPools d)\<rparr>"
  have c: "connections_are (open_connections w) (run_loop fl la api res ?rs0)"
    by (rule connection_count.loop_inv) (simp_all add: connections_are_def)
  show "open_connections (run_world rs) = open_connections w"
    using assms c by (cases "run_loop fl la api res ?rs0") (auto simp: Run_def connections_are_def)
  show "run_pools rs = []"
    using assms run_loop_pools [of ?rs0 fl la api res] fold_remove1_self [of "pool d # map rp_pool (replicaPools d)"]
    by (cases "run_loop fl la api res ?rs0") (auto simp: Run_def same_pools_def close_pools_def)
qed

section \<open>Rounds that end with an error\<close>

text \<open>The server's refusal of a slot that is in use reaches \<open>Run\<close> as the slot-busy error, before any
  state was changed.\<close>

lemma slot_busy_round:
  assumes "readCursor la (se_query (re_session re)) (run_driver rs) (cursors (run_world rs)) = Inr start"
    and "\<And>c. se_connect (re_session re) c = None" "se_identify (re_session re) = None"
    and "\<And>slot l args. se_start (re_session re) slot l args = Some e" "errors_As_PgError e = Some ObjectInUse"
    and "re_ctx re = None"
  shows "run_round fl la api re rs = slot_busy_wait re
    (rs\<lparr>run_world := conn_log [Opened (replication_string (ConnString (cfg (run_driver rs)))), Closed] (run_world rs)\<rparr>)"
  using assms
  by (simp add: run_round_def runOnce_def connect_def startStreaming_def newWALConsumer_def
      mapStartReplicationError_def after_session_def deferred_close_def close_def conn_log_def Let_def)

lemma slot_busy_wait_state:
  assumes "\<And>s. slot_busy_wait re rs \<noteq> Panicked s"
  shows "\<exists>rs'. slot_busy_wait re rs = (case re_wait re of None \<Rightarrow> Looping rs' | Some err \<Rightarrow> RunReturned (Some err) rs') \<and>
    \<not> isLeader (run_driver rs') \<and> run_backoff rs' = run_backoff rs \<and>
    cursors (run_world rs') = cursors (run_world rs) \<and> submissions (run_world rs') = submissions (run_world rs)"
proof -
  obtain d ms where a: "relinquishLeadership ''slot_busy'' (run_driver rs) = (d, ms)" by fastforce
  then have l: "\<not> isLeader d" by (auto simp: relinquishLeadership_def Let_def split: if_splits)
  have "0 < jitter_range (cfg d)"
  proof (rule ccontr)
    assume "\<not> 0 < jitter_range (cfg d)"
    then have "\<exists>s. slot_busy_wait re rs = Panicked s" by (simp add: slot_busy_wait_def a Let_def)
    with assms show False by blast
  qed
  then show ?thesis using l by (auto simp: slot_busy_wait_def a Let_def emit_def split: option.splits)
qed

lemma stream_error_round:
  assumes "runOnce la api (re_session re) (run_driver rs) (run_world rs) = (Failed err, d, w)"
    and "\<not> errors_Is err ErrSlotBusy" "re_ctx re = None"
  shows "\<exists>rs'. run_round fl la api re rs = (case re_wait re of None \<Rightarrow> Looping rs' | Some e \<Rightarrow> RunReturned (Some e) rs') \<and>
    run_driver rs' = d \<and> attempt (run_backoff rs') = attempt (run_backoff rs) + 1"
  using assms
  by (auto simp: run_round_def after_session_def backoff_wait_def wait_def next_delay_def Let_def split: option.splits)

section \<open>The driver in the loop\<close>

text \<open>The loop keeps the driver well-formed and its configuration; with the jitter below \<open>2 ^ 62\<close> it
  never panics.\<close>

definition driver_kept :: "driver \<Rightarrow> run_result \<Rightarrow> bool" where
  "driver_kept d r \<longleftrightarrow> cfg (run_driver (run_result_state r)) = cfg d \<and> pool (run_driver (run_result_state r)) = pool d \<and>
     replicaPools (run_driver (run_result_state r)) = replicaPools d \<and>
     (0 < SlotBusyRetryJitter (cfg d) \<longrightarrow> SlotBusyRetryJitter (cfg d) < 2 ^ 62 \<longrightarrow> (\<forall>rs. r \<noteq> Panicked rs))"

lemma driver_kept_ok: "driver_kept d r \<Longrightarrow> driver_ok (run_driver (run_result_state r)) = driver_ok d"
  by (simp add: driver_kept_def driver_ok_def)

lemma after_session_driver: "driver_kept (run_driver rs) (after_session fl re err rs)"
  by (auto simp: driver_kept_def after_session_def slot_busy_wait_def backoff_wait_def relinquishLeadership_def
      jitter_range_def Let_def split: prod.splits option.splits if_splits)

interpretation driver_state: run_invariant fl la api "driver_kept d" "\<lambda>_ _. True"
  for fl la api d
proof unfold_locales
  fix rs :: run_state and re :: round_env
  obtain res d' w where r: "runOnce la api (re_session re) (run_driver rs) (run_world rs) = (res, d', w)"
    using prod_cases3 by blast
  assume "driver_kept d (Looping rs)"
  then show "driver_kept d (run_round fl la api re rs)"
    using runOnce_pools [OF r] cfg_runOnce [OF r] after_session_driver [of "rs\<lparr>run_driver := d', run_world := w\<rparr>" fl re]
    by (auto simp: driver_kept_def run_round_def r Let_def split: session_result.splits)
qed

lemma Run_driver: "driver_kept d (Run fl la api res d opened w)"
proof -
  let ?rs0 = "\<lparr>run_driver = d, run_backoff = new_backoff (cfg d), run_world = w, run_waits = [], run_pools = opened\<rparr>"
  have "driver_kept d (run_loop fl la api res ?rs0)"
    by (rule driver_state.loop_inv) (simp_all add: driver_kept_def)
  then show ?thesis by (cases "run_loop fl la api res ?rs0") (auto simp: Run_def driver_kept_def)
qed

end
