(* ===== verification/Pglg_Deployment.thy ===== *)
theory Pglg_Deployment
  imports Pglg_Run
begin

text \<open>
  Several driver processes on one replication slot, as in a deployment with standbys. Each process
  runs the loop of \<open>Run\<close>; its steps are the parts of \<open>run_round\<close> between which another process
  may act: reading the cursor, connecting, starting to stream, one round of the receive loop, the
  reaction to an error, a round of the cleanup of dead letters, and a crash. They are the
  definitions of the earlier theories, applied to the one world the processes share. So a process may
  start from a cursor it read before another one moved it, and a cleanup may fall between any two
  rounds of a session.

  The first part shows that the receive loop does not depend on what the dead letter table holds:
  it only appends to it. With this, and a log of the entries cleanups removed, the invariants of a
  session carry over to the deployment.
\<close>

section \<open>The receive loop and the dead letter table\<close>

text \<open>The world with entries put before those of the dead letter tables.\<close>

definition prepend :: "dlq_rows \<Rightarrow> world \<Rightarrow> world" where
  "prepend X w = w\<lparr>dlqs := (\<lambda>t. X t @ dlqs w t)\<rparr>"

definition prepend_stream :: "dlq_rows \<Rightarrow> stream \<Rightarrow> stream" where
  "prepend_stream X st = st\<lparr>world := prepend X (world st)\<rparr>"

lemma prepend_frame [simp]:
  "cursors (prepend X w) = cursors w" "submissions (prepend X w) = submissions w" "statuses (prepend X w) = statuses w"
  "metrics (prepend X w) = metrics w" "connections (prepend X w) = connections w"
  "dlqs (prepend X w) = (\<lambda>t. X t @ dlqs w t)"
  by (simp_all add: prepend_def)

lemma prepend_emit [simp]: "emit ms (prepend X w) = prepend X (emit ms w)"
  by (simp add: emit_def prepend_def)

lemma prepend_sent [simp]: "sent us (prepend X w) = prepend X (sent us w)"
  by (simp add: sent_def prepend_def)

lemma prepend_stream_frame [simp]:
  "wal (prepend_stream X st) = wal st" "buf (prepend_stream X st) = buf st" "decoded (prepend_stream X st) = decoded st"
  "pendingInserts (prepend_stream X st) = pendingInserts st" "pendingCommitLSN (prepend_stream X st) = pendingCommitLSN st"
  "inTx (prepend_stream X st) = inTx st" "nextBatchAt (prepend_stream X st) = nextBatchAt st"
  "nextStandbyAt (prepend_stream X st) = nextStandbyAt st" "world (prepend_stream X st) = prepend X (world st)"
  by (simp_all add: prepend_stream_def)

lemma prepend_stream_updates [simp]:
  "(prepend_stream X st)\<lparr>world := prepend X w\<rparr> = prepend_stream X (st\<lparr>world := w\<rparr>)"
  "(prepend_stream X st)\<lparr>wal := wc\<rparr> = prepend_stream X (st\<lparr>wal := wc\<rparr>)"
  "(prepend_stream X st)\<lparr>decoded := ms\<rparr> = prepend_stream X (st\<lparr>decoded := ms\<rparr>)"
  "(prepend_stream X st)\<lparr>nextStandbyAt := t\<rparr> = prepend_stream X (st\<lparr>nextStandbyAt := t\<rparr>)"
  by (simp_all add: prepend_stream_def)

lemma insertDLQRows_prepend:
  "insertDLQRows exec now table rows (\<lambda>t. X t @ db t) =
     (case insertDLQRows exec now table rows db of (err, db') \<Rightarrow> (err, \<lambda>t. X t @ db' t))"
  by (auto simp: insertDLQRows_def Let_def fun_eq_iff split: option.splits)

lemma persist_prepend:
  "persistFlushResult la te d rows l (prepend X w) =
     (case persistFlushResult la te d rows l w of (err, w') \<Rightarrow> (err, prepend X w'))"
  by (auto simp: persistFlushResult_def insertDLQRows_prepend Let_def prepend_def
      split: option.splits prod.splits commit_answer.splits)

lemma flushBatch_prepend:
  "flushBatch la fe d ins l wc (prepend X w) =
     (case flushBatch la fe d ins l wc w of (err, wc', w') \<Rightarrow> (err, wc', prepend X w'))"
proof -
  have s: "(prepend X w)\<lparr>submissions := xs\<rparr> = prepend X (w\<lparr>submissions := xs\<rparr>)" for w xs
    by (simp add: prepend_def)
  show ?thesis
    by (simp add: flushBatch_def Let_def s persist_prepend split: sum.splits option.splits prod.splits)
qed

lemma flush_pending_prepend:
  "flush_pending la d fe (prepend_stream X st) = map_loop_result (prepend_stream X) (flush_pending la d fe st)"
  by (simp add: flush_pending_def flushBatch_prepend prepend_stream_def split: option.splits prod.splits)

lemma batch_due_prepend:
  "batch_due la d en (prepend_stream X st) =
     (case batch_due la d en st of (r, now) \<Rightarrow> (map_loop_result (prepend_stream X) r, now))"
  by (simp add: batch_due_def flush_pending_prepend)

lemma idle_flush_prepend:
  "idle_flush la d en (prepend_stream X st) = map_loop_result (prepend_stream X) (idle_flush la d en st)"
  by (simp add: idle_flush_def persist_prepend Let_def prepend_stream_def split: option.splits prod.splits)

lemma standby_due_prepend:
  "standby_due la d en now (prepend_stream X st) = map_loop_result (prepend_stream X) (standby_due la d en now st)"
  by (cases "idle_flush la d en st"; cases "ie_status_answer en")
    (simp_all add: standby_due_def idle_flush_prepend sendStandbyStatus_def Let_def)

lemma handle_message_prepend:
  "handle_message la d en msg (prepend_stream X st) = map_loop_result (prepend_stream X) (handle_message la d en msg st)"
proof (cases msg)
  case (walCommit l)
  have "commit_rows en d l (prepend_stream X st) = prepend_stream X (commit_rows en d l st)"
    by (simp add: commit_rows_def Let_def prepend_stream_def)
  then show ?thesis using walCommit by (simp add: handle_message_def size_flush_def flush_pending_prepend)
qed (simp_all add: handle_message_def prepend_stream_def split: sum.splits option.splits)

lemma receive_step_prepend:
  "receive_step la api d en (prepend_stream X st) = map_loop_result (prepend_stream X) (receive_step la api d en st)"
proof -
  obtain res wc us where r: "receiveMessage api (ie_receive en) (ie_reply_now en) (ie_reply_answer en)
      (nextReceiveDeadline (nextBatchAt st) (nextStandbyAt st)) (wal st) = (res, wc, us)"
    using prod_cases3 by blast
  show ?thesis
    by (simp add: receive_step_def r Let_def handle_message_prepend [symmetric] split: sum.splits option.splits)
qed

lemma iteration_prepend:
  "iteration la api d en (prepend_stream X st) = map_loop_result (prepend_stream X) (iteration la api d en st)"
proof (cases "batch_due la d en st")
  case (Pair r now)
  then show ?thesis
    by (cases r; cases "standby_due la d en now (result_state r)")
      (simp_all add: iteration_def batch_due_prepend standby_due_prepend receive_step_prepend split: option.splits)
qed

lemma stream_loop_prepend:
  "stream_loop la api d ens (prepend_stream X st) = map_loop_result (prepend_stream X) (stream_loop la api d ens st)"
  by (induction ens arbitrary: st) (simp_all add: iteration_prepend split: loop_result.splits)

lemma stream_start_prepend: "stream_start d now wc start (prepend X w) = prepend_stream X (stream_start d now wc start w)"
  by (simp add: stream_start_def prepend_stream_def)

section \<open>Processes\<close>

datatype phase =
    Ready                    \<comment> \<open>at the head of the loop of \<open>Run\<close>\<close>
  | CursorRead lsn           \<comment> \<open>in \<open>runOnce\<close>, with the start position it has read\<close>
  | Connected lsn walConsumer
  | InStream lsn stream      \<comment> \<open>in the receive loop; the server resumed after this position\<close>
  | Deciding go_error        \<comment> \<open>\<open>runOnce\<close> has returned\<close>
  | Stopped

record process =
  p_run :: run_state
  p_phase :: phase

text \<open>The world the processes share is \<open>shared\<close>; the worlds in their own records are replaced by it
  before each step. \<open>removed\<close> logs the entries cleanups have deleted, and \<open>cleaned_at\<close> the clock
  readings of the cleanups.\<close>

record deployment =
  shared :: world
  procs :: "nat \<Rightarrow> process"
  removed :: dlq_rows
  cleaned_at :: "gotime list"

definition view :: "deployment \<Rightarrow> nat \<Rightarrow> run_state" where
  "view s i = (p_run (procs s i))\<lparr>run_world := shared s\<rparr>"

definition put :: "nat \<Rightarrow> phase \<Rightarrow> run_state \<Rightarrow> deployment \<Rightarrow> deployment" where
  "put i ph rs s = s\<lparr>shared := run_world rs, procs := (procs s)(i := \<lparr>p_run = rs, p_phase = ph\<rparr>)\<rparr>"

definition streaming :: "process \<Rightarrow> bool" where
  "streaming p \<longleftrightarrow> (\<exists>resume st. p_phase p = InStream resume st)"

text \<open>
  What is relied on of the server. A slot has one consumer at a time. Streaming resumes after the
  requested position, or after the last confirmed one that reached the server if that is later;
  from there the session is sent the committed transactions in order. Between transactions the
  received position lies before the commits still to come.
\<close>

definition slot_free :: "deployment \<Rightarrow> bool" where
  "slot_free s \<longleftrightarrow> (\<forall>j. \<not> streaming (procs s j))"

definition resume_point :: "lsn \<Rightarrow> StandbyStatusUpdate list \<Rightarrow> lsn" where
  "resume_point start us = fold max (map WALFlushPosition us) start"

definition sends :: "(lsn \<times> parsedInsert list) list \<Rightarrow> lsn \<Rightarrow> stream \<Rightarrow> stream \<Rightarrow> bool" where
  "sends L resume st st' \<longleftrightarrow>
     honest_position (pending_log resume L) st \<and> received_prefix (pending_log resume L) st'"

definition phase_after :: "run_result \<Rightarrow> phase" where
  "phase_after r = (case r of Looping rs \<Rightarrow> Ready | _ \<Rightarrow> Stopped)"

definition gone :: "'a list \<Rightarrow> 'a list \<Rightarrow> 'a list" where
  "gone xs ys = filter (\<lambda>e. e \<notin> set ys) xs"

text \<open>
  One step of process \<open>i\<close>. A cleanup reads the leader flag before it sends its statement, so it may
  delete after the flag was lowered: the step does not ask for it. A process that dies, at any
  point, is one that takes no more steps or is started again by \<open>restart\<close>; what it had sent to the
  database or the service before is what the answers of the round say, since each answer may be an
  error and a failed commit may have been applied.
\<close>

inductive dep_step :: "(rat \<Rightarrow> rat) \<Rightarrow> lsn_api \<Rightarrow> wal_api \<Rightarrow> (lsn \<times> parsedInsert list) list
    \<Rightarrow> deployment \<Rightarrow> deployment \<Rightarrow> bool" for fl la api L where
  read: "p_phase (procs s i) = Ready \<Longrightarrow> rs = view s i \<Longrightarrow>
    readCursor la query (run_driver rs) (cursors (run_world rs)) = Inr start \<Longrightarrow>
    dep_step fl la api L s (put i (CursorRead start) rs s)"
| read_failed: "p_phase (procs s i) = Ready \<Longrightarrow> rs = view s i \<Longrightarrow>
    readCursor la query (run_driver rs) (cursors (run_world rs)) = Inl err \<Longrightarrow>
    dep_step fl la api L s (put i (Deciding (Wrapf ''pglg: read cursor: %w'' [] err)) rs s)"
| connect: "p_phase (procs s i) = CursorRead start \<Longrightarrow> rs = view s i \<Longrightarrow> c = cfg (run_driver rs) \<Longrightarrow>
    connect pgconn_Connect (ConnString c) (newWALConsumer (SlotName c) (PublicationName c)) = (None, wc) \<Longrightarrow>
    dep_step fl la api L s (put i (Connected start wc)
      (rs\<lparr>run_world := conn_opened (run_driver rs) (run_world rs)\<rparr>) s)"
| connect_failed: "p_phase (procs s i) = CursorRead start \<Longrightarrow> rs = view s i \<Longrightarrow> c = cfg (run_driver rs) \<Longrightarrow>
    connect pgconn_Connect (ConnString c) (newWALConsumer (SlotName c) (PublicationName c)) = (Some err, wc) \<Longrightarrow>
    dep_step fl la api L s (put i (Deciding err) rs s)"
| stream: "p_phase (procs s i) = Connected start wc \<Longrightarrow> rs = view s i \<Longrightarrow> slot_free s \<Longrightarrow>
    startStreaming identify StartReplication start wc = (None, wc') \<Longrightarrow>
    start \<le> resume \<Longrightarrow> resume \<le> resume_point start (statuses (run_world rs)) \<Longrightarrow>
    acquireLeadership (run_driver rs) = (d', ms) \<Longrightarrow> w' = emit ms (run_world rs) \<Longrightarrow>
    dep_step fl la api L s (put i
      (InStream resume (stream_start d' now wc' start w'))
      (rs\<lparr>run_driver := d', run_world := w'\<rparr>) s)"
| refused: "p_phase (procs s i) = Connected start wc \<Longrightarrow> rs = view s i \<Longrightarrow>
    startStreaming identify StartReplication start wc = (Some err, wc') \<Longrightarrow>
    dep_step fl la api L s (put i (Deciding err) (rs\<lparr>run_world := deferred_close se wc' (run_world rs)\<rparr>) s)"
| round: "p_phase (procs s i) = InStream resume st \<Longrightarrow> rs = view s i \<Longrightarrow>
    iteration la api (run_driver rs) en (st\<lparr>world := run_world rs\<rparr>) = Running st' \<Longrightarrow> sends L resume st st' \<Longrightarrow>
    dep_step fl la api L s (put i (InStream resume st') (rs\<lparr>run_world := world st'\<rparr>) s)"
| ended: "p_phase (procs s i) = InStream resume st \<Longrightarrow> rs = view s i \<Longrightarrow>
    iteration la api (run_driver rs) en (st\<lparr>world := run_world rs\<rparr>) = Returned err st' \<Longrightarrow> sends L resume st st' \<Longrightarrow>
    dep_step fl la api L s (put i (Deciding err) (rs\<lparr>run_world := deferred_close se (wal st') (world st')\<rparr>) s)"
| decide: "p_phase (procs s i) = Deciding err \<Longrightarrow> after_session fl re err (view s i) = r \<Longrightarrow>
    dep_step fl la api L s (put i (phase_after r) (run_result_state r) s)"
| cleanup: "rs = view s i \<Longrightarrow> w = run_world rs \<Longrightarrow>
    runDLQCleanup exec now took (run_driver rs) (dlqs w) = (ms, db) \<Longrightarrow>
    dep_step fl la api L s ((put i (p_phase (procs s i)) (rs\<lparr>run_world := emit ms (w\<lparr>dlqs := db\<rparr>)\<rparr>) s)
      \<lparr>removed := (\<lambda>t. removed s t @ gone (dlqs w t) (db t)), cleaned_at := cleaned_at s @ [now]\<rparr>)"
| restart: "New pool_new c = (Inr d, opened) \<Longrightarrow> cfg d = cfg (run_driver (p_run (procs s i))) \<Longrightarrow>
    dep_step fl la api L s (put i Ready
      \<lparr>run_driver = d, run_backoff = new_backoff (cfg d), run_world = shared s, run_waits = [], run_pools = opened\<rparr> s)"

inductive_cases dep_stepE: "dep_step fl la api L s s'"

text \<open>The processes of a deployment have the same configuration; none has started.\<close>

definition dep_init :: "Config \<Rightarrow> deployment \<Rightarrow> bool" where
  "dep_init c s \<longleftrightarrow> removed s = (\<lambda>t. []) \<and>
     (\<forall>i. p_phase (procs s i) = Ready \<and> cfg (run_driver (p_run (procs s i))) = c)"

inductive dep_reachable :: "(rat \<Rightarrow> rat) \<Rightarrow> lsn_api \<Rightarrow> wal_api \<Rightarrow> (lsn \<times> parsedInsert list) list
    \<Rightarrow> deployment \<Rightarrow> deployment \<Rightarrow> bool" for fl la api L s0 where
  start: "dep_reachable fl la api L s0 s0"
| step: "dep_reachable fl la api L s0 s \<Longrightarrow> dep_step fl la api L s s' \<Longrightarrow> dep_reachable fl la api L s0 s'"

section \<open>The invariant\<close>

text \<open>The world with the removed dead letters still in it.\<close>

definition restored :: "deployment \<Rightarrow> world" where
  "restored s = prepend (removed s) (shared s)"

fun phase_ok :: "driver \<Rightarrow> (lsn \<times> parsedInsert list) list \<Rightarrow> world \<Rightarrow> phase \<Rightarrow> bool" where
  "phase_ok d L w (CursorRead start) = (start \<le> driver_cursor d (cursors w))"
| "phase_ok d L w (Connected start wc) = (start \<le> driver_cursor d (cursors w) \<and> relations wc = Map.empty)"
| "phase_ok d L w (InStream resume st) =
     (resume \<le> driver_cursor d (cursors w) \<and> confirmed_durable d (st\<lparr>world := w\<rparr>) \<and>
      received_prefix (pending_log resume L) st \<and>
      (\<exists>n start. start \<le> resume \<and> delivering d n start (pending_log resume L) (st\<lparr>world := w\<rparr>)))"
| "phase_ok d L w ph = True"

definition dep_inv :: "driver \<Rightarrow> (lsn \<times> parsedInsert list) list \<Rightarrow> deployment \<Rightarrow> bool" where
  "dep_inv d L s \<longleftrightarrow>
     (\<forall>i. cfg (run_driver (p_run (procs s i))) = cfg d) \<and>
     covered d L (restored s) \<and>
     (\<forall>u \<in> set (statuses (shared s)). WALFlushPosition u \<le> driver_cursor d (cursors (shared s))) \<and>
     (\<forall>i. phase_ok d L (restored s) (p_phase (procs s i))) \<and>
     (\<forall>i j. streaming (procs s i) \<longrightarrow> streaming (procs s j) \<longrightarrow> i = j)"

text \<open>A change that leaves the cursor and the logs alone and loses no dead letter.\<close>

definition quiet :: "driver \<Rightarrow> world \<Rightarrow> world \<Rightarrow> bool" where
  "quiet d w w' \<longleftrightarrow> cursors w' = cursors w \<and> submissions w' = submissions w \<and> statuses w' = statuses w \<and>
     set (dlqs w (dlqTable (cfg d))) \<subseteq> set (dlqs w' (dlqTable (cfg d)))"

lemma quiet_covered:
  assumes q: "quiet d w w'" and c: "covered d L w"
  shows "covered d L w'"
proof -
  have s: "settled d w' p" if "settled d w p" for p using settled_mono [OF that, of w'] q by (simp add: quiet_def)
  have "ahead d w' t" if "ahead d w t" for t
    using that s q by (cases "driver_cursor d (cursors w) < fst t") (simp_all add: ahead_def quiet_def)
  then show ?thesis using c by (simp add: covered_ahead)
qed

lemma quiet_phase_ok:
  assumes q: "quiet d w w'" and p: "phase_ok d L w ph"
  shows "phase_ok d L w' ph"
proof (cases ph)
  case (InStream resume st)
  from p InStream obtain n start where o: "start \<le> resume" "delivering d n start (pending_log resume L) (st\<lparr>world := w\<rparr>)"
    by auto
  have "conserved n start (st\<lparr>world := w'\<rparr>)"
    using o(2) q by (simp add: delivering_def conserved_def batches_def quiet_def)
  then have "delivering d n start (pending_log resume L) (st\<lparr>world := w'\<rparr>)"
    by (rule delivering_frame [OF o(2)]) (use q in \<open>simp_all add: quiet_def\<close>)
  then show ?thesis using p q o(1) InStream by (auto simp: quiet_def confirmed_durable_def)
qed (use p q in \<open>simp_all add: quiet_def\<close>)

lemma dep_invD:
  assumes "dep_inv d L s"
  shows "cfg (run_driver (p_run (procs s i))) = cfg d" "covered d L (restored s)"
    "u \<in> set (statuses (shared s)) \<Longrightarrow> WALFlushPosition u \<le> driver_cursor d (cursors (shared s))"
    "phase_ok d L (restored s) (p_phase (procs s i))"
    "streaming (procs s i) \<Longrightarrow> streaming (procs s j) \<Longrightarrow> i = j"
  using assms unfolding dep_inv_def by blast+

text \<open>The invariant after a step of process \<open>i\<close>.\<close>

lemma dep_invI:
  assumes inv: "dep_inv d L s" and i: "procs s' = (procs s)(i := p)" "cfg (run_driver (p_run p)) = cfg d"
    and cov: "covered d L (restored s')"
    and conf: "\<And>u. u \<in> set (statuses (shared s')) \<Longrightarrow> WALFlushPosition u \<le> driver_cursor d (cursors (shared s'))"
    and ph: "phase_ok d L (restored s') (p_phase p)"
    and others: "\<And>j. j \<noteq> i \<Longrightarrow> phase_ok d L (restored s') (p_phase (procs s j))"
    and st: "streaming p \<Longrightarrow> slot_free s \<or> streaming (procs s i)"
  shows "dep_inv d L s'"
proof -
  note D = dep_invD [OF inv]
  have "j = k" if "streaming (procs s' j)" "streaming (procs s' k)" for j k
    using that st D(5) unfolding i(1) slot_free_def by (metis fun_upd_apply)
  moreover have "cfg (run_driver (p_run (procs s' j))) = cfg d" for j using D(1) i by simp
  moreover have "phase_ok d L (restored s') (p_phase (procs s' j))" for j using ph others i(1) by simp
  ultimately show ?thesis unfolding dep_inv_def using cov conf by blast
qed

text \<open>A step of process \<open>i\<close> that is quiet.\<close>

lemma dep_inv_quiet:
  assumes inv: "dep_inv d L s" and q: "quiet d (restored s) (restored s')"
    and i: "procs s' = (procs s)(i := p)" "cfg (run_driver (p_run p)) = cfg d"
    and ph: "phase_ok d L (restored s) (p_phase p)"
    and st: "streaming p \<Longrightarrow> slot_free s \<or> streaming (procs s i)"
  shows "dep_inv d L s'"
proof (rule dep_invI [OF inv i])
  note D = dep_invD [OF inv]
  show "covered d L (restored s')" using quiet_covered [OF q D(2)] .
  show "phase_ok d L (restored s') (p_phase p)" using quiet_phase_ok [OF q ph] .
  show "phase_ok d L (restored s') (p_phase (procs s j))" for j using quiet_phase_ok [OF q D(4)] .
  show "WALFlushPosition u \<le> driver_cursor d (cursors (shared s'))" if "u \<in> set (statuses (shared s'))" for u
    using D(3) [of u] that q by (simp add: quiet_def restored_def)
qed (rule st)

lemma view_cfg: "dep_inv d L s \<Longrightarrow> cfg (run_driver (view s i)) = cfg d"
  by (simp add: dep_inv_def view_def)

lemma put_simps [simp]:
  "shared (put i ph rs s) = run_world rs" "procs (put i ph rs s) = (procs s)(i := \<lparr>p_run = rs, p_phase = ph\<rparr>)"
  "removed (put i ph rs s) = removed s" "cleaned_at (put i ph rs s) = cleaned_at s" "run_world (view s i) = shared s"
  by (simp_all add: put_def view_def)

lemma restored_put: "restored (put i ph rs s) = prepend (removed s) (run_world rs)"
  by (simp add: restored_def)

lemma put_quiet:
  assumes inv: "dep_inv d L s"
    and w: "cursors (run_world rs) = cursors (shared s)" "submissions (run_world rs) = submissions (shared s)"
      "statuses (run_world rs) = statuses (shared s)" "dlqs (run_world rs) = dlqs (shared s)"
    and c: "cfg (run_driver rs) = cfg d" and ph: "phase_ok d L (restored s) ph"
    and st: "streaming \<lparr>p_run = rs, p_phase = ph\<rparr> \<Longrightarrow> slot_free s \<or> streaming (procs s i)"
  shows "dep_inv d L (put i ph rs s)"
  by (rule dep_inv_quiet [OF inv, where i = i and p = "\<lparr>p_run = rs, p_phase = ph\<rparr>"])
    (use w c ph st in \<open>simp_all add: quiet_def restored_def\<close>)

section \<open>Steps of the streaming process\<close>

lemma delivery_cfg:
  assumes c: "cfg d' = cfg d"
  shows "delivering d' = delivering d" "delivered d' = delivered d" "confirmed_durable d' = confirmed_durable d"
proof -
  have a: "ahead d' = ahead d" by (simp add: fun_eq_iff ahead_def c cfg_cong(1) [OF c])
  have "split_log d' = split_log d" by (simp add: fun_eq_iff split_log_def a cfg_cong(1) [OF c])
  then show "delivering d' = delivering d" "delivered d' = delivered d" "confirmed_durable d' = confirmed_durable d"
    by (simp_all add: fun_eq_iff delivering_def delivered_def confirmed_durable_def c cfg_cong(2) [OF c])
qed

text \<open>What a session owes for the part of the log it is sent, and what was settled before, make up
  the whole log.\<close>

lemma covered_extend:
  assumes old: "covered d L w" and le: "world_le d w w'" and r: "resume \<le> driver_cursor d (cursors w)"
    and new: "covered d (pending_log resume L) w'"
  shows "covered d L w'"
  unfolding covered_ahead
proof
  fix t
  assume t: "t \<in> set L"
  show "ahead d w' t"
  proof (cases "resume < fst t")
    case True
    then have "t \<in> set (pending_log resume L)" using t by (auto simp: pending_log_def)
    then show ?thesis using new by (simp add: covered_ahead)
  next
    case False
    then have "\<not> driver_cursor d (cursors w) < fst t" using r by simp
    then have "\<forall>p \<in> set (snd t). settled d w p" using old t by (auto simp: covered_ahead ahead_def)
    then show ?thesis using settled_world_le [OF _ le] by (simp add: ahead_def)
  qed
qed

lemma server_log_resume:
  "sorted_wrt (<) (map fst L) \<Longrightarrow> start \<le> resume \<Longrightarrow> server_log start (pending_log resume L)"
  by (auto simp: server_log_def pending_log_def sorted_wrt_map intro: sorted_wrt_filter)

lemma stream_step:
  assumes la: "lsn_api_ok la" and L: "sorted_wrt (<) (map fst L)" and c: "cfg d' = cfg d"
    and cov: "covered d L w" and ok: "phase_ok d L w (InStream resume st)"
    and it: "iteration la api d' en (st\<lparr>world := w\<rparr>) = r" and snd: "sends L resume st (result_state r)"
  shows "covered d L (world (result_state r))" "world_le d w (world (result_state r))"
    "confirmed_durable d (result_state r)"
    "r = Running st' \<Longrightarrow> phase_ok d L (world st') (InStream resume st')"
proof -
  let ?st = "st\<lparr>world := w\<rparr>" and ?L = "pending_log resume L"
  from ok obtain n start where start: "start \<le> resume" and del: "delivering d n start ?L ?st"
    and conf: "confirmed_durable d ?st" and res: "resume \<le> driver_cursor d (cursors w)" by auto
  note cc = delivery_cfg [OF c] cfg_cong(3) [OF c]
  have log: "server_log start ?L" using server_log_resume [OF L start] .
  have hon: "honest_position ?L ?st" using snd by (simp add: sends_def honest_position_def)
  have rcv: "received_prefix ?L (result_state r)" using snd by (simp add: sends_def)
  have "result_holds (\<lambda>st. lsn_api_ok la \<and> server_log start ?L \<longrightarrow> delivering d' n start ?L st)
      (\<lambda>st. lsn_api_ok la \<and> server_log start ?L \<longrightarrow> delivered d' ?L st) (iteration la api d' en ?st)"
    by (rule delivery.iteration_inv) (use del hon cc in simp_all)
  then have D: "result_holds (delivering d n start ?L) (delivered d ?L) r"
    using la log it cc by (cases r) simp_all
  then have "delivered d ?L (result_state r)" using delivering_weaken by (cases r) auto
  then have new: "covered d ?L (world (result_state r))" using rcv by (simp add: delivered_def)
  have "result_holds (\<lambda>st. lsn_api_ok la \<longrightarrow> confirmed_durable d' st) (\<lambda>st. lsn_api_ok la \<longrightarrow> confirmed_durable d' st)
      (iteration la api d' en ?st)"
    by (rule confirmation.iteration_inv) (use conf cc in simp_all)
  then show cd: "confirmed_durable d (result_state r)" using la it cc by (simp add: result_holds_state)
  have "result_holds (\<lambda>st. lsn_api_ok la \<longrightarrow> world_le d' w (world st)) (\<lambda>st. lsn_api_ok la \<longrightarrow> world_le d' w (world st))
      (iteration la api d' en ?st)"
    by (rule growth.iteration_inv) (use cc in simp_all)
  then show le: "world_le d w (world (result_state r))" using la it cc by (simp add: result_holds_state)
  show "covered d L (world (result_state r))" using covered_extend [OF cov le res new] .
  show "phase_ok d L (world st') (InStream resume st')" if "r = Running st'"
    using that D cd rcv start res le by (auto simp: world_le_def intro: order_trans)
qed

lemma phase_ok_mono:
  assumes "world_le d w w'" "\<And>resume st. ph \<noteq> InStream resume st" "phase_ok d L w ph"
  shows "phase_ok d L w' ph"
  using assms by (cases ph) (auto simp: world_le_def intro: order_trans)

lemma stream_step_restored:
  assumes la: "lsn_api_ok la" and L: "sorted_wrt (<) (map fst L)" and inv: "dep_inv d L s"
    and p: "p_phase (procs s i) = InStream resume st"
    and it: "iteration la api (run_driver (view s i)) en (st\<lparr>world := shared s\<rparr>) = r" and snd: "sends L resume st (result_state r)"
    and w': "quiet d (world (result_state r)) w'" "dlqs w' = dlqs (world (result_state r))"
    and ph: "(\<exists>err. ph = Deciding err) \<or> (\<exists>st'. r = Running st' \<and> w' = world st' \<and> ph = InStream resume st')"
  shows "dep_inv d L (put i ph ((view s i)\<lparr>run_world := w'\<rparr>) s)"
proof -
  note D = dep_invD [OF inv]
  let ?X = "removed s" and ?p = "\<lparr>p_run = (view s i)\<lparr>run_world := w'\<rparr>, p_phase = ph\<rparr>"
  let ?r = "map_loop_result (prepend_stream ?X) r" and ?w = "prepend ?X w'"
  have st: "st\<lparr>world := restored s\<rparr> = prepend_stream ?X (st\<lparr>world := shared s\<rparr>)"
    by (simp add: prepend_stream_def restored_def)
  have it': "iteration la api (run_driver (view s i)) en (st\<lparr>world := restored s\<rparr>) = ?r"
    unfolding st iteration_prepend it ..
  have rs: "result_state ?r = prepend_stream ?X (result_state r)" by (cases r) simp_all
  have "sends L resume st (result_state ?r)" using snd unfolding rs by (simp add: sends_def received_prefix_def)
  note S = stream_step [OF la L view_cfg [OF inv] D(2) D(4) [of i, unfolded p] it' this]
  have q: "quiet d (world (result_state ?r)) ?w" using w' unfolding rs by (auto simp: quiet_def)
  have le: "world_le d (restored s) ?w"
    using S(2) w' unfolding rs by (simp add: world_le_def quiet_def)
  show ?thesis
  proof (rule dep_invI [OF inv, where i = i and p = ?p])
    show "covered d L (restored (put i ph ((view s i)\<lparr>run_world := w'\<rparr>) s))"
      using quiet_covered [OF q S(1)] by (simp add: restored_put)
    show "WALFlushPosition u \<le> driver_cursor d (cursors (shared (put i ph ((view s i)\<lparr>run_world := w'\<rparr>) s)))"
      if "u \<in> set (statuses (shared (put i ph ((view s i)\<lparr>run_world := w'\<rparr>) s)))" for u
      using that S(3) w' unfolding rs by (auto simp: confirmed_durable_def quiet_def)
    show "phase_ok d L (restored (put i ph ((view s i)\<lparr>run_world := w'\<rparr>) s)) (p_phase ?p)"
      using ph
    proof (elim disjE exE conjE)
      fix st'
      assume *: "r = Running st'" "w' = world st'" "ph = InStream resume st'"
      have "phase_ok d L ?w (InStream resume (prepend_stream ?X st'))"
        using S(4) [of "prepend_stream ?X st'"] * by simp
      then show ?thesis using * by (simp add: restored_put received_prefix_def prepend_stream_def)
    qed (simp add: restored_put)
    show "phase_ok d L (restored (put i ph ((view s i)\<lparr>run_world := w'\<rparr>) s)) (p_phase (procs s j))" if "j \<noteq> i" for j
    proof -
      have "\<not> streaming (procs s j)" using D(5) [of i j] p that by (auto simp: streaming_def)
      then show ?thesis using phase_ok_mono [OF le _ D(4) [of j]] by (auto simp: restored_put streaming_def)
    qed
  qed (use view_cfg [OF inv] p in \<open>auto simp: streaming_def\<close>)
qed

section \<open>Every step keeps the invariant\<close>

lemma after_session_frame:
  assumes "after_session fl re err rs = r"
  shows "cfg (run_driver (run_result_state r)) = cfg (run_driver rs)"
    "\<exists>ms. run_world (run_result_state r) = emit ms (run_world rs)"
  using assms
  by (auto simp: after_session_def slot_busy_wait_def backoff_wait_def relinquishLeadership_def Let_def
      split: prod.splits option.splits if_splits)

lemma resume_point_le:
  assumes "start \<le> c" "\<And>u. u \<in> set us \<Longrightarrow> WALFlushPosition u \<le> c"
  shows "resume_point start us \<le> c"
  using assms unfolding resume_point_def by (induction us arbitrary: start) auto

lemma connect_fresh:
  "connect pgconn_Connect cs (newWALConsumer slot publication) = (None, wc) \<Longrightarrow> relations wc = Map.empty"
  by (auto simp: connect_def newWALConsumer_def split: option.splits)

lemma startStreaming_started:
  "startStreaming identify StartReplication start wc = (None, wc') \<Longrightarrow> relations wc' = relations wc \<and> flushLSN wc' = start"
  by (auto simp: startStreaming_def split: option.splits if_splits)

lemma phase_ok_start:
  assumes L: "sorted_wrt (<) (map fst L)" and inv: "dep_inv d L s"
    and ph: "phase_ok d L (restored s) (Connected start wc)"
    and st: "startStreaming identify StartReplication start wc = (None, wc')"
    and r: "start \<le> resume" "resume \<le> resume_point start (statuses (shared s))" and c: "cfg d' = cfg d"
  shows "phase_ok d L (restored s) (InStream resume (stream_start d' now wc' start w'))"
proof -
  note D = dep_invD [OF inv]
  let ?w = "restored s" and ?L = "pending_log resume L"
  have w: "cursors ?w = cursors (shared s)" "statuses ?w = statuses (shared s)" by (simp_all add: restored_def)
  have st_world: "(stream_start d' now wc' start w')\<lparr>world := ?w\<rparr> = stream_start d' now wc' start ?w"
    by (simp add: stream_start_def)
  have fresh: "relations wc' = Map.empty" "flushLSN wc' = start" using startStreaming_started [OF st] ph by simp_all
  have "resume \<le> driver_cursor d (cursors ?w)"
    using r(2) resume_point_le [of start "driver_cursor d (cursors (shared s))" "statuses (shared s)"] D(3) ph w
    by (auto intro: order_trans)
  moreover have "covered d ?L ?w" using D(2) by (auto simp: covered_ahead pending_log_def)
  then have "delivering d' (length (submissions ?w)) start ?L (stream_start d' now wc' start ?w)"
    using delivering_start [OF fresh(1) server_log_resume [OF L r(1)]] cfg_cong(2) [OF c] by simp
  then have "delivering d (length (submissions ?w)) start ?L (stream_start d' now wc' start ?w)"
    using delivery_cfg(1) [OF c] by simp
  moreover have "confirmed_durable d (stream_start d' now wc' start ?w)"
    using fresh ph D(3) w by (simp add: confirmed_durable_def stream_start_def)
  moreover have "received_prefix ?L (stream_start d' now wc' start w')"
    by (simp add: received_prefix_def stream_start_def empty_txlog_def)
  ultimately show ?thesis using r(1) unfolding phase_ok.simps st_world by blast
qed

lemma dep_inv_step [wf_pres]:
  assumes la: "lsn_api_ok la" and L: "sorted_wrt (<) (map fst L)"
    and "dep_step fl la api L s s'" "dep_inv d L s"
  shows "dep_inv d L s'"
  using assms(3,4)
proof (induction rule: dep_step.induct)
  case (read s i rs query start)
  then have "start \<le> driver_cursor (run_driver rs) (cursors (shared s))"
    using readCursor_Inr [OF la, of query "run_driver rs" "cursors (shared s)" start] by auto
  then show ?case
    using read view_cfg [OF read(4), of i] by (intro put_quiet) (simp_all add: restored_def streaming_def)
next
  case (read_failed s i rs query err)
  then show ?case using view_cfg [OF read_failed(4), of i] by (intro put_quiet) (simp_all add: streaming_def)
next
  case (connect s i start rs c pgconn_Connect wc)
  then show ?case
    using view_cfg [OF connect(5), of i] dep_invD(4) [OF connect(5), of i] connect_fresh [OF connect(4)]
    by (intro put_quiet) (simp_all add: streaming_def)
next
  case (connect_failed s i start rs c pgconn_Connect err wc)
  then show ?case using view_cfg [OF connect_failed(5), of i] by (intro put_quiet) (simp_all add: streaming_def)
next
  case (stream s i start wc rs identify StartReplication wc' resume d' ms w' now)
  have c: "cfg d' = cfg d"
    using view_cfg [OF stream(9), of i] acquire_cfg [of "run_driver rs"] stream(2,7) by (metis fst_conv)
  have "phase_ok d L (restored s) (Connected start wc)"
    using dep_invD(4) [OF stream(9), of i] stream(1) by simp
  from phase_ok_start [OF L stream(9) this stream(4,5) _ c, of now w'] stream(2,6)
  have "phase_ok d L (restored s) (InStream resume (stream_start d' now wc' start w'))" by simp
  then show ?case using stream c by (intro put_quiet) simp_all
next
  case (refused s i start wc rs identify StartReplication err wc' se)
  then show ?case
    using view_cfg [OF refused(4), of i]
    by (intro put_quiet) (simp_all add: streaming_def deferred_close_def split: prod.splits)
next
  case (round s i resume st rs en st')
  have "quiet d (world (result_state (Running st'))) (world st')" by (simp add: quiet_def)
  from stream_step_restored [OF la L round(5,1), of api en "Running st'" "world st'" "InStream resume st'"] this round
  show ?case by simp
next
  case (ended s i resume st rs en err st' se)
  let ?w = "deferred_close se (wal st') (world st')"
  have "quiet d (world (result_state (Returned err st'))) ?w" "dlqs ?w = dlqs (world st')"
    by (simp_all add: quiet_def deferred_close_def split: prod.splits)
  from stream_step_restored [OF la L ended(5,1), of api en "Returned err st'" ?w "Deciding err"] this ended
  show ?case by simp
next
  case (decide s i err re r)
  note f = after_session_frame [OF decide(2)]
  then obtain ms where "run_world (run_result_state r) = emit ms (shared s)" by auto
  then show ?case
    using f(1) view_cfg [OF decide(3), of i]
    by (intro put_quiet [OF decide(3)]) (auto simp: streaming_def phase_after_def split: run_result.splits)
next
  case (cleanup rs s i w exec now took ms db)
  let ?p = "\<lparr>p_run = rs\<lparr>run_world := emit ms (w\<lparr>dlqs := db\<rparr>)\<rparr>, p_phase = p_phase (procs s i)\<rparr>"
  show ?case
    by (rule dep_inv_quiet [OF cleanup(4), where i = i and p = ?p])
      (use cleanup view_cfg [OF cleanup(4), of i] dep_invD(4) [OF cleanup(4), of i] in
        \<open>auto simp: quiet_def restored_def gone_def streaming_def\<close>)
next
  case (restart pool_new c d' opened s i)
  then show ?case
    using dep_invD(1) [OF restart(3), of i] by (intro put_quiet [OF restart(3)]) (simp_all add: streaming_def)
qed

lemma dep_inv_init:
  assumes "dep_init (cfg d) s" "covered d L (shared s)"
    "\<And>u. u \<in> set (statuses (shared s)) \<Longrightarrow> WALFlushPosition u \<le> driver_cursor d (cursors (shared s))"
  shows "dep_inv d L s"
proof -
  have "restored s = shared s" using assms(1) by (simp add: dep_init_def restored_def prepend_def)
  then show ?thesis using assms by (simp add: dep_inv_def dep_init_def streaming_def)
qed

lemma dep_inv_reachable:
  assumes "lsn_api_ok la" "sorted_wrt (<) (map fst L)" "dep_reachable fl la api L s0 s" "dep_inv d L s0"
  shows "dep_inv d L s"
  using assms(3,4) by induction (blast intro: dep_inv_step [OF assms(1,2)])+

section \<open>Removed dead letters\<close>

text \<open>Every entry a cleanup has removed was older than the retention by the clock of some cleanup.\<close>

definition removed_expired :: "driver \<Rightarrow> deployment \<Rightarrow> bool" where
  "removed_expired d s \<longleftrightarrow> (\<forall>i. cfg (run_driver (p_run (procs s i))) = cfg d) \<and>
     (\<forall>t. \<forall>e \<in> set (removed s t). \<exists>now \<in> set (cleaned_at s). dead_lettered_at e < now - retention_interval d)"

lemma removed_expired_put:
  assumes "removed_expired d s" "cfg (run_driver rs) = cfg (run_driver (view s i))"
  shows "removed_expired d (put i ph rs s)"
  using assms by (simp add: removed_expired_def view_def)

lemma removed_expired_step [wf_pres]:
  assumes "dep_step fl la api L s s'" "removed_expired d s"
  shows "removed_expired d s'"
  using assms
proof (induction rule: dep_step.induct)
  case (stream s i start wc rs identify StartReplication wc' resume d' ms w' now)
  then show ?case using acquire_cfg [of "run_driver rs"] by (intro removed_expired_put) (metis fst_conv, simp)
next
  case (decide s i err re r)
  then show ?case using after_session_frame(1) [OF decide(2)] by (intro removed_expired_put) simp_all
next
  case (cleanup rs s i w exec now took ms db)
  have c: "cfg (run_driver rs) = cfg d" using cleanup(1,4) by (simp add: removed_expired_def view_def)
  have "dead_lettered_at e < now - retention_interval d" if "e \<in> set (gone (dlqs w t) (db t))" for e t
    using that runDLQCleanup_table [OF cleanup(3)] c
    by (cases "t = dlqTable (cfg d)") (auto simp: gone_def retention_interval_def split: if_splits)
  with cleanup(4) c show ?case by (fastforce simp: removed_expired_def)
next
  case (restart pool_new c d' opened s i)
  then show ?case by (intro removed_expired_put) (simp_all add: view_def)
qed (intro removed_expired_put; simp)+

lemma removed_expired_reachable:
  assumes "dep_reachable fl la api L s0 s" "dep_init (cfg d) s0"
  shows "removed_expired d s"
  using assms by induction (auto simp: dep_init_def removed_expired_def dest: removed_expired_step)

text \<open>The service has answered for a row: it accepted it, or its rejection was stored in the dead letter
  table, where it still is or from where it was removed after the retention.\<close>

definition answered :: "driver \<Rightarrow> deployment \<Rightarrow> parsedInsert \<Rightarrow> bool" where
  "answered d s p \<longleftrightarrow>
     (\<exists>jobs results r. (jobs, Inr results) \<in> set (submissions (shared s)) \<and> toJob p \<in> set jobs \<and>
        r \<in> set results \<and> r_CorrelationID r = cid_of p \<and>
        (r_Err r = [] \<or>
         (\<exists>ts. let e = dlq_entry_of ts (dlq_row_of p r); table = dlqTable (cfg d) in
            e \<in> set (dlqs (shared s) table) \<or>
            e \<in> set (removed s table) \<and> (\<exists>now \<in> set (cleaned_at s). ts < now - retention_interval d))))"

lemma settled_answered:
  assumes "settled d (restored s) p" "removed_expired d s"
  shows "answered d s p"
proof -
  have "ts < now - retention_interval d" if "dead_lettered_at (dlq_entry_of ts row) < now - retention_interval d" for ts now row
    using that by (simp add: dlq_entry_of_def)
  then show ?thesis
    using assms unfolding settled_def restored_def removed_expired_def answered_def prepend_frame set_append Let_def by blast
qed

text \<open>The guarantee of a deployment.\<close>

lemma deployment_answers:
  assumes la: "lsn_api_ok la" and L: "sorted_wrt (<) (map fst L)" and init: "dep_init (cfg d) s0" "covered d L (shared s0)"
      "\<And>u. u \<in> set (statuses (shared s0)) \<Longrightarrow> WALFlushPosition u \<le> driver_cursor d (cursors (shared s0))"
    and r: "dep_reachable fl la api L s0 s"
    and p: "(l, rows) \<in> set L" "l \<le> driver_cursor d (cursors (shared s))" "p \<in> set rows"
  shows "answered d s p"
proof (rule settled_answered)
  have "covered d L (restored s)" using dep_invD(2) [OF dep_inv_reachable [OF la L r dep_inv_init [OF init]]] .
  then show "settled d (restored s) p" using p by (auto simp: covered_def restored_def)
  show "removed_expired d s" using removed_expired_reachable [OF r init(1)] .
qed

section \<open>The loop of Run is a process of the deployment\<close>

lemma dep_reachable_trans:
  assumes "dep_reachable fl la api L s1 s2" "dep_reachable fl la api L s0 s1"
  shows "dep_reachable fl la api L s0 s2"
  using assms by induction (auto intro: dep_reachable.step)

lemma dep_reachable_first:
  "dep_step fl la api L s0 s1 \<Longrightarrow> dep_reachable fl la api L s1 s2 \<Longrightarrow> dep_reachable fl la api L s0 s2"
  by (erule dep_reachable_trans) (rule dep_reachable.step [OF dep_reachable.start])

text \<open>Process \<open>i\<close> has come to phase \<open>ph\<close> and state \<open>rs\<close>, and the others have not moved.\<close>

definition moved :: "nat \<Rightarrow> phase \<Rightarrow> run_state \<Rightarrow> deployment \<Rightarrow> deployment \<Rightarrow> bool" where
  "moved i ph rs s s' \<longleftrightarrow> view s' i = rs \<and> p_phase (procs s' i) = ph \<and> (\<forall>j. j \<noteq> i \<longrightarrow> procs s' j = procs s j)"

definition reaches :: "(rat \<Rightarrow> rat) \<Rightarrow> lsn_api \<Rightarrow> wal_api \<Rightarrow> (lsn \<times> parsedInsert list) list
    \<Rightarrow> nat \<Rightarrow> phase \<Rightarrow> run_state \<Rightarrow> deployment \<Rightarrow> bool" where
  "reaches fl la api L i ph rs s \<longleftrightarrow> (\<exists>s'. dep_reachable fl la api L s s' \<and> moved i ph rs s s')"

lemma moved_put [simp]: "moved i ph rs s (put i ph rs s)"
  by (simp add: moved_def view_def)

lemma moved_shared: "moved i ph rs s s' \<Longrightarrow> shared s' = run_world rs"
  by (auto simp: moved_def view_def)

lemma reaches_here: "p_phase (procs s i) = ph \<Longrightarrow> reaches fl la api L i ph (view s i) s"
  using dep_reachable.start by (fastforce simp: reaches_def moved_def)

lemma reaches_first:
  assumes "dep_step fl la api L s (put i ph rs s)" "reaches fl la api L i ph' rs' (put i ph rs s)"
  shows "reaches fl la api L i ph' rs' s"
proof -
  from assms(2) obtain s' where "dep_reachable fl la api L (put i ph rs s) s'" "moved i ph' rs' (put i ph rs s) s'"
    by (auto simp: reaches_def)
  then show ?thesis
    using dep_reachable_first [OF assms(1)] by (auto simp: reaches_def moved_def intro!: exI [of _ s'])
qed

lemma reaches_step: "dep_step fl la api L s (put i ph rs s) \<Longrightarrow> reaches fl la api L i ph rs s"
  using dep_reachable.step [OF dep_reachable.start] moved_put by (fastforce simp: reaches_def)

lemma view_simps [simp]: "view (put i ph rs s) i = rs" "(view s i)\<lparr>run_world := shared s\<rparr> = view s i"
  by (simp_all add: view_def)

text \<open>The rounds of the receive loop of process \<open>i\<close>, without interference.\<close>

lemma stream_loop_steps:
  assumes "p_phase (procs s i) = InStream resume st" "shared s = world st" "d = run_driver (view s i)"
    and "\<And>n st'. n < length ens \<Longrightarrow> stream_loop la api d (take n ens) st = Running st' \<Longrightarrow>
      honest_position (pending_log resume L) st'"
    and "received_prefix (pending_log resume L) (result_state (stream_loop la api d ens st))"
  shows "case stream_loop la api d ens st of
      Running st' \<Rightarrow> reaches fl la api L i (InStream resume st') ((view s i)\<lparr>run_world := world st'\<rparr>) s
    | Returned err st' \<Rightarrow>
        reaches fl la api L i (Deciding err) ((view s i)\<lparr>run_world := deferred_close se (wal st') (world st')\<rparr>) s"
  using assms
proof (induction ens arbitrary: s st)
  case Nil
  then show ?case using reaches_here [of s i "InStream resume st" fl la api L] by (simp add: view_def)
next
  case (Cons en ens)
  have st: "st\<lparr>world := run_world (view s i)\<rparr> = st" using Cons.prems(2) by simp
  have hon: "honest_position (pending_log resume L) st" using Cons.prems(4) [of 0 st] by simp
  show ?case
  proof (cases "iteration la api d en st")
    case (Returned err st')
    then have "sends L resume st st'" using hon Cons.prems(5) by (simp add: sends_def)
    from dep_step.ended [OF Cons.prems(1) refl _ this, of la api en err fl se] Returned Cons.prems(3) st
    show ?thesis by (simp add: reaches_step)
  next
    case (Running st')
    let ?s = "put i (InStream resume st') ((view s i)\<lparr>run_world := world st'\<rparr>) s"
    have loop: "stream_loop la api d (en # ens) st = stream_loop la api d ens st'" using Running by simp
    have "received_prefix (pending_log resume L) st'"
      using Cons.prems(5) unfolding loop by (rule received_prefix_earlier)
    then have "sends L resume st st'" using hon by (simp add: sends_def)
    from dep_step.round [OF Cons.prems(1) refl _ this, of la api en fl] Running Cons.prems(3) st
    have step: "dep_step fl la api L s ?s" by simp
    have "honest_position (pending_log resume L) st''"
      if "n < length ens" "stream_loop la api d (take n ens) st' = Running st''" for n st''
      using Cons.prems(4) [of "Suc n" st''] that Running by simp
    from Cons.IH [of ?s st', OF _ _ _ this] Cons.prems(3,5) loop
    have "case stream_loop la api d ens st' of
        Running st' \<Rightarrow> reaches fl la api L i (InStream resume st') ((view ?s i)\<lparr>run_world := world st'\<rparr>) ?s
      | Returned err st' \<Rightarrow>
          reaches fl la api L i (Deciding err) ((view ?s i)\<lparr>run_world := deferred_close se (wal st') (world st')\<rparr>) ?s"
      by simp
    then show ?thesis unfolding loop using reaches_first [OF step] by (simp split: loop_result.splits)
  qed
qed

lemma resume_point_ge: "start \<le> resume_point start us"
  unfolding resume_point_def
proof (induction us arbitrary: start)
  case (Cons u us)
  then show ?case by (auto intro: order_trans [of _ "max (WALFlushPosition u) start"])
qed simp

lemma slot_free_put: "slot_free s \<Longrightarrow> \<forall>resume st. ph \<noteq> InStream resume st \<Longrightarrow> slot_free (put i ph rs s)"
  by (simp add: slot_free_def streaming_def)

text \<open>A process that has connected; the server accepts the stream or refuses it.\<close>

lemma connected_steps:
  assumes ph: "p_phase (procs s i) = Connected start wc" and free: "slot_free s"
    and conn: "conn wc = Some PgConn" "relations wc = Map.empty" "slotName wc = SlotName (cfg d)" "publicationName wc = PublicationName (cfg d)"
    and d: "d = run_driver (view s i)" and w: "shared s = conn_opened d w"
    and f: "server_faithful la api L se d w" "readCursor la (se_query se) d (cursors w) = Inr start"
  shows "case startStreaming (se_identify se) (se_start se) start wc of
      (Some err, wc') \<Rightarrow> reaches fl la api L i (Deciding err) ((view s i)\<lparr>run_world := deferred_close se wc' (shared s)\<rparr>) s
    | (None, wc') \<Rightarrow> (case session_stream la api se d start w of
        Running st \<Rightarrow> \<exists>resume st'. reaches fl la api L i (InStream resume st')
          ((view s i)\<lparr>run_driver := fst (acquireLeadership d), run_world := world st\<rparr>) s
      | Returned err st \<Rightarrow> reaches fl la api L i (Deciding err)
          ((view s i)\<lparr>run_driver := fst (acquireLeadership d), run_world := deferred_close se (wal st) (world st)\<rparr>) s)"
proof (cases "startStreaming (se_identify se) (se_start se) start wc")
  case (Pair err wc')
  show ?thesis
  proof (cases err)
    case (Some e)
    then have "startStreaming (se_identify se) (se_start se) start wc = (Some e, wc')" using Pair by simp
    from dep_step.refused [OF ph refl this] show ?thesis using Pair Some by (simp add: reaches_step)
  next
    case None
    obtain d' ms where a: "acquireLeadership d = (d', ms)" by fastforce
    have wc': "wc' = started_consumer (cfg d) start"
      using Pair None conn by (cases wc) (auto simp: startStreaming_def started_consumer_def split: option.splits if_splits)
    let ?st = "stream_start d' (se_now se) wc' start (emit ms (shared s))"
    let ?rs = "(view s i)\<lparr>run_driver := d', run_world := emit ms (shared s)\<rparr>" and ?L = "pending_log start L"
    let ?s = "put i (InStream start ?st) ?rs s"
    have "startStreaming (se_identify se) (se_start se) start wc = (None, wc')" using Pair None by simp
    from dep_step.stream [OF ph refl free this order_refl] a d
    have step: "dep_step fl la api L s ?s" by (simp add: resume_point_ge)
    note f' = f(1) [unfolded server_faithful_def, rule_format, OF f(2)]
    have loop: "session_stream la api (se\<lparr>se_rounds := ens\<rparr>) d start w = stream_loop la api d' ens ?st" for ens
      using a w by (simp add: session_stream_def processWALStream_def wc')
    have hon: "honest_position ?L st'" if "n < length (se_rounds se)" "stream_loop la api d' (take n (se_rounds se)) ?st = Running st'" for n st'
      using f' [THEN conjunct2, rule_format, of n st'] that loop [of "take n (se_rounds se)"] by simp
    have rec: "received_prefix ?L (result_state (stream_loop la api d' (se_rounds se) ?st))"
      using f' [THEN conjunct1] loop [of "se_rounds se"] by simp
    have pre: "p_phase (procs ?s i) = InStream start ?st" "shared ?s = world ?st" "d' = run_driver (view ?s i)"
      by (simp_all add: stream_start_def)
    have "case stream_loop la api d' (se_rounds se) ?st of
        Running st' \<Rightarrow> reaches fl la api L i (InStream start st') ((view ?s i)\<lparr>run_world := world st'\<rparr>) ?s
      | Returned err st' \<Rightarrow>
          reaches fl la api L i (Deciding err) ((view ?s i)\<lparr>run_world := deferred_close se (wal st') (world st')\<rparr>) ?s"
      by (rule stream_loop_steps [OF pre]) (use hon rec in blast)+
    then show ?thesis
      using loop [of "se_rounds se"] reaches_first [OF step] Pair None a
      by (auto split: loop_result.splits)
  qed
qed

text \<open>A whole session.\<close>

definition session_phase :: "(rat \<Rightarrow> rat) \<Rightarrow> lsn_api \<Rightarrow> wal_api \<Rightarrow> (lsn \<times> parsedInsert list) list
    \<Rightarrow> nat \<Rightarrow> session_result \<Rightarrow> run_state \<Rightarrow> deployment \<Rightarrow> bool" where
  "session_phase fl la api L i res rs s \<longleftrightarrow>
     (case res of
        Failed err \<Rightarrow> reaches fl la api L i (Deciding err) rs s
      | Streaming \<Rightarrow> \<exists>resume st. reaches fl la api L i (InStream resume st) rs s)"

lemma session_phase_first:
  assumes "dep_step fl la api L s (put i ph rs s)" "session_phase fl la api L i res rs' (put i ph rs s)"
  shows "session_phase fl la api L i res rs' s"
  using assms(2) reaches_first [OF assms(1)] by (auto simp: session_phase_def split: session_result.splits)

lemma runOnce_steps:
  assumes ready: "p_phase (procs s i) = Ready" and free: "slot_free s" and d: "d = run_driver (view s i)"
    and f: "server_faithful la api L se d (shared s)"
    and ro: "runOnce la api se d (shared s) = (res, d', w')"
  shows "session_phase fl la api L i res ((view s i)\<lparr>run_driver := d', run_world := w'\<rparr>) s"
proof (cases "readCursor la (se_query se) d (cursors (shared s))")
  case (Inl err)
  with dep_step.read_failed [OF ready refl, of la "se_query se" err fl api L] d ro show ?thesis
    by (auto simp: runOnce_def session_phase_def intro: reaches_step)
next
  case (Inr start)
  let ?c = "cfg d" and ?s1 = "put i (CursorRead start) (view s i) s"
  let ?new = "newWALConsumer (SlotName ?c) (PublicationName ?c)"
  have step1: "dep_step fl la api L s ?s1"
    using dep_step.read [OF ready refl, of la "se_query se" start fl api L] Inr d by simp
  show ?thesis
  proof (cases "connect (se_connect se) (ConnString ?c) ?new")
    case (Pair err wc)
    note con = Pair
    show ?thesis
    proof (cases err)
      case (Some e)
      have "dep_step fl la api L ?s1 (put i (Deciding e) (view s i) ?s1)"
        using dep_step.connect_failed [of ?s1 i start "view ?s1 i" ?c "se_connect se" e wc fl la api L] con Some d by simp
      then have "reaches fl la api L i (Deciding e) (view s i) s" by (intro reaches_first [OF step1] reaches_step)
      then show ?thesis using ro Inr con Some d by (auto simp: runOnce_def session_phase_def)
    next
      case None
      let ?rs2 = "(view s i)\<lparr>run_world := conn_opened d (shared s)\<rparr>"
      let ?s2 = "put i (Connected start wc) ?rs2 ?s1"
      have step2: "dep_step fl la api L ?s1 ?s2"
        using dep_step.connect [of ?s1 i start "view ?s1 i" ?c "se_connect se" wc fl la api L] con None d by simp
      have free2: "slot_free ?s2" using free by (intro slot_free_put) simp_all
      have wc: "conn wc = Some PgConn" "relations wc = Map.empty" "slotName wc = SlotName ?c" "publicationName wc = PublicationName ?c"
        using con None by (auto simp: connect_def newWALConsumer_def split: option.splits)
      have sc: "wc' = started_consumer ?c start"
        if "startStreaming (se_identify se) (se_start se) start wc = (None, wc')" for wc'
        using that wc by (cases wc) (auto simp: startStreaming_def started_consumer_def split: option.splits if_splits)
      have "session_phase fl la api L i res (?rs2\<lparr>run_driver := d', run_world := w'\<rparr>) ?s2"
        using connected_steps [OF _ free2 wc _ _ f Inr, where i = i and fl = fl] ro Inr con None d sc
        by (auto simp: runOnce_def session_phase_def session_stream_def Let_def
            split: prod.splits option.splits loop_result.splits)
      then show ?thesis by (intro session_phase_first [OF step1] session_phase_first [OF step2]) simp
    qed
  qed
qed

text \<open>The reconnect loop, round by round: whatever \<open>run_loop\<close> computes for a process, the deployment
  can do with the steps of that process.\<close>

definition simulated :: "(rat \<Rightarrow> rat) \<Rightarrow> lsn_api \<Rightarrow> wal_api \<Rightarrow> (lsn \<times> parsedInsert list) list
    \<Rightarrow> nat \<Rightarrow> deployment \<Rightarrow> run_result \<Rightarrow> bool" where
  "simulated fl la api L i s r \<longleftrightarrow>
     (case r of
        Looping rs \<Rightarrow> reaches fl la api L i Ready rs s
      | InSession rs \<Rightarrow> \<exists>resume st. reaches fl la api L i (InStream resume st) rs s
      | RunReturned e rs \<Rightarrow> reaches fl la api L i Stopped rs s
      | Panicked rs \<Rightarrow> reaches fl la api L i Stopped rs s)"

lemma reaches_trans:
  assumes "dep_reachable fl la api L s s1" "moved i ph1 rs1 s s1" "reaches fl la api L i ph rs s1"
  shows "reaches fl la api L i ph rs s"
proof -
  from assms(3) obtain s2 where "dep_reachable fl la api L s1 s2" "moved i ph rs s1 s2" by (auto simp: reaches_def)
  then show ?thesis
    using dep_reachable_trans [OF _ assms(1)] assms(2) by (auto simp: reaches_def moved_def intro!: exI [of _ s2])
qed

lemma simulated_decide:
  assumes "reaches fl la api L i (Deciding err) rs s"
  shows "simulated fl la api L i s (after_session fl re err rs)"
proof -
  let ?r = "after_session fl re err rs"
  from assms obtain s1 where s1: "dep_reachable fl la api L s s1" "moved i (Deciding err) rs s s1" by (auto simp: reaches_def)
  have "dep_step fl la api L s1 (put i (phase_after ?r) (run_result_state ?r) s1)"
    using s1(2) by (intro dep_step.decide) (simp_all add: moved_def)
  then have "reaches fl la api L i (phase_after ?r) (run_result_state ?r) s"
    by (rule reaches_trans [OF s1 reaches_step])
  moreover have "\<nexists>rs'. ?r = InSession rs'"
    by (auto simp: after_session_def slot_busy_wait_def backoff_wait_def Let_def split: prod.splits option.splits)
  ultimately show ?thesis by (cases ?r) (simp_all add: simulated_def phase_after_def)
qed

interpretation run_process: run_invariant fl la api
    "\<lambda>r. (\<forall>j. j \<noteq> i \<longrightarrow> \<not> streaming (procs s j)) \<longrightarrow> simulated fl la api L i s r"
    "\<lambda>re rs. server_faithful la api L (re_session re) (run_driver rs) (run_world rs)"
  for fl la api L i s
proof (unfold_locales, intro impI)
  fix rs :: run_state and re :: round_env
  assume "(\<forall>j. j \<noteq> i \<longrightarrow> \<not> streaming (procs s j)) \<longrightarrow> simulated fl la api L i s (Looping rs)"
    and f: "server_faithful la api L (re_session re) (run_driver rs) (run_world rs)"
    and idle: "\<forall>j. j \<noteq> i \<longrightarrow> \<not> streaming (procs s j)"
  then obtain s1 where s1: "dep_reachable fl la api L s s1" "moved i Ready rs s s1"
    by (auto simp: simulated_def reaches_def)
  then have m: "p_phase (procs s1 i) = Ready" "view s1 i = rs" "shared s1 = run_world rs"
    using moved_shared [OF s1(2)] by (simp_all add: moved_def)
  have "\<not> streaming (procs s1 j)" for j
    using idle s1(2) by (cases "j = i") (auto simp: moved_def streaming_def)
  then have free: "slot_free s1" by (simp add: slot_free_def)
  obtain res d w where r: "runOnce la api (re_session re) (run_driver rs) (run_world rs) = (res, d, w)"
    using prod_cases3 by blast
  let ?rs = "rs\<lparr>run_driver := d, run_world := w\<rparr>"
  have "session_phase fl la api L i res ?rs s1"
    using runOnce_steps [OF m(1) free refl, where fl = fl and la = la and api = api and L = L and se = "re_session re"
        and res = res and d' = d and w' = w] f r m by simp
  then have "session_phase fl la api L i res ?rs s"
    using reaches_trans [OF s1] by (auto simp: session_phase_def split: session_result.splits)
  then show "simulated fl la api L i s (run_round fl la api re rs)"
    using simulated_decide [of fl la api L i _ ?rs s re]
    by (cases res) (simp_all add: session_phase_def run_round_def r simulated_def [of fl la api L i s "InSession ?rs"])
qed

end
