(* ===== verification/Pglg_Progress.thy ===== *)
theory Pglg_Progress
  imports Pglg_Delivery
begin

text \<open>
  Progress of a streaming session. When the database, the service and the connection answer, a
  session does not return, and a round that begins at or after the batch deadline leaves every
  transaction received before it answered for and passed by the durable cursor.
\<close>

section \<open>A healthy environment\<close>

definition healthy_tx :: "tx_env \<Rightarrow> bool" where
  "healthy_tx te \<longleftrightarrow> tx_begin te = None \<and> (\<forall>query args. tx_exec_dlq te query args = None) \<and>
     tx_exec_cursor te = None \<and> tx_commit te = CommitOk"

text \<open>The service returns one result per job, in any order, each with the job's correlation id;
  it may reject any of them.\<close>

definition answers_each :: "(Job list \<Rightarrow> go_error + SubmitResult list) \<Rightarrow> bool" where
  "answers_each submit \<longleftrightarrow> (\<forall>jobs. \<exists>results. submit jobs = Inr results \<and>
     mset (map r_CorrelationID results) = mset (map CorrelationID jobs))"

definition healthy_flush :: "flush_env \<Rightarrow> bool" where
  "healthy_flush fe \<longleftrightarrow> answers_each (fe_submit fe) \<and> healthy_tx (fe_tx fe)"

text \<open>The connection times out or delivers a message whose header can be read.\<close>

definition readable :: "wal_api \<Rightarrow> go_error + backend_msg \<Rightarrow> bool" where
  "readable api r \<longleftrightarrow>
     (case r of
        Inl err \<Rightarrow> pgconn_Timeout api err
      | Inr (CopyData (b # body)) \<Rightarrow>
          (b = PrimaryKeepaliveMessageByteID \<longrightarrow> (\<exists>x. ParsePrimaryKeepaliveMessage api body = Inr x)) \<and>
          (b = XLogDataByteID \<longrightarrow> (\<exists>x. ParseXLogData api body = Inr x))
      | Inr _ \<Rightarrow> True)"

definition healthy :: "wal_api \<Rightarrow> iter_env \<Rightarrow> bool" where
  "healthy api en \<longleftrightarrow> ie_done en = None \<and> healthy_flush (ie_batch_flush en) \<and> healthy_flush (ie_size_flush en) \<and>
     healthy_tx (ie_idle_tx en) \<and> ie_status_answer en = None \<and> ie_reply_answer en = None \<and>
     (\<forall>deadline. readable api (ie_receive en deadline))"

section \<open>No step fails\<close>

lemma persist_healthy:
  assumes "lsn_api_ok la" "healthy_tx te"
  shows "\<exists>w'. persistFlushResult la te d rows l w = (None, w')"
  using assms insertDLQRows_ok [of rows "tx_exec_dlq te"]
  by (cases "rows = []") (simp_all add: persistFlushResult_def healthy_tx_def insertDLQRows_def writeCursorTx_ok Let_def)

lemma flushBatch_healthy:
  assumes la: "lsn_api_ok la" and fe: "healthy_flush fe" and ids: "distinct (map cid_of ins)"
  shows "\<exists>wc' w'. flushBatch la fe d ins l wc w = (None, wc', w')"
proof -
  obtain results where r: "fe_submit fe (map toJob ins) = Inr results"
    "mset (map r_CorrelationID results) = mset (map CorrelationID (map toJob ins))"
    using fe unfolding healthy_flush_def answers_each_def by blast
  then have "mapResults ins results = Inr (rejected_rows ins results)"
    using ids by (simp add: mapResults_Inr toJob_def comp_def)
  moreover have "fst (persistFlushResult la (fe_tx fe) d rows l w2) = None" for rows w2
    using persist_healthy [OF la, of "fe_tx fe" d rows l w2] fe by (auto simp: healthy_flush_def)
  ultimately show ?thesis
    using r(1) by (simp add: flushBatch_def Let_def sendStandbyStatus_def case_prod_beta)
qed

lemma flush_pending_healthy:
  assumes "lsn_api_ok la" "healthy_flush fe" "distinct (map cid_of (pendingInserts st))"
  shows "\<exists>st'. flush_pending la d fe st = Running st'"
  using flushBatch_healthy [OF assms, of d "pendingCommitLSN st" "wal st" "world st"] by (auto simp: flush_pending_def)

lemma idle_flush_healthy:
  assumes "lsn_api_ok la" "healthy_tx (ie_idle_tx en)"
  shows "\<exists>st'. idle_flush la d en st = Running st'"
  using persist_healthy [OF assms, of d "[]" "clientXLogPos (wal st)" "world st"]
  by (cases rule: idle_flush_cases [of la d en st]) auto

lemma standby_due_healthy:
  assumes "lsn_api_ok la" "healthy api en"
  shows "\<exists>st'. standby_due la d en now st = Running st'"
proof -
  obtain st' where "idle_flush la d en st = Running st'"
    using idle_flush_healthy [OF assms(1), of en d st] assms(2) by (auto simp: healthy_def)
  then show ?thesis using assms(2) by (simp add: standby_due_def sendStandbyStatus_def healthy_def Let_def)
qed

lemma receiveMessage_healthy:
  assumes "readable api (receive deadline)" "receiveMessage api receive now None deadline wc = (Inl err, wc', us)"
  shows "err = ErrStandbyTimeout"
  using assms
  by (auto simp: receiveMessage_def readable_def sendStandbyStatus_def Let_def
      split: sum.splits backend_msg.splits list.splits prod.splits if_splits)

section \<open>The received rows\<close>

text \<open>The rows received have correlation ids of their own.\<close>

definition unique_ids :: "stream \<Rightarrow> bool" where
  "unique_ids st \<longleftrightarrow> distinct (map cid_of (tx_rows (t_done (txs_of (decoded st)))))"

lemma unique_ids_mono:
  assumes "prefix (decoded st) (decoded st')" "unique_ids st'"
  shows "unique_ids st"
  using t_done_mono [OF assms(1)] assms(2) by (auto simp: unique_ids_def elim!: prefixE)

lemma unique_ids_log:
  assumes "received_prefix L st" "distinct (map pid (tx_rows L))" "\<And>p. p \<in> set (tx_rows L) \<Longrightarrow> int64_range (pid p)"
  shows "unique_ids st"
proof -
  have "distinct (map cid_of (tx_rows L))"
    using correlation.distinct_enc [of "map pid (tx_rows L)"] assms(2,3) by (auto simp: comp_def)
  then show ?thesis using assms(1) by (auto simp: unique_ids_def received_prefix_def elim!: prefixE)
qed

lemma pending_unique:
  assumes "conserved n start st" "unique_ids st"
  shows "distinct (map cid_of (pendingInserts st))"
proof -
  have cid: "map CorrelationID (map toJob ps) = map cid_of ps" for ps by (simp add: toJob_def)
  have "batches n st @ map toJob (pendingInserts st) = map toJob (tx_rows (t_done (txs_of (decoded st))))"
    using assms(1) by (simp add: conserved_def)
  from arg_cong [OF this, of "map CorrelationID"]
  have "map CorrelationID (batches n st) @ map cid_of (pendingInserts st) = map cid_of (tx_rows (t_done (txs_of (decoded st))))"
    unfolding map_append cid .
  then show ?thesis using assms(2) unfolding unique_ids_def by (metis distinct_append)
qed

section \<open>A round in a healthy environment\<close>

lemma batch_due_healthy:
  assumes "lsn_api_ok la" "healthy api en" "distinct (map cid_of (pendingInserts st))"
  shows "\<exists>st' now. batch_due la d en st = (Running st', now)"
proof -
  have "\<exists>st'. flush_pending la d (ie_batch_flush en) st = Running st'"
    using flush_pending_healthy [OF assms(1) _ assms(3)] assms(2) by (simp add: healthy_def)
  then show ?thesis by (auto simp: batch_due_def)
qed

lemma handle_message_healthy:
  assumes la: "lsn_api_ok la" and h: "healthy api en" and c: "conserved n start st"
    and u: "unique_ids (result_state (handle_message la d en msg (log_message msg st)))"
  shows "\<exists>st'. handle_message la d en msg (log_message msg st) = Running st'"
proof (cases msg)
  case (walCommit l)
  let ?st = "commit_rows en d l (log_message msg st)"
  have "decoded ?st = decoded (log_message msg st)" by (simp add: commit_rows_def Let_def)
  then have "unique_ids ?st" using u by (simp add: unique_ids_def decoded_message)
  moreover have "conserved n start ?st" using conserved_commit [OF c] walCommit by simp
  ultimately have "distinct (map cid_of (pendingInserts ?st))" using pending_unique by blast
  then have "\<exists>st'. flush_pending la d (ie_size_flush en) ?st = Running st'"
    using flush_pending_healthy [OF la] h by (simp add: healthy_def)
  then show ?thesis using walCommit by (auto simp: handle_message_def size_flush_def)
qed (auto simp: handle_message_def split: sum.splits option.splits)

lemma receive_step_healthy:
  assumes la: "lsn_api_ok la" and h: "healthy api en" and c: "conserved n start st"
    and u: "unique_ids (result_state (receive_step la api d en st))"
  shows "\<exists>st'. receive_step la api d en st = Running st'"
proof -
  let ?deadline = "nextReceiveDeadline (nextBatchAt st) (nextStandbyAt st)"
  obtain res wc us where r: "receiveMessage api (ie_receive en) (ie_reply_now en) None ?deadline (wal st) = (res, wc, us)"
    using prod_cases3 by blast
  define st1 where "st1 = st\<lparr>wal := wc, world := sent us (world st)\<rparr>"
  have "relations wc = relations (wal st)"
    using r by (cases rule: receiveMessage_cases) (auto simp: received_def)
  then have c1: "conserved n start st1" using c by (simp add: conserved_def batches_def st1_def)
  have step: "receive_step la api d en st =
    (case res of
       Inl err \<Rightarrow> if errors_Is err ErrStandbyTimeout then Running st1
                  else Returned (Wrapf ''pglg: receive: %w'' [] err) st1
     | Inr None \<Rightarrow> Running st1
     | Inr (Some walData) \<Rightarrow>
       (case parseWALMessage (pglogrepl_ParseV2 api) walData of
          Inl err \<Rightarrow> Running (with_metrics [Incr ''jack.courier.wal.parse.error'' []] st1)
        | Inr None \<Rightarrow> Running st1
        | Inr (Some msg) \<Rightarrow> handle_message la d en msg (log_message msg st1)))"
    using h r by (simp add: receive_step_def healthy_def st1_def Let_def with_metrics_def log_message_def
        split: sum.splits option.splits)
  have "err = ErrStandbyTimeout" if "res = Inl err" for err
    using receiveMessage_healthy [of api "ie_receive en" ?deadline] r h that by (auto simp: healthy_def)
  then show ?thesis
    using handle_message_healthy [OF la h c1, of d] u unfolding step
    by (auto split: sum.splits option.splits)
qed

text \<open>What a healthy round is made of.\<close>

lemma iteration_healthy:
  assumes la: "lsn_api_ok la" and h: "healthy api en" and c: "conserved n start st"
    and u: "unique_ids (result_state (iteration la api d en st))"
  obtains m now m2 st' where "batch_due la d en st = (Running m, now)" "standby_due la d en now m = Running m2"
    "receive_step la api d en m2 = Running st'" "iteration la api d en st = Running st'"
proof -
  have "prefix (decoded st) (decoded (result_state (iteration la api d en st)))"
    using decoding.iteration_inv [of "decoded st" st la api d en] by (simp add: result_holds_state)
  then have "unique_ids st" using u by (rule unique_ids_mono)
  then obtain m now where m: "batch_due la d en st = (Running m, now)"
    using batch_due_healthy [OF la h pending_unique [OF c]] by blast
  obtain m2 where m2: "standby_due la d en now m = Running m2" using standby_due_healthy [OF la h] by blast
  have it: "iteration la api d en st = receive_step la api d en m2"
    using m m2 h by (simp add: iteration_def healthy_def)
  have "conserved n start m" using conservation.due [OF c, where en = en and la = la and d = d] m by simp
  then have "conserved n start m2" using conservation.standby_due_inv [where st = m and en = en and la = la and d = d and now = now] m2 by simp
  then obtain st' where "receive_step la api d en m2 = Running st'"
    using receive_step_healthy [OF la h] u unfolding it by blast
  with m m2 it show thesis by (intro that) simp_all
qed

section \<open>The backlog\<close>

text \<open>A transaction that is finished: the durable cursor has passed it, and the service has answered
  for its rows. A transaction without rows is finished at once; the cursor need not pass it.\<close>

definition finished :: "driver \<Rightarrow> world \<Rightarrow> lsn \<times> parsedInsert list \<Rightarrow> bool" where
  "finished d w t \<longleftrightarrow> (snd t = [] \<or> fst t \<le> driver_cursor d (cursors w) \<and> (\<forall>p \<in> set (snd t). settled d w p))"

definition backlog :: "driver \<Rightarrow> nat \<Rightarrow> lsn \<Rightarrow> stream \<Rightarrow> bool" where
  "backlog d n start st \<longleftrightarrow> conserved n start st \<and>
     (\<exists>D1 D2. t_done (txs_of (decoded st)) = D1 @ D2 \<and> pendingInserts st = tx_rows D2 \<and>
        (\<forall>t \<in> set D1. finished d (world st) t))"

lemma finished_world_le: "finished d w t \<Longrightarrow> world_le d w w' \<Longrightarrow> finished d w' t"
  using settled_world_le [of d w _ w'] by (auto simp: finished_def world_le_def)

text \<open>Nothing pending: all that was received is finished.\<close>

lemma backlog_empty:
  assumes "backlog d n start st" "pendingInserts st = []" "t \<in> set (t_done (txs_of (decoded st)))"
  shows "finished d (world st) t"
proof -
  from assms(1,2) obtain D1 D2 where D: "t_done (txs_of (decoded st)) = D1 @ D2" "tx_rows D2 = []"
    "\<forall>t \<in> set D1. finished d (world st) t" by (auto simp: backlog_def)
  then have "snd t = []" if "t \<in> set D2" using that by (auto simp: tx_rows_def)
  then show ?thesis using D assms(3) by (auto simp: finished_def)
qed

lemma backlog_frame:
  assumes "backlog d n start st" "conserved n start st'" "world_le d (world st) (world st')"
    "t_done (txs_of (decoded st')) = t_done (txs_of (decoded st))" "pendingInserts st' = pendingInserts st"
  shows "backlog d n start st'"
  using assms finished_world_le [OF _ assms(3)] unfolding backlog_def by (metis (no_types, lifting))

lemma last_commit_ge: "(l, rows) \<in> set txs \<Longrightarrow> l \<le> last_commit start txs"
proof -
  have "x \<le> fold max ls x" "l \<in> set ls \<Longrightarrow> l \<le> fold max ls x" for ls and x :: lsn
    by (induction ls arbitrary: x) (auto intro: order_trans [OF max.cobounded2] order_trans [OF max.cobounded1])
  then show "(l, rows) \<in> set txs \<Longrightarrow> l \<le> last_commit start txs" unfolding last_commit_def by force
qed

text \<open>A flush that succeeds finishes everything that was received.\<close>

lemma backlog_flush:
  assumes la: "lsn_api_ok la" and b: "backlog d n start st"
  shows "result_holds (backlog d n start) (\<lambda>_. True) (flush_pending la d fe st)"
proof (cases rule: flush_pending_cases [of la d fe st])
  case (ok wc w)
  let ?st = "st\<lparr>pendingInserts := [], nextBatchAt := 0, wal := wc, world := w\<rparr>" and ?T = "t_done (txs_of (decoded st))"
  from b obtain D1 D2 where D: "?T = D1 @ D2" "pendingInserts st = tx_rows D2" "\<forall>t \<in> set D1. finished d (world st) t"
    and c: "conserved n start st" by (auto simp: backlog_def)
  have c': "conserved n start ?st" using conserved_flush [OF c, of la d fe] ok(1) by simp
  have le: "world_le d (world st) w" using world_le_flush [OF la ok(2)] .
  have "finished d w t" if t: "t \<in> set D2" for t
  proof (cases "snd t = []")
    case False
    then have ne: "pendingInserts st \<noteq> []" and rows: "set (snd t) \<subseteq> set (pendingInserts st)"
      using D(2) t by (auto simp: tx_rows_def)
    have pc: "fst t \<le> pendingCommitLSN st"
      using c D(1) t last_commit_ge [of "fst t" "snd t" ?T start] by (simp add: conserved_def)
    from la ne ok(2) show ?thesis
    proof (cases rule: flushBatch_cases)
      case (applied results rows')
      have "settled d w p" if "p \<in> set (snd t)" for p
        using settled_by_flush [OF applied(2), of p w "tx_now (fe_tx fe)" d] that rows applied(3,5) by auto
      then show ?thesis using applied(4) pc by (simp add: finished_def le_max_iff_disj)
    qed simp
  qed (simp add: finished_def)
  then have "\<forall>t \<in> set ?T. finished d w t" using D finished_world_le [OF _ le] by auto
  then have "backlog d n start ?st" unfolding backlog_def
    using c' by (intro conjI exI [of _ ?T] exI [of _ "[]"]) simp_all
  then show ?thesis using ok(1) by simp
qed simp

lemma backlog_message:
  assumes la: "lsn_api_ok la" and b: "backlog d n start st"
  shows "result_holds (backlog d n start) (\<lambda>_. True) (handle_message la d en msg (log_message msg st))"
proof (cases "\<exists>l. msg = walCommit l")
  case True
  then obtain l where l: "msg = walCommit l" by blast
  let ?st = "commit_rows en d l (log_message msg st)"
  from b obtain D1 D2 where D: "t_done (txs_of (decoded st)) = D1 @ D2" "pendingInserts st = tx_rows D2"
    "\<forall>t \<in> set D1. finished d (world st) t" and c: "conserved n start st" by (auto simp: backlog_def)
  have "world_le d (world st) (world ?st)" by (simp add: commit_rows_def log_message_def Let_def world_le_def)
  then have "\<forall>t \<in> set D1. finished d (world ?st) t" using D(3) finished_world_le by blast
  moreover have "t_done (txs_of (decoded ?st)) = D1 @ D2 @ [(l, t_open (txs_of (decoded st)))]"
    "pendingInserts ?st = tx_rows (D2 @ [(l, t_open (txs_of (decoded st)))])"
    using D(1,2) c l by (simp_all add: commit_rows_def log_message_def Let_def conserved_def)
  moreover have "conserved n start ?st" using conserved_commit [OF c, of en d l] l by simp
  ultimately have "backlog d n start ?st" unfolding backlog_def by blast
  then show ?thesis using backlog_flush [OF la] l by (simp add: handle_message_def size_flush_def)
next
  case False
  then have "\<exists>st'. handle_message la d en msg (log_message msg st) = Running st' \<and>
      pendingInserts st' = pendingInserts st \<and> world_le d (world st) (world st') \<and> decoded st' = decoded st @ [msg]"
    by (cases msg) (auto simp: handle_message_def log_message_def world_le_def split: option.splits sum.splits)
  then obtain st' where st': "handle_message la d en msg (log_message msg st) = Running st'"
    "pendingInserts st' = pendingInserts st" "world_le d (world st) (world st')" "decoded st' = decoded st @ [msg]"
    by blast
  have "conserved n start st'" using conserved_message [of n start st la d en msg] b st'(1) by (simp add: backlog_def)
  moreover have "t_done (tx_step msg (txs_of (decoded st))) = t_done (txs_of (decoded st))"
    using False by (cases msg) (auto split: option.splits sum.splits)
  ultimately have "backlog d n start st'" using backlog_frame [OF b] st' by simp
  then show ?thesis using st'(1) by simp
qed

interpretation backlog: stream_invariant la d
    "\<lambda>st. lsn_api_ok la \<longrightarrow> backlog d n start st" "\<lambda>_. True" "\<lambda>_. True" "\<lambda>_. True"
  for la d n start
proof unfold_locales
  fix st :: stream and en msg
  let ?I = "\<lambda>st. lsn_api_ok la \<longrightarrow> backlog d n start st"
  assume I: "?I st"
  have weak: "result_holds ?I (\<lambda>_. True) r" if "lsn_api_ok la \<Longrightarrow> result_holds (backlog d n start) (\<lambda>_. True) r" for r
    using that by (cases r) auto
  have "backlog d n start (st\<lparr>nextBatchAt := t\<rparr>)" if "backlog d n start st" for t
    using that backlog_frame [OF that, of "st\<lparr>nextBatchAt := t\<rparr>"] by (simp add: backlog_def conserved_def batches_def)
  then show "result_holds ?I (\<lambda>_. True) (fst (batch_due la d en st))"
    using I backlog_flush [of la d n start st] by (intro weak) (simp add: batch_due_fst)
  show "result_holds ?I (\<lambda>_. True) (idle_flush la d en st)"
  proof (rule weak)
    assume la: "lsn_api_ok la"
    then have b: "backlog d n start st" using I by blast
    show "result_holds (backlog d n start) (\<lambda>_. True) (idle_flush la d en st)"
    proof (cases rule: idle_flush_cases [of la d en st])
      case (ok w)
      have "conserved n start (st\<lparr>wal := setFlushLSN (clientXLogPos (wal st)) (wal st), world := w\<rparr>)"
        using b persist_frame(1) [OF ok(2)] by (simp add: backlog_def conserved_def batches_def)
      then show ?thesis using backlog_frame [OF b] world_le_persist [OF la ok(2)] ok(1) by simp
    qed (use b in simp_all)
  qed
  show "result_holds ?I (\<lambda>_. True) (handle_message la d en msg (log_message msg st))"
    using I backlog_message [of la d n start st] by (intro weak) blast
next
  fix st :: stream and t now ms p
  assume I: "lsn_api_ok la \<longrightarrow> backlog d n start st"
  note defs = conserved_def batches_def world_le_def send_status_def with_metrics_def advance_def
  have "conserved n start st" if "lsn_api_ok la" using I that by (simp add: backlog_def)
  note c = this [unfolded conserved_def batches_def]
  show "lsn_api_ok la \<longrightarrow> backlog d n start (send_status now st)" "lsn_api_ok la \<longrightarrow> backlog d n start (st\<lparr>nextStandbyAt := t\<rparr>)"
    "lsn_api_ok la \<longrightarrow> backlog d n start (with_metrics ms st)" "lsn_api_ok la \<longrightarrow> backlog d n start (advance p st)"
    by (rule impI, rule backlog_frame [where st = st]; use I c in \<open>simp add: defs\<close>)+
qed (simp_all add: result_holds_state)

lemma backlog_start:
  "relations wc = Map.empty \<Longrightarrow> backlog d (length (submissions w)) start (stream_start d now wc start w)"
  using conserved_start [of wc w start d now]
  by (simp add: backlog_def) (simp add: stream_start_def empty_txlog_def)

section \<open>Progress\<close>

text \<open>A healthy round that begins at or after the batch deadline finishes all that was received
  before it.\<close>

lemma round_finishes:
  assumes la: "lsn_api_ok la" and h: "healthy api en" and b: "backlog d n start st" and t: "timed d st"
    and due: "nextBatchAt st \<le> ie_now en"
    and u: "unique_ids (result_state (iteration la api d en st))"
    and tx: "t \<in> set (t_done (txs_of (decoded st)))"
  shows "finished d (world (result_state (iteration la api d en st))) t"
proof -
  have "conserved n start st" using b by (simp add: backlog_def)
  from iteration_healthy [OF la h this u] obtain m now m2 st' where
    m: "batch_due la d en st = (Running m, now)" "standby_due la d en now m = Running m2"
      "receive_step la api d en m2 = Running st'" "iteration la api d en st = Running st'" .
  have "backlog d n start m" using backlog.due [where st = st and en = en and la = la and d = d] la b m(1) by simp
  moreover have "pendingInserts m = [] \<and> decoded m = decoded st"
    using m(1) due t
    by (cases rule: flush_pending_cases [of la d "ie_batch_flush en" st]) (auto simp: batch_due_def timed_def split: if_splits)
  ultimately have "finished d (world m) t" using backlog_empty tx by metis
  moreover have "world_le d (world m) (world m2)"
    using growth.standby_due_inv [where st = m and w = "world m" and la = la and d = d and en = en and now = now] la m(2) by simp
  moreover from this have "world_le d (world m) (world st')"
    using growth.receive_step_inv [where st = m2 and w = "world m" and la = la and d = d and en = en and api = api] la m(3) by simp
  ultimately show ?thesis using m(4) finished_world_le by simp
qed

text \<open>The loop: it does not return, and keeps the invariants.\<close>

lemma stream_healthy:
  assumes la: "lsn_api_ok la" and max: "0 < MaxBatchSize (cfg d)"
    and h: "\<And>en. en \<in> set ens \<Longrightarrow> healthy api en \<and> clock_ok d en"
    and b: "backlog d n start st" and t: "timed d st"
    and u: "unique_ids (result_state (stream_loop la api d ens st))"
  shows "\<exists>st'. stream_loop la api d ens st = Running st' \<and> backlog d n start st' \<and> timed d st'"
  using h b t u
proof (induction ens arbitrary: st)
  case (Cons en ens)
  let ?r = "iteration la api d en st"
  have c: "conserved n start st" using Cons.prems(2) by (simp add: backlog_def)
  have "prefix (decoded (result_state ?r)) (decoded (result_state (stream_loop la api d (en # ens) st)))"
    using decoding.stream_inv [where st = "result_state ?r" and ms = "decoded (result_state ?r)" and ens = ens and la = la and d = d and api = api]
    by (cases ?r) (simp_all add: result_holds_state)
  then have "unique_ids (result_state ?r)" using Cons.prems(4) unique_ids_mono by blast
  from iteration_healthy [OF la _ c this] Cons.prems(1) [of en] obtain st' where it: "?r = Running st'" by auto
  have "backlog d n start st'" "timed d st'"
    using backlog.iteration_inv [where st = st and en = en and la = la and d = d and api = api and n = n and start = start]
      timing.iteration_inv [where st = st and en = en and la = la and d = d and api = api]
      la max it Cons.prems by simp_all
  then show ?case using Cons.IH [of st'] Cons.prems it by simp
qed simp


lemma timed_start: "0 < MaxBatchSize (cfg d) \<Longrightarrow> timed d (stream_start d now wc start w)"
  by (simp add: timed_def stream_start_def)

lemma session_progress:
  assumes la: "lsn_api_ok la" and max: "0 < MaxBatchSize (cfg d)" and wc: "relations wc = Map.empty"
    and h: "\<And>en. en \<in> set ens \<Longrightarrow> healthy api en \<and> clock_ok d en"
    and u: "unique_ids (result_state (processWALStream la api d now ens wc start w))"
  obtains st where "processWALStream la api d now ens wc start w = Running st"
    "\<And>pre en suf st1 t. ens = pre @ en # suf \<Longrightarrow> processWALStream la api d now pre wc start w = Running st1 \<Longrightarrow>
       nextBatchAt st1 \<le> ie_now en \<Longrightarrow> t \<in> set (t_done (txs_of (decoded st1))) \<Longrightarrow> finished d (world st) t"
proof -
  let ?st = "stream_start d now wc start w" and ?n = "length (submissions w)"
  note b = backlog_start [OF wc, of d w start now] and t = timed_start [OF max, of now wc start w]
  obtain st where st: "stream_loop la api d ens ?st = Running st"
    using stream_healthy [OF la max h b t u [unfolded processWALStream_def]] by blast
  have "finished d (world st) tx"
    if e: "ens = pre @ en # suf" and st1: "stream_loop la api d pre ?st = Running st1"
      and due: "nextBatchAt st1 \<le> ie_now en" and tx: "tx \<in> set (t_done (txs_of (decoded st1)))" for pre en suf st1 tx
  proof -
    let ?r = "iteration la api d en st1"
    have "\<exists>st2. ?r = Running st2 \<and> stream_loop la api d suf st2 = Running st"
      using st e st1 by (auto simp: receive_loop.run_append split: loop_result.splits)
    then obtain st2 where r: "?r = Running st2" "stream_loop la api d suf st2 = Running st" by blast
    have grow: "prefix (decoded st2) (decoded st)" "world_le d (world st2) (world st)"
      using decoding.stream_inv [where st = st2 and ms = "decoded st2" and ens = suf and la = la and d = d and api = api]
        growth.stream_inv [where st = st2 and w = "world st2" and ens = suf and la = la and d = d and api = api] r(2) la
      by simp_all
    have "prefix (decoded st1) (decoded st2)"
      using decoding.iteration_inv [where st = st1 and ms = "decoded st1" and en = en and la = la and d = d and api = api] r(1) by simp
    moreover have u2: "unique_ids st2" using unique_ids_mono [OF grow(1)] u st by (simp add: processWALStream_def)
    ultimately have "unique_ids st1" using unique_ids_mono by blast
    then have inv: "backlog d ?n start st1" "timed d st1"
      using stream_healthy [OF la max _ b t, of pre api] h e st1 by auto
    have hen: "healthy api en" using h e by simp
    have "finished d (world st2) tx" using round_finishes [OF la hen inv due _ tx] r(1) u2 by simp
    then show ?thesis using finished_world_le grow(2) by blast
  qed
  from that [unfolded processWALStream_def, OF st this] show thesis .
qed

end
