(* ===== verification/Pglg_Partition.thy ===== *)
theory Pglg_Partition
  imports Pglg_Config "HOL-Library.List_Lexorder" "HOL-Library.Char_ord"
begin

text \<open>
  \<open>partition.go\<close>: partitions of the outbox table are created ahead of time and dropped after the
  retention, on the primary and on the configured replicas.

  A database is the set of tables of the schema (each an attached partition with its bounds, or
  a detached table) and the rows of the partition meta table, in the order a query returns them.
  The bounds in a \<open>CREATE TABLE\<close> statement cross the connection as text; \<open>pg_in\<close> is the server's
  reading of that text. The server refuses an empty range and a range that overlaps an attached
  partition. What else can fail (the connection, a lock, the commit) is an answer of the
  environment, one record per statement group.

  The loops over the partition window are \<open>range_loop\<close>, which need not end when the interval is
  not positive; \<open>range_loop_windows\<close> shows that it ends otherwise and lists the instants it visits.
\<close>

section \<open>The loop over a window\<close>

partial_function (option) range_loop ::
  "duration \<Rightarrow> gotime \<Rightarrow> (nat \<Rightarrow> gotime \<Rightarrow> 's \<Rightarrow> 's loop_result) \<Rightarrow> nat \<Rightarrow> gotime \<Rightarrow> 's \<Rightarrow> 's loop_result option"
where
  "range_loop interval stop body i t s =
     (if t < stop then
        (case body i t s of
           Returned err s' \<Rightarrow> Some (Returned err s')
         | Running s' \<Rightarrow> range_loop interval stop body (i + 1) (t + interval) s')
      else Some (Running s))"

fun run_windows :: "(nat \<Rightarrow> gotime \<Rightarrow> 's \<Rightarrow> 's loop_result) \<Rightarrow> (nat \<times> gotime) list \<Rightarrow> 's \<Rightarrow> 's loop_result" where
  "run_windows body [] s = Running s"
| "run_windows body ((i, t) # ws) s =
     (case body i t s of
        Returned err s' \<Rightarrow> Returned err s'
      | Running s' \<Rightarrow> run_windows body ws s')"

text \<open>The instants \<open>t, t + interval, \<dots>\<close> before \<open>stop\<close>.\<close>

definition windows :: "duration \<Rightarrow> gotime \<Rightarrow> gotime \<Rightarrow> gotime list" where
  "windows interval t stop =
     map (\<lambda>k. t + int k * interval) [0..<nat ((stop - t + interval - 1) div interval)]"

interpretation window_loop: scripted_loop "\<lambda>(i, t). body i t" "run_windows body"
  for body :: "nat \<Rightarrow> gotime \<Rightarrow> 's \<Rightarrow> 's loop_result"
  by unfold_locales auto

lemma windows_Nil: "0 < interval \<Longrightarrow> stop \<le> t \<Longrightarrow> windows interval t stop = []"
proof -
  assume "0 < interval" "stop \<le> t"
  then have "(stop - t + interval - 1) div interval < 1"
    using le_div_iff [of interval 1 "stop - t + interval - 1"] by linarith
  then show ?thesis by (simp add: windows_def)
qed

lemma windows_Cons:
  assumes "0 < interval" "t < stop"
  shows "windows interval t stop = t # windows interval (t + interval) stop"
proof -
  let ?n = "\<lambda>t. nat ((stop - t + interval - 1) div interval)"
  have "stop - t + interval - 1 = (stop - (t + interval) + interval - 1) + 1 * interval" by simp
  then have "(stop - t + interval - 1) div interval = (stop - (t + interval) + interval - 1) div interval + 1"
    using assms(1) by (simp only: div_mult_self1)
  moreover have "0 \<le> (stop - (t + interval) + interval - 1) div interval"
    using assms by (simp add: pos_imp_zdiv_nonneg_iff)
  ultimately have "?n t = Suc (?n (t + interval))" by simp
  then show ?thesis
    unfolding windows_def by (simp add: upt_conv_Cons map_Suc_upt [symmetric] comp_def algebra_simps del: upt_Suc)
qed

lemma range_loop_windows:
  assumes "0 < interval"
  shows "range_loop interval stop body i t s =
    Some (run_windows body (enumerate i (windows interval t stop)) s)"
proof (induction "nat (stop - t)" arbitrary: i t s rule: less_induct)
  case less
  show ?case
  proof (cases "t < stop")
    case False
    then show ?thesis using windows_Nil [OF assms, of stop t] by (subst range_loop.simps) simp
  next
    case True
    show ?thesis
    proof (cases "body i t s")
      case (Running s')
      have "nat (stop - (t + interval)) < nat (stop - t)" using assms True by simp
      from less [OF this, of "i + 1" s'] show ?thesis
        using True Running windows_Cons [OF assms True] by (subst range_loop.simps) simp
    next
      case (Returned err s')
      then show ?thesis using True windows_Cons [OF assms True] by (subst range_loop.simps) simp
    qed
  qed
qed

lemma set_windows:
  assumes "0 < interval"
  shows "x \<in> set (windows interval t stop) \<longleftrightarrow> (\<exists>k. x = t + int k * interval \<and> x < stop)"
proof -
  have "int k < (stop - t + interval - 1) div interval \<longleftrightarrow> t + int k * interval < stop" for k
  proof -
    have "int k < (stop - t + interval - 1) div interval \<longleftrightarrow> int k + 1 \<le> (stop - t + interval - 1) div interval"
      by linarith
    also have "\<dots> \<longleftrightarrow> (int k + 1) * interval \<le> stop - t + interval - 1"
      by (rule le_div_iff [OF assms])
    finally show ?thesis by (simp add: algebra_simps) linarith
  qed
  then have *: "k < nat ((stop - t + interval - 1) div interval) \<longleftrightarrow> t + int k * interval < stop" for k
    by (simp only: zless_nat_eq_int_zless)
  show ?thesis
  proof
    assume "x \<in> set (windows interval t stop)"
    then obtain k where "k < nat ((stop - t + interval - 1) div interval)" "x = t + int k * interval"
      unfolding windows_def by auto
    then show "\<exists>k. x = t + int k * interval \<and> x < stop" using * by blast
  next
    assume "\<exists>k. x = t + int k * interval \<and> x < stop"
    then obtain k where "k < nat ((stop - t + interval - 1) div interval)" "x = t + int k * interval"
      using * by blast
    then show "x \<in> set (windows interval t stop)" unfolding windows_def by auto
  qed
qed

text \<open>The windows of length \<open>interval\<close> starting at these instants cover everything from the first
  to \<open>stop\<close>.\<close>

lemma windows_cover:
  assumes "0 < interval" "t \<le> x" "x < stop"
  shows "\<exists>l \<in> set (windows interval t stop). l \<le> x \<and> x < l + interval"
proof -
  let ?k = "nat ((x - t) div interval)"
  have k: "int ?k = (x - t) div interval" using assms by (simp add: pos_imp_zdiv_nonneg_iff)
  have "(x - t) div interval * interval \<le> x - t" "x - t < (x - t) div interval * interval + interval"
    using assms(1) by (simp_all add: pos_mod_bound minus_mod_eq_div_mult [symmetric])
  then have "t + int ?k * interval \<le> x" "x < t + int ?k * interval + interval" using k by simp_all
  then show ?thesis
    using assms set_windows [OF assms(1), of "t + int ?k * interval" t stop]
    by (intro bexI [of _ "t + int ?k * interval"]) (auto simp del: int_nat_eq)
qed


section \<open>Databases\<close>

datatype ptable = Attached gotime gotime | Detached

record pdb =
  tables :: "(string \<times> ptable) list"
  meta :: "(string \<times> gotime \<times> gotime) list"

definition has_table :: "string \<Rightarrow> pdb \<Rightarrow> bool" where
  "has_table name db \<longleftrightarrow> name \<in> fst ` set (tables db)"

definition overlaps :: "gotime \<Rightarrow> gotime \<Rightarrow> ptable \<Rightarrow> bool" where
  "overlaps l u t = (case t of Attached l' u' \<Rightarrow> l < u' \<and> l' < u | Detached \<Rightarrow> False)"

text \<open>\<open>CREATE TABLE IF NOT EXISTS name PARTITION OF jobs FOR VALUES FROM (lower) TO (upper)\<close>\<close>

definition sql_create_partition :: "(string \<Rightarrow> gotime option) \<Rightarrow> string \<Rightarrow> string \<Rightarrow> string \<Rightarrow> pdb \<Rightarrow> go_error + pdb" where
  "sql_create_partition pg_in name lowerText upperText db =
     (if has_table name db then Inr db
      else case (pg_in lowerText, pg_in upperText) of
             (Some l, Some u) \<Rightarrow>
               if u \<le> l then Inl (PgError ''42P17'' ''empty range bound'')
               else if list_ex (\<lambda>(n, t). overlaps l u t) (tables db)
                    then Inl (PgError ''42P17'' ''partition would overlap'')
               else Inr (db\<lparr>tables := tables db @ [(name, Attached l u)]\<rparr>)
           | _ \<Rightarrow> Inl (PgError ''22007'' ''invalid input syntax for type timestamp''))"

text \<open>\<open>INSERT INTO meta ... ON CONFLICT DO NOTHING\<close>\<close>

definition sql_insert_meta :: "string \<Rightarrow> gotime \<Rightarrow> gotime \<Rightarrow> pdb \<Rightarrow> pdb" where
  "sql_insert_meta name lower upper db =
     (if name \<in> fst ` set (meta db) then db else db\<lparr>meta := meta db @ [(name, lower, upper)]\<rparr>)"

text \<open>\<open>ALTER TABLE jobs DETACH PARTITION name\<close>\<close>

definition sql_detach :: "string \<Rightarrow> pdb \<Rightarrow> go_error + pdb" where
  "sql_detach name db =
     (case map_of (tables db) name of
        Some (Attached l u) \<Rightarrow>
          Inr (db\<lparr>tables := map (\<lambda>(n, t). if n = name then (n, Detached) else (n, t)) (tables db)\<rparr>)
      | Some Detached \<Rightarrow> Inl (PgError ''42P01'' ''relation is not a partition'')
      | None \<Rightarrow> Inl (PgError ''42P01'' ''relation does not exist''))"

text \<open>\<open>DROP TABLE IF EXISTS name\<close> and \<open>DELETE FROM meta WHERE partition_name = name\<close>\<close>

definition sql_drop :: "string \<Rightarrow> pdb \<Rightarrow> pdb" where
  "sql_drop name db = db\<lparr>tables := filter (\<lambda>(n, t). n \<noteq> name) (tables db)\<rparr>"

definition sql_delete_meta :: "string \<Rightarrow> pdb \<Rightarrow> pdb" where
  "sql_delete_meta name db = db\<lparr>meta := filter (\<lambda>(n, l, u). n \<noteq> name) (meta db)\<rparr>"

section \<open>Names\<close>

definition partitionName :: "driver \<Rightarrow> gotime \<Rightarrow> string" where
  "partitionName d lower = TablePrefix (cfg d) @ ''_jobs_'' @ Format lower partition_layout"

definition parsePartitionLower :: "driver \<Rightarrow> string \<Rightarrow> gotime option" where
  "parsePartitionLower d name =
     (let pre = TablePrefix (cfg d) @ ''_jobs_''
      in if \<not> HasPrefix name pre then None
         else time_Parse partition_layout (drop (length pre) name))"

record expiredPartition =
  ep_name :: string
  ep_upper :: gotime

text \<open>The loop over the sorted names.\<close>

fun collect_expired :: "driver \<Rightarrow> gotime \<Rightarrow> string list \<Rightarrow> expiredPartition list" where
  "collect_expired d cutoff [] = []"
| "collect_expired d cutoff (name # names) =
     (case parsePartitionLower d name of
        None \<Rightarrow> collect_expired d cutoff names
      | Some lower \<Rightarrow>
        (let upper = lower + PartitionInterval (cfg d)
         in if upper > cutoff then collect_expired d cutoff names
            else \<lparr>ep_name = name, ep_upper = upper\<rparr> # collect_expired d cutoff names))"

text \<open>\<open>existing\<close> are the keys of the map, in the order the iteration yields them.\<close>

definition selectExpiredPartitions :: "driver \<Rightarrow> string list \<Rightarrow> gotime \<Rightarrow> expiredPartition list" where
  "selectExpiredPartitions d existing cutoff = collect_expired d cutoff (sort existing)"

section \<open>Creating partitions\<close>

datatype part_commit = PCommitOk | PCommitFailed go_error bool

record part_env =
  pe_query :: "go_error option"
  pe_begin :: "go_error option"
  pe_create :: "go_error option"
  pe_insert :: "go_error option"
  pe_commit :: part_commit

record part_state =
  pdatabase :: pdb
  pmetrics :: "metric list"

definition part_emit :: "metric list \<Rightarrow> part_state \<Rightarrow> part_state" where
  "part_emit ms s = s\<lparr>pmetrics := pmetrics s @ ms\<rparr>"

text \<open>The statements of the transaction that creates and registers a partition.\<close>

definition create_and_register :: "(string \<Rightarrow> gotime option) \<Rightarrow> part_env \<Rightarrow> string \<Rightarrow> gotime \<Rightarrow> gotime \<Rightarrow> pdb
    \<Rightarrow> go_error + pdb" where
  "create_and_register pg_in en partName lower upper db =
     (case pe_create en of
        Some err \<Rightarrow> Inl (Wrapf ''pglg: create partition %s: %w'' [FStr partName] err)
      | None \<Rightarrow>
        (case sql_create_partition pg_in partName (Format lower RFC3339) (Format upper RFC3339) db of
           Inl err \<Rightarrow> Inl (Wrapf ''pglg: create partition %s: %w'' [FStr partName] err)
         | Inr db1 \<Rightarrow>
           (case pe_insert en of
              Some err \<Rightarrow> Inl (Wrapf ''pglg: register partition %s: %w'' [FStr partName] err)
            | None \<Rightarrow> Inr (sql_insert_meta partName lower upper db1))))"

definition create_body :: "(string \<Rightarrow> gotime option) \<Rightarrow> (nat \<Rightarrow> part_env) \<Rightarrow> driver \<Rightarrow> nat \<Rightarrow> gotime
    \<Rightarrow> part_state \<Rightarrow> part_state loop_result" where
  "create_body pg_in ens d i t s =
     (let en = ens i;
          lower = t;
          upper = t + PartitionInterval (cfg d);
          partName = partitionName d lower
      in case pe_query en of
           Some err \<Rightarrow> Returned (Wrapf ''pglg: check partition %s: %w'' [FStr partName] err) s
         | None \<Rightarrow>
           if partName \<in> fst ` set (meta (pdatabase s)) then Running s
           else case pe_begin en of
             Some err \<Rightarrow> Returned (Wrapf ''pglg: begin tx for partition %s: %w'' [FStr partName] err) s
           | None \<Rightarrow>
             (case create_and_register pg_in en partName lower upper (pdatabase s) of
                Inl err \<Rightarrow> Returned err s
              | Inr db' \<Rightarrow>
                (case pe_commit en of
                   PCommitFailed err applied \<Rightarrow>
                     Returned (Wrapf ''pglg: commit partition %s: %w'' [FStr partName] err)
                       (if applied then s\<lparr>pdatabase := db'\<rparr> else s)
                 | PCommitOk \<Rightarrow>
                     Running (part_emit [Incr ''jack.courier.partition.created'' []] (s\<lparr>pdatabase := db'\<rparr>)))))"

definition window_start :: "driver \<Rightarrow> gotime \<Rightarrow> gotime" where
  "window_start d now = Truncate (now - PartitionInterval (cfg d)) (PartitionInterval (cfg d))"

definition window_end :: "driver \<Rightarrow> gotime \<Rightarrow> gotime" where
  "window_end d now = now + PartitionLookAhead (cfg d)"

text \<open>None when the loop does not end.\<close>

definition createPartitions :: "(string \<Rightarrow> gotime option) \<Rightarrow> (nat \<Rightarrow> part_env) \<Rightarrow> gotime \<Rightarrow> driver
    \<Rightarrow> part_state \<Rightarrow> part_state loop_result option" where
  "createPartitions pg_in ens now d s =
     range_loop (PartitionInterval (cfg d)) (window_end d now) (create_body pg_in ens d) 0
       (window_start d now) s"

section \<open>Dropping partitions\<close>

record drop_env =
  de_begin :: "go_error option"
  de_query :: "go_error option"
  de_scan :: "string \<Rightarrow> go_error option"
  de_rows :: "go_error option"
  de_detach :: "string \<Rightarrow> go_error option"
  de_drop :: "string \<Rightarrow> go_error option"
  de_delete :: "string \<Rightarrow> go_error option"
  de_commit :: part_commit

text \<open>The scan loop: the first row that fails to scan ends it.\<close>

fun scan_names :: "(string \<Rightarrow> go_error option) \<Rightarrow> string list \<Rightarrow> go_error + string list" where
  "scan_names scan [] = Inr []"
| "scan_names scan (n # ns) =
     (case scan n of
        Some err \<Rightarrow> Inl err
      | None \<Rightarrow> (case scan_names scan ns of Inl err \<Rightarrow> Inl err | Inr r \<Rightarrow> Inr (n # r)))"

text \<open>The loop over the expired partitions, on the transaction's view of the database; the
  metrics are sent as it goes.\<close>

fun drop_loop :: "drop_env \<Rightarrow> string list \<Rightarrow> pdb \<Rightarrow> metric list \<Rightarrow> (go_error + pdb) \<times> metric list" where
  "drop_loop en [] db ms = (Inr db, ms)"
| "drop_loop en (name # names) db ms =
     (case (case de_detach en name of Some err \<Rightarrow> Inl err | None \<Rightarrow> sql_detach name db) of
        Inl err \<Rightarrow> (Inl (Wrapf ''pglg: detach partition %s: %w'' [FStr name] err), ms)
      | Inr db1 \<Rightarrow>
        (case de_drop en name of
           Some err \<Rightarrow> (Inl (Wrapf ''pglg: drop partition %s: %w'' [FStr name] err), ms)
         | None \<Rightarrow>
           (case de_delete en name of
              Some err \<Rightarrow> (Inl (Wrapf ''pglg: delete meta %s: %w'' [FStr name] err), ms)
            | None \<Rightarrow>
                drop_loop en names (sql_delete_meta name (sql_drop name db1))
                  (ms @ [Incr ''jack.courier.partition.dropped'' []]))))"

definition expired_names :: "gotime \<Rightarrow> pdb \<Rightarrow> string list" where
  "expired_names cutoff db = map fst (filter (\<lambda>(n, l, u). u \<le> cutoff) (meta db))"

definition dropExpiredPartitions :: "drop_env \<Rightarrow> gotime \<Rightarrow> driver \<Rightarrow> part_state
    \<Rightarrow> go_error option \<times> part_state" where
  "dropExpiredPartitions en now d s =
     (let cutoff = now - PartitionRetention (cfg d) in
      case de_begin en of
        Some err \<Rightarrow> (Some (Wrapf ''pglg: begin tx for partition drop: %w'' [] err), s)
      | None \<Rightarrow>
        (case de_query en of
           Some err \<Rightarrow> (Some (Wrapf ''pglg: query expired partitions: %w'' [] err), s)
         | None \<Rightarrow>
           (case scan_names (de_scan en) (expired_names cutoff (pdatabase s)) of
              Inl err \<Rightarrow> (Some (Wrapf ''pglg: scan partition name: %w'' [] err), s)
            | Inr expired \<Rightarrow>
              (case de_rows en of
                 Some err \<Rightarrow> (Some (Wrapf ''pglg: iterate expired partitions: %w'' [] err), s)
               | None \<Rightarrow>
                 (case drop_loop en expired (pdatabase s) [] of
                    (Inl err, ms) \<Rightarrow> (Some err, part_emit ms s)
                  | (Inr db', ms) \<Rightarrow>
                    (case de_commit en of
                       PCommitOk \<Rightarrow> (None, part_emit ms (s\<lparr>pdatabase := db'\<rparr>))
                     | PCommitFailed err applied \<Rightarrow>
                         (Some err, part_emit ms (if applied then s\<lparr>pdatabase := db'\<rparr> else s))))))))"

section \<open>Metrics\<close>

record gauge_env =
  ge_count :: "go_error option"
  ge_max :: "go_error option"
  ge_min :: "go_error option"

definition hours_of :: "duration \<Rightarrow> rat" where
  "hours_of d = of_int d / 3600000000000"

definition emitPartitionMetrics :: "gauge_env \<Rightarrow> gotime \<Rightarrow> pdb \<Rightarrow> metric list" where
  "emitPartitionMetrics en now db =
     (if ge_count en \<noteq> None then []
      else
        (let count = length (meta db);
             total = Gauge ''jack.courier.partition.total_count'' (of_nat count) []
         in if count = 0 then
              [total, Gauge ''jack.courier.partition.lookahead_hours'' 0 [],
               Gauge ''jack.courier.partition.oldest_hours'' 0 []]
            else if ge_max en \<noteq> None then [total]
            else
              (let maxUpper = Max ((\<lambda>(n, l, u). u) ` set (meta db));
                   ahead = Gauge ''jack.courier.partition.lookahead_hours'' (hours_of (maxUpper - now)) []
               in if ge_min en \<noteq> None then [total, ahead]
                  else
                    (let minLower = Min ((\<lambda>(n, l, u). l) ` set (meta db))
                     in [total, ahead,
                         Gauge ''jack.courier.partition.oldest_hours'' (hours_of (now - minLower)) []]))))"


section \<open>Names are lossless at minute granularity\<close>

lemma parsePartitionLower_name:
  "four_digit_year t \<Longrightarrow> parsePartitionLower d (partitionName d t) = Some (Truncate t Minute)"
  by (simp add: parsePartitionLower_def partitionName_def HasPrefix_def Parse_Format_partition)

lemma Truncate_dvd: "d dvd t \<Longrightarrow> Truncate t d = t"
  by (simp add: Truncate_def)

lemma dvd_Truncate: "0 < d \<Longrightarrow> d dvd Truncate t d"
  by (simp add: Truncate_def minus_mod_eq_mult_div)

lemma Truncate_bounds: "0 < d \<Longrightarrow> Truncate t d \<le> t \<and> t < Truncate t d + d"
  using pos_mod_bound [of d t] pos_mod_sign [of d t] by (simp add: Truncate_def)

interpretation partition_names: codec "partitionName d" "parsePartitionLower d"
    "\<lambda>t. four_digit_year t \<and> Minute dvd t"
  for d
  by unfold_locales (simp add: parsePartitionLower_name Truncate_dvd)

section \<open>Consistent partitions\<close>

definition interval_ok :: "driver \<Rightarrow> bool" where
  "interval_ok d \<longleftrightarrow> 0 < PartitionInterval (cfg d) \<and> Minute dvd PartitionInterval (cfg d)"

text \<open>A lower bound the code uses: a multiple of the interval, in the calendar's range.\<close>

definition lower_ok :: "driver \<Rightarrow> gotime \<Rightarrow> bool" where
  "lower_ok d l \<longleftrightarrow> PartitionInterval (cfg d) dvd l \<and> four_digit_year l \<and>
     four_digit_year (l + PartitionInterval (cfg d))"

text \<open>The attached partitions are the registered ones, named after their lower bound.\<close>

definition pdb_ok :: "driver \<Rightarrow> pdb \<Rightarrow> bool" where
  "pdb_ok d db \<longleftrightarrow>
     distinct (map fst (meta db)) \<and>
     tables db = map (\<lambda>(n, l, u). (n, Attached l u)) (meta db) \<and>
     (\<forall>(n, l, u) \<in> set (meta db).
        n = partitionName d l \<and> u = l + PartitionInterval (cfg d) \<and> lower_ok d l)"

text \<open>The server reads the text of a bound to the second.\<close>

definition reads_RFC3339 :: "(string \<Rightarrow> gotime option) \<Rightarrow> bool" where
  "reads_RFC3339 pg_in \<longleftrightarrow>
     (\<forall>t. four_digit_year t \<longrightarrow> pg_in (Format t RFC3339) = Some (Truncate t Second))"

lemma reads_RFC3339_Parse: "reads_RFC3339 (time_Parse RFC3339)"
  by (simp add: reads_RFC3339_def Parse_Format_RFC3339)

lemma interval_ok_second: "interval_ok d \<Longrightarrow> Second dvd PartitionInterval (cfg d)"
proof -
  assume "interval_ok d"
  moreover have "(Second :: int) dvd Minute" by (rule dvdI [of _ _ 60]) simp
  ultimately show ?thesis unfolding interval_ok_def by (blast intro: dvd_trans)
qed

lemma lower_ok_minute: "interval_ok d \<Longrightarrow> lower_ok d l \<Longrightarrow> Minute dvd l"
  by (auto simp: interval_ok_def lower_ok_def intro: dvd_trans)

lemma name_eq_iff:
  assumes "interval_ok d" "lower_ok d l" "lower_ok d l'"
  shows "partitionName d l = partitionName d l' \<longleftrightarrow> l = l'"
  using assms lower_ok_minute by (intro partition_names.enc_inj) (auto simp: lower_ok_def)

lemma aligned_disjoint:
  assumes "(i :: int) dvd a" "i dvd b" "a < b + i" "b < a + i"
  shows "a = b"
proof -
  from assms(1,2) have "i dvd a - b" by simp
  moreover have "\<bar>a - b\<bar> < i" using assms(3,4) by linarith
  ultimately show ?thesis using zdvd_imp_le [of i "\<bar>a - b\<bar>"] by fastforce
qed

lemma pdb_ok_lookup:
  assumes "pdb_ok d db" "(n, Attached l u) \<in> set (tables db)"
  shows "(n, l, u) \<in> set (meta db)"
  using assms by (auto simp: pdb_ok_def)

lemma pdb_ok_has_table: "pdb_ok d db \<Longrightarrow> has_table n db \<longleftrightarrow> n \<in> fst ` set (meta db)"
  by (force simp: pdb_ok_def has_table_def)

lemma create_and_register_ok:
  assumes d: "interval_ok d" and ok: "pdb_ok d db" and l: "lower_ok d l" and r: "reads_RFC3339 pg_in"
    and fresh: "partitionName d l \<notin> fst ` set (meta db)"
    and env: "pe_create en = None" "pe_insert en = None"
  shows "create_and_register pg_in en (partitionName d l) l (l + PartitionInterval (cfg d)) db =
    Inr (db\<lparr>tables := tables db @ [(partitionName d l, Attached l (l + PartitionInterval (cfg d)))],
           meta := meta db @ [(partitionName d l, l, l + PartitionInterval (cfg d))]\<rparr>)"
proof -
  let ?i = "PartitionInterval (cfg d)"
  have sec: "Second dvd l" "Second dvd l + ?i"
    using interval_ok_second [OF d] l by (auto simp: lower_ok_def intro: dvd_trans)
  then have rd: "pg_in (Format l RFC3339) = Some l" "pg_in (Format (l + ?i) RFC3339) = Some (l + ?i)"
    using r l by (simp_all add: reads_RFC3339_def lower_ok_def Truncate_dvd)
  have "\<not> overlaps l (l + ?i) t" if "(n, t) \<in> set (tables db)" for n t
  proof (cases t)
    case (Attached l' u')
    with that pdb_ok_lookup [OF ok] have m: "(n, l', u') \<in> set (meta db)" by blast
    with ok have e: "n = partitionName d l'" "u' = l' + ?i" "lower_ok d l'" by (auto simp: pdb_ok_def)
    show ?thesis
    proof
      assume "overlaps l (l + ?i) t"
      then have "l = l'" using Attached e l by (intro aligned_disjoint [of ?i]) (auto simp: overlaps_def lower_ok_def)
      with m e fresh show False by force
    qed
  qed (simp add: overlaps_def)
  then have no: "\<not> list_ex (\<lambda>(n, t). overlaps l (l + ?i) t) (tables db)" by (auto simp: list_ex_iff)
  show ?thesis
    using d env rd no fresh pdb_ok_has_table [OF ok]
    by (simp add: create_and_register_def sql_create_partition_def sql_insert_meta_def interval_ok_def)
qed

lemma create_and_register_result:
  assumes d: "interval_ok d" and ok: "pdb_ok d db" and l: "lower_ok d l" and r: "reads_RFC3339 pg_in"
    and fresh: "partitionName d l \<notin> fst ` set (meta db)"
    and c: "create_and_register pg_in en (partitionName d l) l (l + PartitionInterval (cfg d)) db = Inr db'"
  shows "pdb_ok d db'" "set (meta db') = insert (partitionName d l, l, l + PartitionInterval (cfg d)) (set (meta db))"
proof -
  from c have "pe_create en = None" "pe_insert en = None"
    by (auto simp: create_and_register_def split: option.splits sum.splits)
  with create_and_register_ok [OF d ok l r fresh] c
  have db': "db' = db\<lparr>tables := tables db @ [(partitionName d l, Attached l (l + PartitionInterval (cfg d)))],
           meta := meta db @ [(partitionName d l, l, l + PartitionInterval (cfg d))]\<rparr>"
    by simp
  show "pdb_ok d db'" using ok l fresh by (auto simp: db' pdb_ok_def)
  show "set (meta db') = insert (partitionName d l, l, l + PartitionInterval (cfg d)) (set (meta db))"
    by (simp add: db')
qed


section \<open>Creating: invariant and coverage\<close>

text \<open>Every partition of \<open>db\<close> is also one of \<open>db'\<close>.\<close>

definition registered_le :: "pdb \<Rightarrow> pdb \<Rightarrow> bool" where
  "registered_le db db' \<longleftrightarrow> set (meta db) \<subseteq> set (meta db')"

definition registered :: "driver \<Rightarrow> gotime \<Rightarrow> pdb \<Rightarrow> bool" where
  "registered d l db \<longleftrightarrow> (partitionName d l, l, l + PartitionInterval (cfg d)) \<in> set (meta db)"

lemma registered_by_name:
  assumes "interval_ok d" "pdb_ok d db" "lower_ok d l" "partitionName d l \<in> fst ` set (meta db)"
  shows "registered d l db"
proof -
  from assms(4) obtain l' u where m: "(partitionName d l, l', u) \<in> set (meta db)" by force
  with assms(2) have "partitionName d l = partitionName d l'" "u = l' + PartitionInterval (cfg d)" "lower_ok d l'"
    by (auto simp: pdb_ok_def)
  moreover from this have "l = l'" using name_eq_iff [OF assms(1,3)] by blast
  ultimately show ?thesis using m by (simp add: registered_def)
qed

definition env_ok :: "part_env \<Rightarrow> bool" where
  "env_ok en \<longleftrightarrow> pe_query en = None \<and> pe_begin en = None \<and> pe_create en = None \<and>
     pe_insert en = None \<and> pe_commit en = PCommitOk"

lemma create_body_cases:
  obtains (failed) err where "create_body pg_in ens d i l s = Returned err s"
  | (known) "create_body pg_in ens d i l s = Running s" "partitionName d l \<in> fst ` set (meta (pdatabase s))"
  | (created) db' where "partitionName d l \<notin> fst ` set (meta (pdatabase s))"
      "create_and_register pg_in (ens i) (partitionName d l) l (l + PartitionInterval (cfg d)) (pdatabase s) = Inr db'"
      "pdatabase (result_state (create_body pg_in ens d i l s)) = db'"
proof (cases "pe_query (ens i) = None \<and> partitionName d l \<notin> fst ` set (meta (pdatabase s)) \<and> pe_begin (ens i) = None")
  case False
  show thesis
  proof (cases "pe_query (ens i)")
    case (Some err)
    then show thesis by (intro failed) (simp add: create_body_def Let_def)
  next
    case None
    show thesis
    proof (cases "partitionName d l \<in> fst ` set (meta (pdatabase s))")
      case True
      with None show thesis by (intro known) (simp_all add: create_body_def Let_def)
    next
      case new: False
      with False None obtain err where "pe_begin (ens i) = Some err" by auto
      with None new show thesis by (intro failed) (simp add: create_body_def Let_def)
    qed
  qed
next
  case True
  show thesis
  proof (cases "create_and_register pg_in (ens i) (partitionName d l) l (l + PartitionInterval (cfg d)) (pdatabase s)")
    case (Inl err)
    then show thesis using True by (intro failed) (simp add: create_body_def Let_def)
  next
    case (Inr db')
    show thesis
    proof (cases "pe_commit (ens i)")
      case PCommitOk
      then show thesis using True Inr by (intro created) (auto simp: create_body_def Let_def part_emit_def)
    next
      case (PCommitFailed err applied)
      then show thesis
        using True Inr by (cases applied) (auto simp: create_body_def Let_def intro: failed created)
    qed
  qed
qed

lemma create_body_inv:
  assumes d: "interval_ok d" and r: "reads_RFC3339 pg_in" and ok: "pdb_ok d (pdatabase s)" and l: "lower_ok d l"
  shows "pdb_ok d (pdatabase (result_state (create_body pg_in ens d i l s)))"
    and "registered_le (pdatabase s) (pdatabase (result_state (create_body pg_in ens d i l s)))"
    and "create_body pg_in ens d i l s = Running s' \<Longrightarrow> registered d l (pdatabase s')"
proof -
  note res = create_and_register_result [OF d ok l r]
  have "pdb_ok d (pdatabase (result_state (create_body pg_in ens d i l s))) \<and>
    registered_le (pdatabase s) (pdatabase (result_state (create_body pg_in ens d i l s))) \<and>
    (create_body pg_in ens d i l s = Running s' \<longrightarrow> registered d l (pdatabase s'))"
  proof (cases rule: create_body_cases [of pg_in ens d i l s])
    case failed
    then show ?thesis using ok by (simp add: registered_le_def)
  next
    case known
    then show ?thesis using ok registered_by_name [OF d ok l] by (auto simp: registered_le_def)
  next
    case (created db')
    have "registered d l db'" "registered_le (pdatabase s) db'"
      using res(2) [OF created(1,2)] by (auto simp: registered_def registered_le_def)
    then show ?thesis using res(1) [OF created(1,2)] created(3) by auto
  qed
  then show "pdb_ok d (pdatabase (result_state (create_body pg_in ens d i l s)))"
    "registered_le (pdatabase s) (pdatabase (result_state (create_body pg_in ens d i l s)))"
    "create_body pg_in ens d i l s = Running s' \<Longrightarrow> registered d l (pdatabase s')" by blast+
qed

lemma create_body_runs:
  assumes "interval_ok d" "reads_RFC3339 pg_in" "pdb_ok d (pdatabase s)" "lower_ok d l" "env_ok (ens i)"
  shows "\<exists>s'. create_body pg_in ens d i l s = Running s'"
  using assms create_and_register_ok [OF assms(1,3,4,2)]
  by (auto simp: create_body_def env_ok_def Let_def)

text \<open>The instants of the window are lower bounds the code can use, when the window lies in the
  calendar's range.\<close>

definition window_modern :: "driver \<Rightarrow> gotime \<Rightarrow> bool" where
  "window_modern d now \<longleftrightarrow> 2 * PartitionInterval (cfg d) \<le> now \<and>
     modern_time (now + PartitionLookAhead (cfg d) + PartitionInterval (cfg d))"

lemma window_start_bounds:
  assumes "0 < PartitionInterval (cfg d)"
  shows "window_start d now \<le> now - PartitionInterval (cfg d)"
    "now - 2 * PartitionInterval (cfg d) < window_start d now"
    "PartitionInterval (cfg d) dvd window_start d now"
  using Truncate_bounds [OF assms, of "now - PartitionInterval (cfg d)"] dvd_Truncate [OF assms]
  by (simp_all add: window_start_def)

lemma window_lower_ok:
  assumes "interval_ok d" "window_modern d now"
    and "l \<in> set (windows (PartitionInterval (cfg d)) (window_start d now) (window_end d now))"
  shows "lower_ok d l"
proof -
  let ?i = "PartitionInterval (cfg d)"
  have i: "0 < ?i" using assms(1) by (simp add: interval_ok_def)
  from assms(3) obtain k where k: "l = window_start d now + int k * ?i" "l < window_end d now"
    by (auto simp: set_windows [OF i])
  note b = window_start_bounds [OF i, of now]
  have "0 \<le> int k * ?i" using i by simp
  then have "0 \<le> l" using k b assms(2) unfolding window_modern_def by linarith
  then have "modern_time l" "modern_time (l + ?i)"
    using k i assms(2) by (simp_all add: modern_time_def window_modern_def window_end_def)
  then show ?thesis using k b(3) by (simp add: lower_ok_def modern_four_digit)
qed

lemma run_create_windows:
  assumes d: "interval_ok d" and r: "reads_RFC3339 pg_in" and ls: "\<And>l. l \<in> set ls \<Longrightarrow> lower_ok d l"
    and ok: "pdb_ok d (pdatabase s)"
  shows "pdb_ok d (pdatabase (result_state (run_windows (create_body pg_in ens d) (enumerate i ls) s))) \<and>
    registered_le (pdatabase s) (pdatabase (result_state (run_windows (create_body pg_in ens d) (enumerate i ls) s))) \<and>
    (\<forall>s'. run_windows (create_body pg_in ens d) (enumerate i ls) s = Running s' \<longrightarrow>
       (\<forall>l \<in> set ls. registered d l (pdatabase s'))) \<and>
    ((\<forall>j. env_ok (ens j)) \<longrightarrow> (\<exists>s'. run_windows (create_body pg_in ens d) (enumerate i ls) s = Running s'))"
  using ls ok
proof (induction ls arbitrary: i s)
  case Nil
  then show ?case by (simp add: registered_le_def)
next
  case (Cons l ls)
  note cb = create_body_inv [OF d r Cons.prems(2), of l ens i] create_body_runs [OF d r Cons.prems(2), of l ens i]
  have l: "lower_ok d l" using Cons.prems(1) by simp
  show ?case
  proof (cases "create_body pg_in ens d i l s")
    case (Returned err s')
    then show ?thesis using cb l by auto
  next
    case (Running s1)
    have ok1: "pdb_ok d (pdatabase s1)" and le: "registered_le (pdatabase s) (pdatabase s1)"
      and reg: "registered d l (pdatabase s1)"
      using cb(1-3) [OF l] Running by simp_all
    note IH = Cons.IH [of s1 "Suc i", OF _ ok1]
    have IH': "pdb_ok d (pdatabase (result_state (run_windows (create_body pg_in ens d) (enumerate (Suc i) ls) s1)))"
      "registered_le (pdatabase s1) (pdatabase (result_state (run_windows (create_body pg_in ens d) (enumerate (Suc i) ls) s1)))"
      "\<forall>s'. run_windows (create_body pg_in ens d) (enumerate (Suc i) ls) s1 = Running s' \<longrightarrow>
         (\<forall>l \<in> set ls. registered d l (pdatabase s'))"
      "(\<forall>j. env_ok (ens j)) \<longrightarrow> (\<exists>s'. run_windows (create_body pg_in ens d) (enumerate (Suc i) ls) s1 = Running s')"
      using IH Cons.prems(1) by auto
    have "registered d l (pdatabase s')"
      if "run_windows (create_body pg_in ens d) (enumerate (Suc i) ls) s1 = Running s'" for s'
      using reg IH'(2) that by (auto simp: registered_def registered_le_def)
    then show ?thesis using IH' le Running by (auto simp: registered_le_def)
  qed
qed


lemma createPartitions_result:
  assumes d: "interval_ok d" and r: "reads_RFC3339 pg_in" and w: "window_modern d now"
    and ok: "pdb_ok d (pdatabase s)"
  obtains res where "createPartitions pg_in ens now d s = Some res" "pdb_ok d (pdatabase (result_state res))"
    "registered_le (pdatabase s) (pdatabase (result_state res))"
    "\<And>s' l. res = Running s' \<Longrightarrow> l \<in> set (windows (PartitionInterval (cfg d)) (window_start d now) (window_end d now)) \<Longrightarrow>
       registered d l (pdatabase s')"
    "(\<And>j. env_ok (ens j)) \<Longrightarrow> \<exists>s'. res = Running s'"
proof -
  let ?ls = "windows (PartitionInterval (cfg d)) (window_start d now) (window_end d now)"
  let ?res = "run_windows (create_body pg_in ens d) (enumerate 0 ?ls) s"
  have i: "0 < PartitionInterval (cfg d)" using d by (simp add: interval_ok_def)
  have c: "createPartitions pg_in ens now d s = Some ?res"
    by (simp add: createPartitions_def range_loop_windows [OF i])
  from run_create_windows [OF d r window_lower_ok [OF d w] ok, where ens = ens and i = 0]
  show thesis by (intro that [OF c]) blast+
qed

section \<open>Dropping\<close>

definition without :: "string set \<Rightarrow> pdb \<Rightarrow> pdb" where
  "without ns db = db\<lparr>tables := filter (\<lambda>x. fst x \<notin> ns) (tables db),
     meta := filter (\<lambda>x. fst x \<notin> ns) (meta db)\<rparr>"

lemma without_empty [simp]: "without {} db = db"
  by (simp add: without_def)

lemma without_without [simp]: "without A (without B db) = without (A \<union> B) db"
  by (simp add: without_def conj_commute)

lemma detach_drop_delete:
  assumes "sql_detach name db = Inr db1"
  shows "sql_delete_meta name (sql_drop name db1) = without {name} db"
proof -
  have "filter (\<lambda>(n, t). n \<noteq> name) (map (\<lambda>(n, t). if n = name then (n, Detached) else (n, t)) ts) =
      filter (\<lambda>x. fst x \<notin> {name}) ts" for ts :: "(string \<times> ptable) list"
    by (induction ts) auto
  moreover have "(\<lambda>(n, l, u). n \<noteq> name) = (\<lambda>x :: string \<times> gotime \<times> gotime. fst x \<notin> {name})"
    by (simp add: fun_eq_iff)
  ultimately show ?thesis
    using assms
    by (auto simp: sql_detach_def sql_delete_meta_def sql_drop_def without_def
        split: option.splits ptable.splits)
qed

lemma drop_loop_Inr:
  "drop_loop en names db ms = (Inr db', ms') \<Longrightarrow> db' = without (set names) db"
proof (induction names arbitrary: db ms)
  case Nil
  then show ?case by simp
next
  case (Cons n ns)
  from Cons.prems obtain db1 where db1: "sql_detach n db = Inr db1"
    and "drop_loop en ns (sql_delete_meta n (sql_drop n db1)) (ms @ [Incr ''jack.courier.partition.dropped'' []]) = (Inr db', ms')"
    by (auto split: option.splits sum.splits)
  from Cons.IH [OF this(2)] have "db' = without (set ns \<union> {n}) db"
    by (simp only: detach_drop_delete [OF db1] without_without)
  then show ?case by simp
qed

lemma scan_names_Inr: "scan_names scan ns = Inr r \<Longrightarrow> r = ns"
  by (induction ns arbitrary: r) (auto split: option.splits sum.splits)

lemma pdb_ok_without: "pdb_ok d db \<Longrightarrow> pdb_ok d (without ns db)"
proof -
  assume ok: "pdb_ok d db"
  have "filter (\<lambda>x. fst x \<notin> ns) (map (\<lambda>(n, l, u). (n, Attached l u)) m) =
      map (\<lambda>(n, l, u). (n, Attached l u)) (filter (\<lambda>x. fst x \<notin> ns) m)" for m
    by (induction m) auto
  moreover have "distinct (map fst m) \<Longrightarrow> distinct (map fst (filter P m))" for P and m :: "(string \<times> gotime \<times> gotime) list"
    by (induction m) auto
  ultimately show ?thesis using ok by (auto simp: pdb_ok_def without_def)
qed

lemma dropExpired_cases:
  assumes "dropExpiredPartitions en now d s = (err, s')"
  obtains (same) "err \<noteq> None" "pdatabase s' = pdatabase s"
  | (dropped) "pdatabase s' = without (set (expired_names (now - PartitionRetention (cfg d)) (pdatabase s))) (pdatabase s)"
  using assms
  by (auto simp: dropExpiredPartitions_def part_emit_def Let_def dest!: scan_names_Inr drop_loop_Inr
      split: option.splits sum.splits prod.splits part_commit.splits if_splits)

lemma drop_loop_succeeds:
  assumes "pdb_ok d db" "set names \<subseteq> fst ` set (meta db)" "distinct names"
    and "\<And>n. de_detach en n = None" "\<And>n. de_drop en n = None" "\<And>n. de_delete en n = None"
  shows "\<exists>db' ms'. drop_loop en names db ms = (Inr db', ms')"
  using assms(1-3)
proof (induction names arbitrary: db ms)
  case Nil
  then show ?case by simp
next
  case (Cons n ns)
  from Cons.prems obtain l u where "(n, l, u) \<in> set (meta db)" by force
  moreover have "distinct (map fst (tables db))" using Cons.prems(1) by (auto simp: pdb_ok_def comp_def case_prod_beta')
  ultimately have "map_of (tables db) n = Some (Attached l u)"
    using Cons.prems(1) by (intro map_of_is_SomeI) (force simp: pdb_ok_def)+
  then obtain db1 where db1: "sql_detach n db = Inr db1" by (simp add: sql_detach_def)
  have "set ns \<subseteq> fst ` set (meta (without {n} db))" using Cons.prems(2,3) by (force simp: without_def)
  from Cons.IH [OF pdb_ok_without [OF Cons.prems(1)] this] Cons.prems(3) detach_drop_delete [OF db1] db1 assms(4-6)
  show ?case by simp
qed


lemma in_expired_names: "n \<in> set (expired_names c db) \<longleftrightarrow> (\<exists>l u. (n, l, u) \<in> set (meta db) \<and> u \<le> c)"
  unfolding expired_names_def by force

lemma dropExpired_inv:
  assumes "pdb_ok d (pdatabase s)" "dropExpiredPartitions en now d s = (err, s')"
  shows "pdb_ok d (pdatabase s')"
    and "(n, l, u) \<in> set (meta (pdatabase s)) \<Longrightarrow> (n, l, u) \<notin> set (meta (pdatabase s')) \<Longrightarrow>
      u \<le> now - PartitionRetention (cfg d)"
    and "set (meta (pdatabase s')) \<subseteq> set (meta (pdatabase s))"
    and "err = None \<Longrightarrow> (n, l, u) \<in> set (meta (pdatabase s')) \<Longrightarrow> now - PartitionRetention (cfg d) < u"
proof -
  let ?c = "now - PartitionRetention (cfg d)"
  have key: "u' = u" if "(n, l', u') \<in> set (meta (pdatabase s))" "(n, l, u) \<in> set (meta (pdatabase s))" for l' u'
    using that assms(1) by (auto simp: pdb_ok_def dest: eq_key_imp_eq_value)
  have "pdb_ok d (pdatabase s') \<and> ((n, l, u) \<in> set (meta (pdatabase s)) \<longrightarrow> (n, l, u) \<notin> set (meta (pdatabase s')) \<longrightarrow> u \<le> ?c) \<and>
    set (meta (pdatabase s')) \<subseteq> set (meta (pdatabase s)) \<and>
    (err = None \<longrightarrow> (n, l, u) \<in> set (meta (pdatabase s')) \<longrightarrow> ?c < u)"
    using assms(2)
  proof (cases rule: dropExpired_cases)
    case same
    then show ?thesis using assms(1) by auto
  next
    case dropped
    have "(n, l, u) \<in> set (meta (pdatabase s')) \<longleftrightarrow>
        (n, l, u) \<in> set (meta (pdatabase s)) \<and> n \<notin> set (expired_names ?c (pdatabase s))"
      by (auto simp: dropped without_def)
    moreover have "n \<in> set (expired_names ?c (pdatabase s)) \<longleftrightarrow> u \<le> ?c"
      if "(n, l, u) \<in> set (meta (pdatabase s))"
      using that key in_expired_names by metis
    ultimately have "((n, l, u) \<in> set (meta (pdatabase s)) \<longrightarrow> (n, l, u) \<notin> set (meta (pdatabase s')) \<longrightarrow> u \<le> ?c) \<and>
        (err = None \<longrightarrow> (n, l, u) \<in> set (meta (pdatabase s')) \<longrightarrow> ?c < u)" by auto
    moreover have "set (meta (pdatabase s')) \<subseteq> set (meta (pdatabase s))" by (auto simp: dropped without_def)
    moreover have "pdb_ok d (pdatabase s')" using pdb_ok_without [OF assms(1)] by (simp add: dropped)
    ultimately show ?thesis by blast
  qed
  then show "pdb_ok d (pdatabase s')"
    "(n, l, u) \<in> set (meta (pdatabase s)) \<Longrightarrow> (n, l, u) \<notin> set (meta (pdatabase s')) \<Longrightarrow> u \<le> ?c"
    "set (meta (pdatabase s')) \<subseteq> set (meta (pdatabase s))"
    "err = None \<Longrightarrow> (n, l, u) \<in> set (meta (pdatabase s')) \<Longrightarrow> ?c < u" by blast+
qed

section \<open>Selecting by name\<close>

definition name_expired :: "driver \<Rightarrow> gotime \<Rightarrow> string \<Rightarrow> bool" where
  "name_expired d cutoff name \<longleftrightarrow>
     (case parsePartitionLower d name of
        None \<Rightarrow> False
      | Some lower \<Rightarrow> lower + PartitionInterval (cfg d) \<le> cutoff)"

lemma collect_expired_names:
  "map ep_name (collect_expired d cutoff names) = filter (name_expired d cutoff) names"
  by (induction names) (auto simp: name_expired_def Let_def split: option.splits)

lemma collect_expired_upper:
  "p \<in> set (collect_expired d cutoff names) \<Longrightarrow>
   \<exists>lower. parsePartitionLower d (ep_name p) = Some lower \<and> ep_upper p = lower + PartitionInterval (cfg d)"
  by (induction names) (auto simp: Let_def split: option.splits if_splits)

lemma selectExpired_spec:
  assumes "distinct existing"
  shows "sorted_wrt (<) (map ep_name (selectExpiredPartitions d existing cutoff))"
    and "set (map ep_name (selectExpiredPartitions d existing cutoff)) = {n \<in> set existing. name_expired d cutoff n}"
proof -
  have "sorted_wrt (<) (sort existing)" using assms by (simp add: strict_sorted_iff)
  then show "sorted_wrt (<) (map ep_name (selectExpiredPartitions d existing cutoff))"
    by (simp add: selectExpiredPartitions_def collect_expired_names sorted_wrt_filter)
  show "set (map ep_name (selectExpiredPartitions d existing cutoff)) = {n \<in> set existing. name_expired d cutoff n}"
    by (simp only: selectExpiredPartitions_def collect_expired_names) auto
qed

end
