(* ===== verification/Pglg_Maintenance.thy ===== *)
theory Pglg_Maintenance
  imports Pglg_Partition
begin

text \<open>
  The replica side of \<open>partition.go\<close> and the maintenance round: \<open>listReplicaPartitions\<close>,
  \<open>createReplicaPartitions\<close>, \<open>dropExpiredReplicaPartitions\<close>, \<open>runPartitionMaintenance\<close> and the
  goroutine \<open>partitionMaintenance\<close>. A replica is a database like the primary, without a meta
  table: its partitions are found in the catalog, by name.
\<close>

section \<open>Replica operations\<close>

record list_env =
  li_query :: "go_error option"
  li_scan :: "string \<Rightarrow> go_error option"
  li_rows :: "go_error option"

definition is_attached :: "ptable \<Rightarrow> bool" where
  "is_attached t = (case t of Attached l u \<Rightarrow> True | Detached \<Rightarrow> False)"

definition attached_names :: "pdb \<Rightarrow> string list" where
  "attached_names db = map fst (filter (\<lambda>(n, t). is_attached t) (tables db))"

definition listReplicaPartitions :: "list_env \<Rightarrow> replicaPool \<Rightarrow> pdb \<Rightarrow> go_error + string list" where
  "listReplicaPartitions en r db =
     (case li_query en of
        Some err \<Rightarrow> Inl (Wrapf ''pglg: list replica partitions on %q: %w'' [FStr (rp_name r)] err)
      | None \<Rightarrow>
        (case scan_names (li_scan en) (attached_names db) of
           Inl err \<Rightarrow> Inl (Wrapf ''pglg: scan replica partition name on %q: %w'' [FStr (rp_name r)] err)
         | Inr names \<Rightarrow>
           (case li_rows en of
              Some err \<Rightarrow> Inl (Wrapf ''pglg: iterate replica partitions on %q: %w'' [FStr (rp_name r)] err)
            | None \<Rightarrow> Inr names)))"

text \<open>The body of the loop of \<open>createReplicaPartitions\<close>; \<open>execs i\<close> is a failure of the statement
  of round \<open>i\<close> other than the server's refusal.\<close>

definition replica_create_body :: "(string \<Rightarrow> gotime option) \<Rightarrow> (nat \<Rightarrow> go_error option) \<Rightarrow> driver
    \<Rightarrow> replicaPool \<Rightarrow> string list \<Rightarrow> nat \<Rightarrow> gotime \<Rightarrow> part_state \<Rightarrow> part_state loop_result" where
  "replica_create_body pg_in execs d r existing i t s =
     (let lower = t;
          upper = t + PartitionInterval (cfg d);
          partName = partitionName d lower
      in if partName \<in> set existing then Running s
         else case (case execs i of
                      Some err \<Rightarrow> Inl err
                    | None \<Rightarrow> sql_create_partition pg_in partName (Format lower RFC3339)
                                (Format upper RFC3339) (pdatabase s)) of
                Inl err \<Rightarrow> Returned (Wrapf ''pglg: create replica partition %s on %q: %w''
                                  [FStr partName, FStr (rp_name r)] err) s
              | Inr db' \<Rightarrow>
                  Running (part_emit [Incr ''jack.courier.partition.replica_created''
                      [''replica:'' @ rp_name r]] (s\<lparr>pdatabase := db'\<rparr>)))"

definition createReplicaPartitions :: "(string \<Rightarrow> gotime option) \<Rightarrow> (nat \<Rightarrow> go_error option) \<Rightarrow> gotime
    \<Rightarrow> driver \<Rightarrow> replicaPool \<Rightarrow> string list \<Rightarrow> part_state \<Rightarrow> part_state loop_result option" where
  "createReplicaPartitions pg_in execs now d r existing s =
     range_loop (PartitionInterval (cfg d)) (window_end d now)
       (replica_create_body pg_in execs d r existing) 0 (window_start d now) s"

text \<open>\<open>rd_position\<close> is the scanned \<open>last_msg_send_time\<close>, None for NULL.\<close>

record replica_drop_env =
  rd_position :: "go_error + gotime option"
  rd_begin :: "go_error option"
  rd_detach :: "string \<Rightarrow> go_error option"
  rd_drop :: "string \<Rightarrow> go_error option"
  rd_commit :: part_commit

fun replica_drop_loop :: "replica_drop_env \<Rightarrow> replicaPool \<Rightarrow> expiredPartition list \<Rightarrow> pdb \<Rightarrow> metric list
    \<Rightarrow> (go_error + pdb) \<times> metric list" where
  "replica_drop_loop en r [] db ms = (Inr db, ms)"
| "replica_drop_loop en r (p # ps) db ms =
     (case (case rd_detach en (ep_name p) of Some err \<Rightarrow> Inl err | None \<Rightarrow> sql_detach (ep_name p) db) of
        Inl err \<Rightarrow> (Inl (Wrapf ''pglg: detach replica partition %s on %q: %w''
                       [FStr (ep_name p), FStr (rp_name r)] err), ms)
      | Inr db1 \<Rightarrow>
        (case rd_drop en (ep_name p) of
           Some err \<Rightarrow> (Inl (Wrapf ''pglg: drop replica partition %s on %q: %w''
                          [FStr (ep_name p), FStr (rp_name r)] err), ms)
         | None \<Rightarrow>
             replica_drop_loop en r ps (sql_drop (ep_name p) db1)
               (ms @ [Incr ''jack.courier.partition.replica_dropped'' [''replica:'' @ rp_name r]])))"

definition replica_cutoff :: "driver \<Rightarrow> gotime \<Rightarrow> gotime \<Rightarrow> gotime" where
  "replica_cutoff d now lastMsgSendTime =
     (let applyTime = (if lastMsgSendTime > now then now else lastMsgSendTime)
      in applyTime - PartitionRetention (cfg d))"

definition lag_gauge :: "replicaPool \<Rightarrow> gotime \<Rightarrow> gotime \<Rightarrow> metric" where
  "lag_gauge r now lastMsgSendTime =
     Gauge ''jack.courier.partition.replica_apply_lag_seconds''
       (if seconds_of (now - lastMsgSendTime) < 0 then 0 else seconds_of (now - lastMsgSendTime))
       [''replica:'' @ rp_name r]"

definition dropExpiredReplicaPartitions :: "replica_drop_env \<Rightarrow> gotime \<Rightarrow> driver \<Rightarrow> replicaPool
    \<Rightarrow> string list \<Rightarrow> part_state \<Rightarrow> go_error option \<times> part_state" where
  "dropExpiredReplicaPartitions en now d r existing s =
     (case rd_position en of
        Inl err \<Rightarrow> (Some (Wrapf ''pglg: read apply position on %q (subscription %q): %w''
                       [FStr (rp_name r), FStr (rp_subscriptionName r)] err), s)
      | Inr None \<Rightarrow> (None, s)
      | Inr (Some lastMsgSendTime) \<Rightarrow>
        (let s1 = part_emit [lag_gauge r now lastMsgSendTime] s;
             toDrop = selectExpiredPartitions d existing (replica_cutoff d now lastMsgSendTime)
         in if toDrop = [] then (None, s1)
            else case rd_begin en of
              Some err \<Rightarrow> (Some (Wrapf ''pglg: begin tx for replica drop on %q: %w'' [FStr (rp_name r)] err), s1)
            | None \<Rightarrow>
              (case replica_drop_loop en r toDrop (pdatabase s1) [] of
                 (Inl err, ms) \<Rightarrow> (Some err, part_emit ms s1)
               | (Inr db', ms) \<Rightarrow>
                 (case rd_commit en of
                    PCommitOk \<Rightarrow> (None, part_emit ms (s1\<lparr>pdatabase := db'\<rparr>))
                  | PCommitFailed err applied \<Rightarrow>
                      (Some err, part_emit ms (if applied then s1\<lparr>pdatabase := db'\<rparr> else s1))))))"

section \<open>A maintenance round\<close>

record replica_env =
  rv_list :: list_env
  rv_execs :: "nat \<Rightarrow> go_error option"
  rv_create_now :: gotime
  rv_drop :: replica_drop_env
  rv_drop_now :: gotime

record maint_env =
  me_create :: "nat \<Rightarrow> part_env"
  me_create_now :: gotime
  me_drop :: drop_env
  me_drop_now :: gotime
  me_replica :: "string \<Rightarrow> replica_env"
  me_took :: duration
  me_gauge :: gauge_env
  me_gauge_now :: gotime

text \<open>The primary, the replicas by name, and the metrics sent.\<close>

record maint_state =
  primary :: pdb
  replica_dbs :: "string \<Rightarrow> pdb"
  mmetrics :: "metric list"

definition replica_sync_error :: "replicaPool \<Rightarrow> string \<Rightarrow> metric" where
  "replica_sync_error r op =
     Incr ''jack.courier.partition.replica_sync_error'' [''replica:'' @ rp_name r, ''op:'' @ op]"

definition partition_error :: "string \<Rightarrow> metric" where
  "partition_error op = Incr ''jack.courier.partition.error'' [''op:'' @ op]"

text \<open>The primary half of a round.\<close>

definition maintain_primary :: "(string \<Rightarrow> gotime option) \<Rightarrow> maint_env \<Rightarrow> driver \<Rightarrow> part_state
    \<Rightarrow> part_state option" where
  "maintain_primary pg_in me d s =
     (case createPartitions pg_in (me_create me) (me_create_now me) d s of
        None \<Rightarrow> None
      | Some res \<Rightarrow>
        (let s1 = (case res of
                     Running s' \<Rightarrow> s'
                   | Returned err s' \<Rightarrow> part_emit [partition_error ''create''] s')
         in case dropExpiredPartitions (me_drop me) (me_drop_now me) d s1 of
              (None, s2) \<Rightarrow> Some s2
            | (Some err, s2) \<Rightarrow> Some (part_emit [partition_error ''drop''] s2)))"

text \<open>The body of the loop over the replicas.\<close>

definition maintain_replica :: "(string \<Rightarrow> gotime option) \<Rightarrow> replica_env \<Rightarrow> driver \<Rightarrow> replicaPool
    \<Rightarrow> part_state \<Rightarrow> part_state option" where
  "maintain_replica pg_in rv d r s =
     (case listReplicaPartitions (rv_list rv) r (pdatabase s) of
        Inl err \<Rightarrow> Some (part_emit [replica_sync_error r ''list''] s)
      | Inr existing \<Rightarrow>
        (case createReplicaPartitions pg_in (rv_execs rv) (rv_create_now rv) d r existing s of
           None \<Rightarrow> None
         | Some res \<Rightarrow>
           (let s1 = (case res of
                        Running s' \<Rightarrow> s'
                      | Returned err s' \<Rightarrow> part_emit [replica_sync_error r ''create''] s')
            in case dropExpiredReplicaPartitions (rv_drop rv) (rv_drop_now rv) d r existing s1 of
                 (None, s2) \<Rightarrow> Some s2
               | (Some err, s2) \<Rightarrow> Some (part_emit [replica_sync_error r ''drop''] s2))))"

fun maintain_replicas :: "(string \<Rightarrow> gotime option) \<Rightarrow> maint_env \<Rightarrow> driver \<Rightarrow> replicaPool list
    \<Rightarrow> maint_state \<Rightarrow> maint_state option" where
  "maintain_replicas pg_in me d [] ms = Some ms"
| "maintain_replicas pg_in me d (r # rs) ms =
     (case maintain_replica pg_in (me_replica me (rp_name r)) d r
             \<lparr>pdatabase = replica_dbs ms (rp_name r), pmetrics = mmetrics ms\<rparr> of
        None \<Rightarrow> None
      | Some s \<Rightarrow>
          maintain_replicas pg_in me d rs
            (ms\<lparr>replica_dbs := (replica_dbs ms)(rp_name r := pdatabase s), mmetrics := pmetrics s\<rparr>))"

definition runPartitionMaintenance :: "(string \<Rightarrow> gotime option) \<Rightarrow> maint_env \<Rightarrow> driver \<Rightarrow> maint_state
    \<Rightarrow> maint_state option" where
  "runPartitionMaintenance pg_in me d ms =
     (case maintain_primary pg_in me d \<lparr>pdatabase = primary ms, pmetrics = mmetrics ms\<rparr> of
        None \<Rightarrow> None
      | Some s \<Rightarrow>
        (case maintain_replicas pg_in me d (replicaPools d)
                (ms\<lparr>primary := pdatabase s, mmetrics := pmetrics s\<rparr>) of
           None \<Rightarrow> None
         | Some ms1 \<Rightarrow>
             Some (ms1\<lparr>mmetrics := mmetrics ms1 @
               [Distribution ''jack.courier.partition.maintenance.duration'' (seconds_of (me_took me)) []] @
               emitPartitionMetrics (me_gauge me) (me_gauge_now me) (primary ms1)\<rparr>)))"

section \<open>The goroutine\<close>

datatype maint_event = MCtxDone | MTick | MWake

text \<open>The events the goroutine sees, with the driver at that moment and the answers a round would
  get. Before the first wake-up a tick is not received.\<close>

fun maintenance_loop :: "(string \<Rightarrow> gotime option) \<Rightarrow> (maint_event \<times> driver \<times> maint_env) list
    \<Rightarrow> maint_state \<Rightarrow> maint_state option" where
  "maintenance_loop pg_in [] ms = Some ms"
| "maintenance_loop pg_in ((ev, d, me) # evs) ms =
     (if ev = MCtxDone then Some ms
      else if \<not> isLeader d then maintenance_loop pg_in evs ms
      else case runPartitionMaintenance pg_in me d ms of
             None \<Rightarrow> None
           | Some ms' \<Rightarrow> maintenance_loop pg_in evs ms')"

fun partitionMaintenance :: "(string \<Rightarrow> gotime option) \<Rightarrow> (maint_event \<times> driver \<times> maint_env) list
    \<Rightarrow> maint_state \<Rightarrow> maint_state option" where
  "partitionMaintenance pg_in [] ms = Some ms"
| "partitionMaintenance pg_in ((ev, d, me) # evs) ms =
     (case ev of
        MCtxDone \<Rightarrow> Some ms
      | MTick \<Rightarrow> partitionMaintenance pg_in evs ms
      | MWake \<Rightarrow>
        (case runPartitionMaintenance pg_in me d ms of
           None \<Rightarrow> None
         | Some ms' \<Rightarrow> maintenance_loop pg_in evs ms'))"


section \<open>What a replica loses\<close>

definition without_tables :: "string set \<Rightarrow> pdb \<Rightarrow> pdb" where
  "without_tables ns db = db\<lparr>tables := filter (\<lambda>x. fst x \<notin> ns) (tables db)\<rparr>"

lemma without_tables_simps [simp]:
  "without_tables {} db = db" "without_tables A (without_tables B db) = without_tables (A \<union> B) db"
  by (simp_all add: without_tables_def conj_commute)

lemma detach_drop:
  assumes "sql_detach name db = Inr db1"
  shows "sql_drop name db1 = without_tables {name} db"
proof -
  have "filter (\<lambda>(n, t). n \<noteq> name) (map (\<lambda>(n, t). if n = name then (n, Detached) else (n, t)) ts) =
      filter (\<lambda>x. fst x \<notin> {name}) ts" for ts :: "(string \<times> ptable) list"
    by (induction ts) auto
  then show ?thesis
    using assms by (auto simp: sql_detach_def sql_drop_def without_tables_def split: option.splits ptable.splits)
qed

lemma replica_drop_loop_Inr:
  "replica_drop_loop en r ps db ms = (Inr db', ms') \<Longrightarrow> db' = without_tables (ep_name ` set ps) db"
proof (induction ps arbitrary: db ms)
  case Nil
  then show ?case by simp
next
  case (Cons p ps)
  from Cons.prems obtain db1 ms1 where db1: "sql_detach (ep_name p) db = Inr db1"
    and "replica_drop_loop en r ps (sql_drop (ep_name p) db1) ms1 = (Inr db', ms')"
    by (auto split: option.splits sum.splits)
  from Cons.IH [OF this(2)] have "db' = without_tables (ep_name ` set ps \<union> {ep_name p}) db"
    by (simp only: detach_drop [OF db1] without_tables_simps)
  then show ?case by simp
qed

lemma dropExpiredReplica_cases:
  assumes "dropExpiredReplicaPartitions en now d r existing s = (err, s')"
  obtains (same) "pdatabase s' = pdatabase s"
  | (dropped) t where "rd_position en = Inr (Some t)"
      "pdatabase s' = without_tables (set (map ep_name (selectExpiredPartitions d existing (replica_cutoff d now t)))) (pdatabase s)"
  using assms
  by (auto simp: dropExpiredReplicaPartitions_def part_emit_def Let_def dest!: replica_drop_loop_Inr
      split: option.splits sum.splits prod.splits part_commit.splits if_splits)

lemma replica_cutoff_le: "replica_cutoff d now t \<le> t - PartitionRetention (cfg d)"
  "replica_cutoff d now t \<le> now - PartitionRetention (cfg d)"
  by (simp_all add: replica_cutoff_def Let_def)

section \<open>A round on the primary\<close>

lemma maintain_primary_inv:
  assumes d: "interval_ok d" and r: "reads_RFC3339 pg_in" and w: "window_modern d (me_create_now me)"
    and ok: "pdb_ok d (pdatabase s)"
  shows "\<exists>s'. maintain_primary pg_in me d s = Some s' \<and> pdb_ok d (pdatabase s') \<and>
    (\<forall>n l u. (n, l, u) \<in> set (meta (pdatabase s)) \<longrightarrow> me_drop_now me - PartitionRetention (cfg d) < u \<longrightarrow>
       (n, l, u) \<in> set (meta (pdatabase s')))"
proof -
  obtain res where c: "createPartitions pg_in (me_create me) (me_create_now me) d s = Some res"
    and okr: "pdb_ok d (pdatabase (result_state res))" and le: "registered_le (pdatabase s) (pdatabase (result_state res))"
    using createPartitions_result [OF d r w ok] by metis
  define s1 where "s1 = (case res of Running s' \<Rightarrow> s' | Returned err s' \<Rightarrow> part_emit [partition_error ''create''] s')"
  have s1: "pdatabase s1 = pdatabase (result_state res)" by (cases res) (simp_all add: s1_def part_emit_def)
  obtain err s2 where dr: "dropExpiredPartitions (me_drop me) (me_drop_now me) d s1 = (err, s2)" by fastforce
  note inv = dropExpired_inv [OF okr [folded s1] dr]
  have "maintain_primary pg_in me d s = Some (if err = None then s2 else part_emit [partition_error ''drop''] s2)"
    using c dr by (cases err) (auto simp: maintain_primary_def s1_def Let_def)
  then show ?thesis
    using inv(1) inv(2) le s1 by (auto simp: part_emit_def registered_le_def) force+
qed


section \<open>Coverage after a round\<close>

text \<open>An instant lies in an attached partition.\<close>

definition partitioned :: "gotime \<Rightarrow> pdb \<Rightarrow> bool" where
  "partitioned x db \<longleftrightarrow> (\<exists>n l u. (n, Attached l u) \<in> set (tables db) \<and> l \<le> x \<and> x < u)"

lemma registered_partitioned:
  "pdb_ok d db \<Longrightarrow> registered d l db \<Longrightarrow> l \<le> x \<Longrightarrow> x < l + PartitionInterval (cfg d) \<Longrightarrow> partitioned x db"
  unfolding partitioned_def registered_def pdb_ok_def
  by (rule exI [of _ "partitionName d l"], rule exI [of _ l], rule exI [of _ "l + PartitionInterval (cfg d)"]) force

lemma maintain_primary_covers:
  assumes d: "interval_ok d" and r: "reads_RFC3339 pg_in" and w: "window_modern d (me_create_now me)"
    and ok: "pdb_ok d (pdatabase s)" and env: "\<And>j. env_ok (me_create me j)"
  shows "\<exists>s'. maintain_primary pg_in me d s = Some s' \<and> pdb_ok d (pdatabase s') \<and>
    (\<forall>x. me_create_now me - PartitionInterval (cfg d) \<le> x \<longrightarrow> me_drop_now me - PartitionRetention (cfg d) \<le> x \<longrightarrow>
       x < window_end d (me_create_now me) \<longrightarrow> partitioned x (pdatabase s'))"
proof -
  let ?i = "PartitionInterval (cfg d)" and ?now = "me_create_now me"
  have i: "0 < ?i" using d by (simp add: interval_ok_def)
  obtain s1 where c: "createPartitions pg_in (me_create me) ?now d s = Some (Running s1)" and ok1: "pdb_ok d (pdatabase s1)"
    and reg: "\<And>l. l \<in> set (windows ?i (window_start d ?now) (window_end d ?now)) \<Longrightarrow> registered d l (pdatabase s1)"
    using createPartitions_result [OF d r w ok, of "me_create me"] env by (metis result_state.simps(1))
  obtain err s2 where dr: "dropExpiredPartitions (me_drop me) (me_drop_now me) d s1 = (err, s2)" by fastforce
  note inv = dropExpired_inv [OF ok1 dr]
  have m: "maintain_primary pg_in me d s = Some (if err = None then s2 else part_emit [partition_error ''drop''] s2)"
    using c dr by (cases err) (auto simp: maintain_primary_def Let_def)
  have "partitioned x (pdatabase s2)"
    if x: "?now - ?i \<le> x" "me_drop_now me - PartitionRetention (cfg d) \<le> x" "x < window_end d ?now" for x
  proof -
    have "window_start d ?now \<le> x" using window_start_bounds(1) [OF i, of ?now] x(1) by linarith
    from windows_cover [OF i this x(3)] obtain l where
      l: "l \<in> set (windows ?i (window_start d ?now) (window_end d ?now))" "l \<le> x" "x < l + ?i" by blast
    then have "registered d l (pdatabase s2)"
      using reg [OF l(1)] inv(2) [of "partitionName d l" l "l + ?i"] x(2) by (fastforce simp: registered_def)
    then show ?thesis using registered_partitioned [OF inv(1)] l by blast
  qed
  then show ?thesis using m inv(1) by (auto simp: part_emit_def)
qed

text \<open>The replica half of a round always ends and leaves the primary alone.\<close>

lemma maintain_replica_ends: "0 < PartitionInterval (cfg d) \<Longrightarrow> \<exists>s'. maintain_replica pg_in rv d r s = Some s'"
  by (auto simp: maintain_replica_def createReplicaPartitions_def range_loop_windows Let_def
      split: sum.splits option.splits prod.splits)

lemma maintain_replicas_ends:
  assumes "0 < PartitionInterval (cfg d)"
  shows "\<exists>ms'. maintain_replicas pg_in me d rs ms = Some ms' \<and> primary ms' = primary ms"
proof (induction rs arbitrary: ms)
  case (Cons r rs)
  obtain s where "maintain_replica pg_in (me_replica me (rp_name r)) d r
      \<lparr>pdatabase = replica_dbs ms (rp_name r), pmetrics = mmetrics ms\<rparr> = Some s"
    using maintain_replica_ends [OF assms] by blast
  then show ?case
    using Cons.IH [of "ms\<lparr>replica_dbs := (replica_dbs ms)(rp_name r := pdatabase s), mmetrics := pmetrics s\<rparr>"]
    by auto
qed simp

lemma runPartitionMaintenance_primary:
  assumes "0 < PartitionInterval (cfg d)"
    and "maintain_primary pg_in me d \<lparr>pdatabase = primary ms, pmetrics = mmetrics ms\<rparr> = Some s"
  shows "\<exists>ms'. runPartitionMaintenance pg_in me d ms = Some ms' \<and> primary ms' = pdatabase s"
proof -
  obtain ms1 where "maintain_replicas pg_in me d (replicaPools d) (ms\<lparr>primary := pdatabase s, mmetrics := pmetrics s\<rparr>) = Some ms1"
    "primary ms1 = pdatabase s"
    using maintain_replicas_ends [OF assms(1), of pg_in me "replicaPools d" "ms\<lparr>primary := pdatabase s, mmetrics := pmetrics s\<rparr>"]
    by auto
  then show ?thesis using assms(2) by (simp add: runPartitionMaintenance_def)
qed

section \<open>The goroutine keeps the partitions consistent\<close>

lemma pdb_ok_cong: "cfg d' = cfg d \<Longrightarrow> pdb_ok d' = pdb_ok d"
  by (simp add: fun_eq_iff pdb_ok_def partitionName_def lower_ok_def)

text \<open>A script of events for a driver with this configuration, at times in the calendar's range.\<close>

definition script_ok :: "driver \<Rightarrow> (maint_event \<times> driver \<times> maint_env) list \<Rightarrow> bool" where
  "script_ok d evs \<longleftrightarrow> (\<forall>(ev, d', me) \<in> set evs. cfg d' = cfg d \<and> window_modern d (me_create_now me))"

lemma maintenance_round_inv:
  assumes d: "interval_ok d" and r: "reads_RFC3339 pg_in" and s: "cfg d' = cfg d" "window_modern d (me_create_now me)"
    and ok: "pdb_ok d (primary ms)"
  shows "\<exists>ms'. runPartitionMaintenance pg_in me d' ms = Some ms' \<and> pdb_ok d (primary ms')"
proof -
  have d': "interval_ok d'" "window_modern d' (me_create_now me)"
    using d s by (simp_all add: interval_ok_def window_modern_def)
  from maintain_primary_inv [OF d'(1) r d'(2), of "\<lparr>pdatabase = primary ms, pmetrics = mmetrics ms\<rparr>"]
  obtain s' where m: "maintain_primary pg_in me d' \<lparr>pdatabase = primary ms, pmetrics = mmetrics ms\<rparr> = Some s'"
    and o: "pdb_ok d (pdatabase s')"
    using ok pdb_ok_cong [OF s(1)] by auto
  have "0 < PartitionInterval (cfg d')" using d' by (simp add: interval_ok_def)
  from runPartitionMaintenance_primary [OF this m] o show ?thesis by auto
qed

lemma maintenance_loop_inv:
  assumes d: "interval_ok d" and r: "reads_RFC3339 pg_in"
  shows "script_ok d evs \<Longrightarrow> pdb_ok d (primary ms) \<Longrightarrow>
    \<exists>ms'. maintenance_loop pg_in evs ms = Some ms' \<and> pdb_ok d (primary ms')"
proof (induction evs arbitrary: ms)
  case (Cons e evs)
  obtain ev d' me where e: "e = (ev, d', me)" using prod_cases3 by blast
  from Cons.prems(1) have h: "cfg d' = cfg d" "window_modern d (me_create_now me)" "script_ok d evs"
    by (auto simp: e script_ok_def)
  from maintenance_round_inv [OF d r h(1,2) Cons.prems(2)] Cons.IH [OF h(3)] Cons.prems(2)
  show ?case by (fastforce simp: e)
qed simp

lemma partitionMaintenance_inv:
  assumes d: "interval_ok d" and r: "reads_RFC3339 pg_in"
  shows "script_ok d evs \<Longrightarrow> pdb_ok d (primary ms) \<Longrightarrow>
    \<exists>ms'. partitionMaintenance pg_in evs ms = Some ms' \<and> pdb_ok d (primary ms')"
proof (induction evs arbitrary: ms)
  case (Cons e evs)
  obtain ev d' me where e: "e = (ev, d', me)" using prod_cases3 by blast
  from Cons.prems(1) have h: "cfg d' = cfg d" "window_modern d (me_create_now me)" "script_ok d evs"
    by (auto simp: e script_ok_def)
  from maintenance_round_inv [OF d r h(1,2) Cons.prems(2)] obtain ms' where
    "runPartitionMaintenance pg_in me d' ms = Some ms'" "pdb_ok d (primary ms')" by blast
  with maintenance_loop_inv [OF d r h(3)] Cons.IH [OF h(3) Cons.prems(2)] Cons.prems(2)
  show ?case by (cases ev) (auto simp: e)
qed simp

text \<open>What a replica loses in a drop: only partitions whose name gives a range that ended a
  retention before both the clock and the position the replica has applied.\<close>

lemma dropExpiredReplica_safe:
  assumes "dropExpiredReplicaPartitions en now d r existing s = (err, s')" "distinct existing"
    and "(n, t) \<in> set (tables (pdatabase s))" "(n, t) \<notin> set (tables (pdatabase s'))"
  shows "n \<in> set existing \<and> (\<exists>lower applied. parsePartitionLower d n = Some lower \<and> rd_position en = Inr (Some applied) \<and>
    lower + PartitionInterval (cfg d) \<le> min applied now - PartitionRetention (cfg d))"
  using assms(1)
proof (cases rule: dropExpiredReplica_cases)
  case same
  then show ?thesis using assms by simp
next
  case (dropped applied)
  then have "n \<in> set (map ep_name (selectExpiredPartitions d existing (replica_cutoff d now applied)))"
    using assms(3,4) by (auto simp: without_tables_def)
  then have "n \<in> set existing" "name_expired d (replica_cutoff d now applied) n"
    using selectExpired_spec(2) [OF assms(2)] by auto
  then show ?thesis
    using dropped(1) replica_cutoff_le [of d now applied]
    by (auto simp: name_expired_def min_def split: option.splits)
qed

end
