(* ===== verification/Go_Flag.thy ===== *)
theory Go_Flag
  imports Pglg_Config
begin

text \<open>
  Go's \<open>flag\<close> package as the two command line tools use it: string, bool, int and duration flags,
  the forms \<open>-name\<close>, \<open>--name\<close>, \<open>-name=value\<close> and \<open>-name value\<close>, \<open>--\<close> as the end of the flags,
  \<open>-h\<close> and \<open>-help\<close>, and the errors that end the process under \<open>flag.ExitOnError\<close>. The values of
  the flags are a map from names; the initial map gives the defaults, whose constructors are the
  types. With it come \<open>strconv.ParseBool\<close> and the base-0 form of \<open>strconv.ParseInt\<close>
  (\<open>0x\<close>, \<open>0o\<close> and \<open>0b\<close> prefixes and digit separators) that the values go through, and
  \<open>strings.NewReplacer\<close> for the migration files.
\<close>

section \<open>strconv\<close>

definition ParseBool :: "string \<Rightarrow> bool option" where
  "ParseBool s =
     (if s \<in> set [''1'', ''t'', ''T'', ''true'', ''TRUE'', ''True''] then Some True
      else if s \<in> set [''0'', ''f'', ''F'', ''false'', ''FALSE'', ''False''] then Some False
      else None)"

text \<open>The value of a digit in bases up to 36; \<open>lower\<close> maps upper case letters to lower case.\<close>

definition lower_char :: "char \<Rightarrow> char" where
  "lower_char c = (if byte_in 65 90 c then char_of (of_char c + 32 :: nat) else c)"

definition digit36 :: "char \<Rightarrow> nat option" where
  "digit36 c =
     (let l = lower_char c in
      if is_digit c then Some (digit_val c)
      else if byte_in 97 122 l then Some (of_char l - 97 + 10)
      else None)"

text \<open>The base prefix of \<open>ParseUint(s, 0, 64)\<close> and the digits after it.\<close>

definition base_prefix :: "string \<Rightarrow> nat \<times> string" where
  "base_prefix s =
     (case s of
        a # b # c # cs \<Rightarrow>
          if a \<noteq> CHR ''0'' then (10, s)
          else if lower_char b = CHR ''b'' then (2, c # cs)
          else if lower_char b = CHR ''o'' then (8, c # cs)
          else if lower_char b = CHR ''x'' then (16, c # cs)
          else (8, b # c # cs)
      | a # cs \<Rightarrow> if a \<noteq> CHR ''0'' then (10, s) else (8, cs)
      | [] \<Rightarrow> (10, s))"

fun ParseUint0_loop :: "nat \<Rightarrow> nat \<Rightarrow> string \<Rightarrow> num_error + nat" where
  "ParseUint0_loop base n [] = Inr n"
| "ParseUint0_loop base n (c # cs) =
     (if c = CHR ''_'' then ParseUint0_loop base n cs
      else case digit36 c of
             None \<Rightarrow> Inl ErrSyntax
           | Some k \<Rightarrow>
               if k \<ge> base then Inl ErrSyntax
               else if n * base + k \<ge> 2 ^ 64 then Inl ErrRange
               else ParseUint0_loop base (n * base + k) cs)"

text \<open>\<open>underscoreOK\<close>: underscores only between digits, or between the base prefix and a digit.\<close>

datatype saw = SawStart | SawDigit | SawUnderscore | SawOther

fun underscore_scan :: "bool \<Rightarrow> saw \<Rightarrow> string \<Rightarrow> bool" where
  "underscore_scan hex sw [] = (sw \<noteq> SawUnderscore)"
| "underscore_scan hex sw (c # cs) =
     (if is_digit c \<or> hex \<and> byte_in 97 102 (lower_char c)
      then underscore_scan hex SawDigit cs
      else if c = CHR ''_'' then sw = SawDigit \<and> underscore_scan hex SawUnderscore cs
      else sw \<noteq> SawUnderscore \<and> underscore_scan hex SawOther cs)"

definition underscoreOK :: "string \<Rightarrow> bool" where
  "underscoreOK s =
     (case s of
        a # b # cs \<Rightarrow>
          if a = CHR ''0'' \<and> lower_char b \<in> set ''box''
          then underscore_scan (lower_char b = CHR ''x'') SawDigit cs
          else underscore_scan False SawStart s
      | _ \<Rightarrow> underscore_scan False SawStart s)"

definition ParseUint0 :: "string \<Rightarrow> num_error + nat" where
  "ParseUint0 s =
     (if s = [] then Inl ErrSyntax
      else case base_prefix s of
        (base, digits) \<Rightarrow>
          (case ParseUint0_loop base 0 digits of
             Inl e \<Rightarrow> Inl e
           | Inr n \<Rightarrow> if CHR ''_'' \<in> set digits \<and> \<not> underscoreOK s then Inl ErrSyntax else Inr n))"

definition ParseInt0 :: "string \<Rightarrow> num_error + int" where
  "ParseInt0 s =
     (if s = [] then Inl ErrSyntax
      else
        let neg = (hd s = CHR ''-'');
            body = (if hd s = CHR ''+'' \<or> hd s = CHR ''-'' then tl s else s)
        in case ParseUint0 body of
             Inl e \<Rightarrow> Inl e
           | Inr un \<Rightarrow>
               if \<not> neg \<and> un \<ge> 2 ^ 63 then Inl ErrRange
               else if neg \<and> un > 2 ^ 63 then Inl ErrRange
               else Inr (if neg then - int un else int un))"

section \<open>FlagSet.Parse\<close>

datatype flag_value =
    VString string
  | VBool bool
  | VInt int
  | VDuration duration

type_synonym flag_values = "string \<rightharpoonup> flag_value"

datatype flag_error = FlagHelp | FlagFail string

definition set_flag :: "flag_value \<Rightarrow> string \<Rightarrow> flag_value option" where
  "set_flag old v =
     (case old of
        VString _ \<Rightarrow> Some (VString v)
      | VBool _ \<Rightarrow> map_option VBool (ParseBool v)
      | VInt _ \<Rightarrow> (case ParseInt0 v of Inl e \<Rightarrow> None | Inr i \<Rightarrow> Some (VInt i))
      | VDuration _ \<Rightarrow> (case ParseDuration v of Inl e \<Rightarrow> None | Inr d \<Rightarrow> Some (VDuration d)))"

text \<open>Whether an argument is a flag, and its name without the minus signs.\<close>

datatype flag_token = Operand | Terminator | BadSyntax | Flag string

definition flag_token :: "string \<Rightarrow> flag_token" where
  "flag_token s =
     (if length s < 2 \<or> hd s \<noteq> CHR ''-'' then Operand
      else if s = ''--'' then Terminator
      else
        (let name = (if s ! 1 = CHR ''-'' then drop 2 s else drop 1 s)
         in if name = [] \<or> hd name = CHR ''-'' \<or> hd name = CHR ''='' then BadSyntax
            else Flag name))"

text \<open>\<open>name=value\<close>: the first equals sign that is not the first character splits it.\<close>

definition split_flag :: "string \<Rightarrow> string \<times> string option" where
  "split_flag name =
     (let rest = dropWhile (\<lambda>c. c \<noteq> CHR ''='') (tl name)
      in if rest = [] then (name, None)
         else (hd name # takeWhile (\<lambda>c. c \<noteq> CHR ''='') (tl name), Some (tl rest)))"

fun is_bool_flag :: "flag_value \<Rightarrow> bool" where
  "is_bool_flag (VBool b) = True"
| "is_bool_flag _ = False"

text \<open>The loop of \<open>Parse\<close>; one round is \<open>parseOne\<close>.\<close>

fun flag_Parse :: "flag_values \<Rightarrow> string list \<Rightarrow> flag_error + flag_values" where
  "flag_Parse m [] = Inr m"
| "flag_Parse m (s # args) =
     (case flag_token s of
        Operand \<Rightarrow> Inr m
      | Terminator \<Rightarrow> Inr m
      | BadSyntax \<Rightarrow> Inl (FlagFail ''bad flag syntax: %s'')
      | Flag text \<Rightarrow>
        (case split_flag text of
           (name, given) \<Rightarrow>
           (case m name of
              None \<Rightarrow>
                if name = ''help'' \<or> name = ''h'' then Inl FlagHelp
                else Inl (FlagFail ''flag provided but not defined: -%s'')
            | Some old \<Rightarrow>
                if is_bool_flag old then
                  (case set_flag old (case given of None \<Rightarrow> ''true'' | Some v \<Rightarrow> v) of
                     None \<Rightarrow> Inl (FlagFail ''invalid boolean value %q for -%s: %v'')
                   | Some new \<Rightarrow> flag_Parse (m(name \<mapsto> new)) args)
                else
                  (case given of
                     Some v \<Rightarrow>
                       (case set_flag old v of
                          None \<Rightarrow> Inl (FlagFail ''invalid value %q for flag -%s: %v'')
                        | Some new \<Rightarrow> flag_Parse (m(name \<mapsto> new)) args)
                   | None \<Rightarrow>
                       (case args of
                          [] \<Rightarrow> Inl (FlagFail ''flag needs an argument: -%s'')
                        | v # args' \<Rightarrow>
                          (case set_flag old v of
                             None \<Rightarrow> Inl (FlagFail ''invalid value %q for flag -%s: %v'')
                           | Some new \<Rightarrow> flag_Parse (m(name \<mapsto> new)) args'))))))"

definition flag_string :: "flag_values \<Rightarrow> string \<Rightarrow> string" where
  "flag_string m n = (case m n of Some (VString s) \<Rightarrow> s | _ \<Rightarrow> '''')"

definition flag_bool :: "flag_values \<Rightarrow> string \<Rightarrow> bool" where
  "flag_bool m n = (m n = Some (VBool True))"

definition flag_int :: "flag_values \<Rightarrow> string \<Rightarrow> int" where
  "flag_int m n = (case m n of Some (VInt i) \<Rightarrow> i | _ \<Rightarrow> 0)"

definition flag_duration :: "flag_values \<Rightarrow> string \<Rightarrow> duration" where
  "flag_duration m n = (case m n of Some (VDuration d) \<Rightarrow> d | _ \<Rightarrow> 0)"

section \<open>strings.NewReplacer\<close>

text \<open>\<open>Replace\<close>: from left to right, at each position the first of the pairs whose key starts
  there; what was inserted is not looked at again.\<close>

function Replace :: "(string \<times> string) list \<Rightarrow> string \<Rightarrow> string" where
  "Replace pairs s =
     (case s of
        [] \<Rightarrow> []
      | c # cs \<Rightarrow>
        (case find (\<lambda>(old, new). old \<noteq> [] \<and> HasPrefix s old) pairs of
           Some (old, new) \<Rightarrow> new @ Replace pairs (drop (length old) s)
         | None \<Rightarrow> c # Replace pairs cs))"
  by pat_completeness auto
termination
  by (relation "measure (\<lambda>(pairs, s). length s)") (auto simp: find_Some_iff)

declare Replace.simps [simp del]


section \<open>Templates\<close>

text \<open>A template is a sequence of literal pieces and holes \<open>{name}\<close>; \<open>Replace\<close> fills the holes and
  keeps the literals, whatever the inserted values contain.\<close>

definition brace :: "string \<Rightarrow> string" where
  "brace n = ''{'' @ n @ ''}''"

datatype piece = Lit string | Hole string

primrec piece_text :: "piece \<Rightarrow> string" where
  "piece_text (Lit s) = s"
| "piece_text (Hole n) = brace n"

primrec piece_fill :: "(string \<rightharpoonup> string) \<Rightarrow> piece \<Rightarrow> string" where
  "piece_fill vs (Lit s) = s"
| "piece_fill vs (Hole n) = the (vs n)"

primrec piece_ok :: "(string \<rightharpoonup> string) \<Rightarrow> piece \<Rightarrow> bool" where
  "piece_ok vs (Lit s) \<longleftrightarrow> CHR ''{'' \<notin> set s"
| "piece_ok vs (Hole n) \<longleftrightarrow> vs n \<noteq> None \<and> CHR ''}'' \<notin> set n"

definition hole_pairs :: "(string \<times> string) list \<Rightarrow> (string \<times> string) list" where
  "hole_pairs nvs = map (\<lambda>(n, v). (brace n, v)) nvs"

lemma HasPrefix_split: "HasPrefix s p \<Longrightarrow> s = p @ drop (length p) s"
  unfolding HasPrefix_def by (metis append_take_drop_id)

lemma HasPrefix_brace:
  assumes "CHR ''}'' \<notin> set n" "CHR ''}'' \<notin> set n'"
  shows "HasPrefix (brace n @ t) (brace n') \<longleftrightarrow> n = n'"
proof
  assume "HasPrefix (brace n @ t) (brace n')"
  then obtain u where "brace n @ t = brace n' @ u" using HasPrefix_split by blast
  then have "n @ CHR ''}'' # t = n' @ CHR ''}'' # u" by (simp add: brace_def)
  then show "n = n'" using assms by (induction n arbitrary: n') (auto simp: Cons_eq_append_conv)
qed (simp add: HasPrefix_def brace_def)

lemma find_hole:
  assumes "\<And>n v. (n, v) \<in> set nvs \<Longrightarrow> CHR ''}'' \<notin> set n" "CHR ''}'' \<notin> set n"
  shows "find (\<lambda>(old, new). old \<noteq> [] \<and> HasPrefix (brace n @ t) old) (hole_pairs nvs) =
    map_option (\<lambda>v. (brace n, v)) (map_of nvs n)"
  using assms
proof (induction nvs)
  case (Cons nv nvs)
  obtain n' v where nv: "nv = (n', v)" by fastforce
  have "HasPrefix (brace n @ t) (brace n') \<longleftrightarrow> n = n'"
    using Cons.prems by (intro HasPrefix_brace) (auto simp: nv)
  moreover have "brace n' \<noteq> []" by (simp add: brace_def)
  ultimately show ?case using Cons by (auto simp: nv hole_pairs_def)
qed (simp add: hole_pairs_def)

lemma Replace_Hole:
  assumes "\<And>n v. (n, v) \<in> set nvs \<Longrightarrow> CHR ''}'' \<notin> set n" "map_of nvs n = Some v" "CHR ''}'' \<notin> set n"
  shows "Replace (hole_pairs nvs) (brace n @ t) = v @ Replace (hole_pairs nvs) t"
proof -
  obtain c cs where s: "brace n @ t = c # cs" by (cases "brace n @ t") (simp_all add: brace_def)
  have "find (\<lambda>(old, new). old \<noteq> [] \<and> HasPrefix (c # cs) old) (hole_pairs nvs) = Some (brace n, v)"
    using find_hole [OF assms(1,3), where t = t] assms(2) s by simp
  moreover have "drop (length (brace n)) (c # cs) = t" unfolding s [symmetric] by simp
  ultimately show ?thesis unfolding s by (subst Replace.simps) simp
qed

lemma Replace_Lit:
  "CHR ''{'' \<notin> set s \<Longrightarrow> Replace (hole_pairs nvs) (s @ t) = s @ Replace (hole_pairs nvs) t"
proof (induction s)
  case (Cons c s)
  have "find (\<lambda>(old, new). old \<noteq> [] \<and> HasPrefix (c # s @ t) old) (hole_pairs nvs) = None"
    using Cons.prems by (auto simp: find_None_iff hole_pairs_def brace_def HasPrefix_def)
  then show ?case using Cons by (subst Replace.simps) simp
qed simp

lemma Replace_template:
  assumes "\<And>n v. (n, v) \<in> set nvs \<Longrightarrow> CHR ''}'' \<notin> set n" "list_all (piece_ok (map_of nvs)) ps"
  shows "Replace (hole_pairs nvs) (concat (map piece_text ps)) = concat (map (piece_fill (map_of nvs)) ps)"
  using assms(2)
proof (induction ps)
  case Nil
  then show ?case by (simp add: Replace.simps)
next
  case (Cons p ps)
  then show ?case using Replace_Hole [OF assms(1), of nvs] by (cases p) (auto simp: Replace_Lit)
qed

section \<open>Arguments of the form --name=value\<close>

lemma split_flag_eq:
  "n \<noteq> [] \<Longrightarrow> CHR ''='' \<notin> set n \<Longrightarrow> split_flag (n @ CHR ''='' # v) = (n, Some v)"
proof -
  assume "n \<noteq> []" and n: "CHR ''='' \<notin> set n"
  then obtain c cs where c: "n = c # cs" by (cases n) auto
  have "dropWhile (\<lambda>x. x \<noteq> CHR ''='') (cs @ CHR ''='' # v) = CHR ''='' # v"
    "takeWhile (\<lambda>x. x \<noteq> CHR ''='') (cs @ CHR ''='' # v) = cs"
    using n c by (auto simp: dropWhile_append3 takeWhile_tail)
  then show ?thesis by (simp add: split_flag_def c)
qed

lemma flag_token_long:
  "n \<noteq> [] \<Longrightarrow> hd n \<noteq> CHR ''-'' \<Longrightarrow> hd n \<noteq> CHR ''='' \<Longrightarrow> flag_token (''--'' @ n) = Flag n"
  by (simp add: flag_token_def)

text \<open>String flags given as \<open>--name=value\<close> take exactly these values, the last one winning.\<close>

lemma flag_Parse_strings:
  assumes "\<And>n v. (n, v) \<in> set nvs \<Longrightarrow> n \<noteq> [] \<and> hd n \<noteq> CHR ''-'' \<and> CHR ''='' \<notin> set n \<and> (\<exists>s. m n = Some (VString s))"
  shows "flag_Parse m (map (\<lambda>(n, v). ''--'' @ n @ ''='' @ v) nvs) = Inr (m ++ map_of (rev (map (\<lambda>(n, v). (n, VString v)) nvs)))"
  using assms
proof (induction nvs arbitrary: m)
  case (Cons nv nvs)
  obtain n v where nv: "nv = (n, v)" by fastforce
  from Cons.prems [of n v] obtain s where n: "n \<noteq> []" "hd n \<noteq> CHR ''-''" "CHR ''='' \<notin> set n" "m n = Some (VString s)"
    by (auto simp: nv)
  have t: "flag_token (CHR ''-'' # CHR ''-'' # n @ CHR ''='' # v) = Flag (n @ CHR ''='' # v)"
    using n flag_token_long [of "n @ CHR ''='' # v"] by (cases n) auto
  have "flag_Parse (m(n \<mapsto> VString v)) (map (\<lambda>(n, v). ''--'' @ n @ ''='' @ v) nvs) =
      Inr (m(n \<mapsto> VString v) ++ map_of (rev (map (\<lambda>(n, v). (n, VString v)) nvs)))"
  proof (rule Cons.IH)
    fix n' v'
    assume "(n', v') \<in> set nvs"
    then show "n' \<noteq> [] \<and> hd n' \<noteq> CHR ''-'' \<and> CHR ''='' \<notin> set n' \<and> (\<exists>s. (m(n \<mapsto> VString v)) n' = Some (VString s))"
      using Cons.prems [of n' v'] by auto
  qed
  then show ?case using n t split_flag_eq [OF n(1,3)] by (simp add: nv set_flag_def map_add_assoc [symmetric])
qed simp

end
