(* ===== verification/Pglg_Setup.thy ===== *)
theory Pglg_Setup
  imports Go_Flag Pglg_Partition
begin

text \<open>
  \<open>cmd/pglg-setup/main.go\<close>: the one-time setup and teardown of the outbox tables, and the
  embedded migrations of \<open>schema.go\<close> it runs.

  The database is a server with answers of its own: \<open>srv_exec\<close> gives the error and the new state
  for a statement, the queries their scanned value or an error, and the state of the database is
  of any type, so that an error may depend on everything that happened before. The statements
  the tool builds are values of a datatype, one constructor per text in the code; a migration
  file is sent as text, after the placeholders were filled. What the tool prints is kept too, so
  that the order of prints and statements is visible, a print without its final newline. The
  clock is an argument.
\<close>

section \<open>Server and console\<close>

datatype statement =
    Script string
      \<comment> \<open>the text of a migration file\<close>
  | CreatePartition string string string string string
      \<comment> \<open>\<open>CREATE TABLE IF NOT EXISTS schema.name PARTITION OF schema.prefix_jobs FOR VALUES FROM ('l') TO ('u')\<close>:
        schema, name, prefix, lower and upper text\<close>
  | InsertMeta string string string gotime gotime
      \<comment> \<open>\<open>INSERT INTO schema.prefix_partition_meta ... VALUES ($1, $2, $3) ON CONFLICT DO NOTHING\<close>:
        schema, prefix and the three arguments\<close>
  | DropSlot string
      \<comment> \<open>\<open>SELECT pg_drop_replication_slot($1)\<close>\<close>
  | DropPublication string
      \<comment> \<open>\<open>DROP PUBLICATION IF EXISTS name\<close>\<close>
  | DropTable string
      \<comment> \<open>\<open>DROP TABLE IF EXISTS name CASCADE\<close>\<close>

record 'db server =
  srv_connect :: "string \<Rightarrow> go_error option"
  srv_exec :: "statement \<Rightarrow> 'db \<Rightarrow> go_error option \<times> 'db"
  srv_current_user :: "'db \<Rightarrow> go_error + string"
  srv_has_replication :: "'db \<Rightarrow> go_error + bool"
  srv_has_schema_create :: "string \<Rightarrow> 'db \<Rightarrow> go_error + bool"
  srv_has_db_create :: "'db \<Rightarrow> go_error + bool"

datatype printed =
    Stdout string "fmt_arg list"
  | Stderr string "fmt_arg list"
  | StderrError string go_error
  | FlagUsage

record 'db tool =
  server_db :: 'db
  executed :: "statement list"
  console :: "printed list"

definition print :: "printed \<Rightarrow> 'db tool \<Rightarrow> 'db tool" where
  "print p s = s\<lparr>console := console s @ [p]\<rparr>"

definition Exec :: "'db server \<Rightarrow> statement \<Rightarrow> 'db tool \<Rightarrow> go_error option \<times> 'db tool" where
  "Exec srv st s =
     (case srv_exec srv st (server_db s) of
        (err, db) \<Rightarrow> (err, s\<lparr>server_db := db, executed := executed s @ [st]\<rparr>))"

section \<open>Privileges\<close>

text \<open>One block of \<open>checkPrivileges\<close>: the answer of a query, and the text added to the missing
  privileges when it is false.\<close>

definition require_privilege :: "go_error + bool \<Rightarrow> string \<Rightarrow> fmt_arg \<Rightarrow> fmt_arg list \<Rightarrow> go_error + fmt_arg list" where
  "require_privilege answer failure text missing =
     (case answer of
        Inl err \<Rightarrow> Inl (Wrapf failure [] err)
      | Inr has \<Rightarrow> Inr (if has then missing else missing @ [text]))"

definition missing_privileges :: "'db server \<Rightarrow> string \<Rightarrow> bool \<Rightarrow> bool \<Rightarrow> 'db \<Rightarrow> go_error + fmt_arg list" where
  "missing_privileges srv schema skipPublication skipSlot db =
     bind_sum
       (if skipSlot then Inr []
        else require_privilege (srv_has_replication srv db) ''check replication role: %w''
               (FStr ''REPLICATION role (required to create replication slots)'') []) (\<lambda>missing.
     bind_sum
       (require_privilege (srv_has_schema_create srv schema db) ''check schema privilege: %w''
          (FSprintf ''CREATE on schema %q (required to create tables)'' [FStr schema]) missing) (\<lambda>missing.
       if skipPublication then Inr missing
       else require_privilege (srv_has_db_create srv db) ''check database privilege: %w''
              (FStr ''CREATE on database (required to create publications)'') missing))"

definition checkPrivileges :: "'db server \<Rightarrow> string \<Rightarrow> bool \<Rightarrow> bool \<Rightarrow> 'db tool \<Rightarrow> go_error option \<times> 'db tool" where
  "checkPrivileges srv schema skipPublication skipSlot s =
     (case srv_current_user srv (server_db s) of
        Inl err \<Rightarrow> (Some (Wrapf ''get current user: %w'' [] err), s)
      | Inr user \<Rightarrow>
        (let s1 = print (Stdout ''connected as user: %s'' [FStr user]) s in
         case missing_privileges srv schema skipPublication skipSlot (server_db s) of
           Inl err \<Rightarrow> (Some err, s1)
         | Inr missing \<Rightarrow>
             if missing \<noteq> [] then
               (Some (Errorf (''user %q is missing required privileges:'' @ CHR 0x0A # ''  - %s'')
                        [FStr user, FJoin missing (CHR 0x0A # ''  - '')]), s1)
             else (None, print (Stdout ''privilege check passed'' []) s1)))"

section \<open>Migration files\<close>

record sqlFile =
  f_name :: string
  f_content :: string

record dir_entry =
  de_name :: string
  de_isDir :: bool

text \<open>A file system as \<open>fs.ReadDir\<close> and \<open>fs.ReadFile\<close> see it.\<close>

record file_system =
  fs_ReadDir :: "string \<Rightarrow> go_error + dir_entry list"
  fs_ReadFile :: "string \<Rightarrow> go_error + string"

text \<open>The embedded file system: the files \<open>sql/*.sql\<close> of the repository, in the order of their
  names. \<open>content\<close> gives their text.\<close>

definition migration_names :: "string list" where
  "migration_names =
     [''001_create_outbox.sql'', ''002_create_cursor.sql'', ''003_create_partition_meta.sql'',
      ''004_create_publication.sql'', ''005_create_replication_slot.sql'', ''006_create_dlq.sql'']"

definition ExportedMigrationFS :: "(string \<Rightarrow> string) \<Rightarrow> file_system" where
  "ExportedMigrationFS content =
     \<lparr>fs_ReadDir = (\<lambda>dir.
        if dir = ''sql'' then Inr (map (\<lambda>n. \<lparr>de_name = n, de_isDir = False\<rparr>) migration_names)
        else Inl (ExtError ''file does not exist'')),
      fs_ReadFile = (\<lambda>path.
        if path \<in> set (map ((@) ''sql/'') migration_names) then Inr (content (drop 4 path))
        else Inl (ExtError ''file does not exist''))\<rparr>"

fun read_entries :: "file_system \<Rightarrow> dir_entry list \<Rightarrow> go_error + sqlFile list" where
  "read_entries fs [] = Inr []"
| "read_entries fs (e # es) =
     (if de_isDir e \<or> \<not> HasSuffix (de_name e) ''.sql'' then read_entries fs es
      else case fs_ReadFile fs (''sql/'' @ de_name e) of
             Inl err \<Rightarrow> Inl (Wrapf ''read %s: %w'' [FStr (de_name e)] err)
           | Inr content \<Rightarrow>
               (case read_entries fs es of
                  Inl err \<Rightarrow> Inl err
                | Inr files \<Rightarrow> Inr (\<lparr>f_name = de_name e, f_content = content\<rparr> # files)))"

definition readSQLFiles :: "file_system \<Rightarrow> go_error + sqlFile list" where
  "readSQLFiles fs =
     (case fs_ReadDir fs ''sql'' of
        Inl err \<Rightarrow> Inl (Wrapf ''read migration dir: %w'' [] err)
      | Inr entries \<Rightarrow>
        (case read_entries fs entries of
           Inl err \<Rightarrow> Inl err
         | Inr files \<Rightarrow> Inr (sort_key f_name files)))"

section \<open>Create\<close>

definition setup_partition_name :: "string \<Rightarrow> gotime \<Rightarrow> string" where
  "setup_partition_name pre lower = pre @ ''_jobs_'' @ Format lower partition_layout"

text \<open>The loop over the migration files.\<close>

fun run_files :: "'db server \<Rightarrow> (string \<times> string) list \<Rightarrow> bool \<Rightarrow> bool \<Rightarrow> sqlFile list \<Rightarrow> 'db tool
    \<Rightarrow> go_error option \<times> 'db tool" where
  "run_files srv replacer skipPub skipSlot [] s = (None, s)"
| "run_files srv replacer skipPub skipSlot (f # fs) s =
     (if skipPub \<and> Contains (f_name f) ''create_publication'' then
        run_files srv replacer skipPub skipSlot fs
          (print (Stdout ''skipping %s (publication creation disabled)'' [FStr (f_name f)]) s)
      else if skipSlot \<and> Contains (f_name f) ''create_replication_slot'' then
        run_files srv replacer skipPub skipSlot fs
          (print (Stdout ''skipping %s (--replica set)'' [FStr (f_name f)]) s)
      else
        (case Exec srv (Script (Replace replacer (f_content f)))
                (print (Stdout ''executing %s...'' [FStr (f_name f)]) s) of
           (Some err, s') \<Rightarrow> (Some (Wrapf ''%s: %w'' [FStr (f_name f)] err), s')
         | (None, s') \<Rightarrow> run_files srv replacer skipPub skipSlot fs s'))"

definition range_body :: "'db server \<Rightarrow> string \<Rightarrow> string \<Rightarrow> nat \<Rightarrow> gotime \<Rightarrow> int \<times> 'db tool
    \<Rightarrow> (int \<times> 'db tool) loop_result" where
  "range_body srv schema pre i t cs =
     (case cs of
        (cnt, s) \<Rightarrow>
        (let upper = t + Hour;
             partName = setup_partition_name pre t
         in case Exec srv (CreatePartition schema partName pre (Format t RFC3339) (Format upper RFC3339)) s of
              (Some err, s') \<Rightarrow> Returned (Wrapf ''create partition %s: %w'' [FStr partName] err) (cnt, s')
            | (None, s') \<Rightarrow> Running (cnt + 1, s')))"

text \<open>None when the loop does not end.\<close>

definition createPartitionRange :: "'db server \<Rightarrow> gotime \<Rightarrow> string \<Rightarrow> string \<Rightarrow> gotime \<Rightarrow> 'db tool
    \<Rightarrow> (go_error option \<times> 'db tool) option" where
  "createPartitionRange srv now schema pre start0 s =
     (let start = Truncate start0 Hour;
          stop = Truncate (now + 13 * Hour) Hour
      in if \<not> start < stop then
           Some (Some (Errorf ''--create-partitions: start %s is not before computed end %s''
                         [FStr (Format start RFC3339), FStr (Format stop RFC3339)]), s)
         else
           (case range_loop Hour stop (range_body srv schema pre) 0 start (0, s) of
              None \<Rightarrow> None
            | Some (Returned err (cnt, s')) \<Rightarrow> Some (Some err, s')
            | Some (Running (cnt, s')) \<Rightarrow>
                Some (None, print (Stdout ''ensured %d partitions from %s through %s''
                  [FInt cnt, FStr (Format start RFC3339), FStr (Format stop RFC3339)]) s')))"

text \<open>The partition of the current hour, created and registered at the end of \<open>runCreate\<close>.\<close>

definition create_initial :: "'db server \<Rightarrow> gotime \<Rightarrow> string \<Rightarrow> string \<Rightarrow> 'db tool
    \<Rightarrow> go_error option \<times> 'db tool" where
  "create_initial srv time schema pre s =
     (let now = Truncate time Hour;
          upper = now + Hour;
          partName = setup_partition_name pre now;
          s1 = print (Stdout ''creating initial partition %s...'' [FStr partName]) s
      in case Exec srv (CreatePartition schema partName pre (Format now RFC3339) (Format upper RFC3339)) s1 of
           (Some err, s2) \<Rightarrow> (Some (Wrapf ''create initial partition: %w'' [] err), s2)
         | (None, s2) \<Rightarrow>
           (case Exec srv (InsertMeta schema pre partName now upper) s2 of
              (Some err, s3) \<Rightarrow> (Some (Wrapf ''register initial partition: %w'' [] err), s3)
            | (None, s3) \<Rightarrow> (None, s3)))"

record create_args =
  a_schema :: string
  a_prefix :: string
  a_publication :: string
  a_slot :: string
  a_skipPublication :: bool
  a_replica :: bool
  a_partitionsStart :: gotime

definition setup_replacer :: "create_args \<Rightarrow> (string \<times> string) list" where
  "setup_replacer a =
     [(''{schema}'', a_schema a), (''{prefix}'', a_prefix a),
      (''{publication_name}'', a_publication a), (''{slot_name}'', a_slot a)]"

definition runCreate :: "'db server \<Rightarrow> file_system \<Rightarrow> gotime \<Rightarrow> create_args \<Rightarrow> 'db tool
    \<Rightarrow> (go_error option \<times> 'db tool) option" where
  "runCreate srv fs now a s =
     (let skipPub = (a_skipPublication a \<or> a_replica a);
          skipSlot = a_replica a
      in case checkPrivileges srv (a_schema a) skipPub skipSlot s of
           (Some err, s1) \<Rightarrow> Some (Some err, s1)
         | (None, s1) \<Rightarrow>
           (case readSQLFiles fs of
              Inl err \<Rightarrow> Some (Some err, s1)
            | Inr files \<Rightarrow>
              (case run_files srv (setup_replacer a) skipPub skipSlot files s1 of
                 (Some err, s2) \<Rightarrow> Some (Some err, s2)
               | (None, s2) \<Rightarrow>
                   if a_replica a then
                     (if \<not> IsZero (a_partitionsStart a)
                      then createPartitionRange srv now (a_schema a) (a_prefix a) (a_partitionsStart a) s2
                      else Some (None, s2))
                   else Some (create_initial srv now (a_schema a) (a_prefix a) s2))))"

section \<open>Destroy\<close>

fun drop_tables :: "'db server \<Rightarrow> string list \<Rightarrow> 'db tool \<Rightarrow> go_error option \<times> 'db tool" where
  "drop_tables srv [] s = (None, s)"
| "drop_tables srv (t # ts) s =
     (case Exec srv (DropTable t) (print (Stdout ''dropping table %s...'' [FStr t]) s) of
        (Some err, s') \<Rightarrow> (Some (Wrapf ''drop %s: %w'' [FStr t] err), s')
      | (None, s') \<Rightarrow> drop_tables srv ts s')"

definition destroyed_tables :: "string \<Rightarrow> string \<Rightarrow> string list" where
  "destroyed_tables schema pre =
     [schema @ ''.'' @ pre @ ''_jobs'', schema @ ''.'' @ pre @ ''_cursor'',
      schema @ ''.'' @ pre @ ''_partition_meta'', schema @ ''.'' @ pre @ ''_dlq'']"

definition runDestroy :: "'db server \<Rightarrow> string \<Rightarrow> string \<Rightarrow> string \<Rightarrow> string \<Rightarrow> 'db tool
    \<Rightarrow> go_error option \<times> 'db tool" where
  "runDestroy srv schema pre publication slot s =
     (let s1 = snd (Exec srv (DropSlot slot) (print (Stdout ''dropping replication slot %s...'' [FStr slot]) s));
          s2 = snd (Exec srv (DropPublication publication)
                 (print (Stdout ''dropping publication %s...'' [FStr publication]) s1))
      in drop_tables srv (destroyed_tables schema pre) s2)"

section \<open>The command line\<close>

definition usage :: "'db tool \<Rightarrow> 'db tool" where
  "usage s =
     print (Stderr ''  destroy  Drop outbox tables, publication, and replication slot'' [])
       (print (Stderr ''  create   Create outbox tables, publication, and replication slot'' [])
         (print (Stderr ''Usage: pglg-setup <create|destroy> [flags]'' []) s))"

definition setup_flags :: flag_values where
  "setup_flags = map_of
     [(''conn-string'', VString ''''), (''schema'', VString ''public''), (''prefix'', VString ''outbox''),
      (''publication'', VString ''''), (''slot'', VString ''''), (''skip-publication'', VBool False),
      (''replica'', VBool False), (''create-partitions'', VString '''')]"

text \<open>The checks on the flags, in the order of the code: the messages printed before the process
  exits with status 1, or None when they pass.\<close>

definition check_flags :: "string \<Rightarrow> flag_values \<Rightarrow> printed list option" where
  "check_flags cmd m =
     (let connString = flag_string m ''conn-string'';
          publication = flag_string m ''publication'';
          slot = flag_string m ''slot'';
          replica = flag_bool m ''replica'';
          createPartitionsFrom = flag_string m ''create-partitions'';
          pubSlotRequired = (cmd \<noteq> ''create'' \<or> \<not> replica)
      in if connString = '''' then Some [Stderr ''error: --conn-string is required'' [], FlagUsage]
         else if cmd \<noteq> ''create'' \<and> replica then
           Some [Stderr ''error: --replica is only supported for 'create' (got %q)'' [FStr cmd]]
         else if cmd \<noteq> ''create'' \<and> createPartitionsFrom \<noteq> '''' then
           Some [Stderr ''error: --create-partitions is only supported for 'create' (got %q)'' [FStr cmd]]
         else if createPartitionsFrom \<noteq> '''' \<and> \<not> replica then
           Some [Stderr ''error: --create-partitions requires --replica'' [], FlagUsage]
         else if pubSlotRequired \<and> (publication = '''' \<or> slot = '''') then
           Some [Stderr (if cmd = ''create'' then ''error: --publication and --slot are required (unless --replica)''
                         else ''error: --publication and --slot are required'') [], FlagUsage]
         else None)"

text \<open>The zero time when the flag is not given, None when it does not parse.\<close>

definition partitions_start :: "flag_values \<Rightarrow> gotime option" where
  "partitions_start m =
     (let from = flag_string m ''create-partitions''
      in if from = '''' then Some 0 else time_Parse RFC3339 from)"

definition create_args_of :: "flag_values \<Rightarrow> gotime \<Rightarrow> create_args" where
  "create_args_of m start =
     \<lparr>a_schema = flag_string m ''schema'', a_prefix = flag_string m ''prefix'',
      a_publication = flag_string m ''publication'', a_slot = flag_string m ''slot'',
      a_skipPublication = flag_bool m ''skip-publication'', a_replica = flag_bool m ''replica'',
      a_partitionsStart = start\<rparr>"

text \<open>The command after the connection is open: the exit status and the state.\<close>

definition run_command :: "'db server \<Rightarrow> file_system \<Rightarrow> gotime \<Rightarrow> string \<Rightarrow> flag_values \<Rightarrow> gotime \<Rightarrow> 'db tool
    \<Rightarrow> (nat \<times> 'db tool) option" where
  "run_command srv fs now cmd m start s =
     (if cmd = ''create'' then
        (case runCreate srv fs now (create_args_of m start) s of
           None \<Rightarrow> None
         | Some (Some err, s') \<Rightarrow> Some (1, print (StderrError ''error: %v'' err) s')
         | Some (None, s') \<Rightarrow> Some (0, print (Stdout ''setup complete'' []) s'))
      else if cmd = ''destroy'' then
        (case runDestroy srv (flag_string m ''schema'') (flag_string m ''prefix'')
                (flag_string m ''publication'') (flag_string m ''slot'') s of
           (Some err, s') \<Rightarrow> Some (1, print (StderrError ''error: %v'' err) s')
         | (None, s') \<Rightarrow> Some (0, print (Stdout ''teardown complete'' []) s'))
      else Some (1, usage (print (Stderr ''unknown command: %s'' [FStr cmd]) s)))"

definition setup_main :: "'db server \<Rightarrow> file_system \<Rightarrow> gotime \<Rightarrow> string list \<Rightarrow> 'db tool
    \<Rightarrow> (nat \<times> 'db tool) option" where
  "setup_main srv fs now Args s =
     (if length Args < 2 then Some (1, usage s)
      else
        (let cmd = Args ! 1 in
         case flag_Parse setup_flags (drop 2 Args) of
           Inl FlagHelp \<Rightarrow> Some (0, print FlagUsage s)
         | Inl (FlagFail format) \<Rightarrow> Some (2, print FlagUsage (print (Stderr format []) s))
         | Inr m \<Rightarrow>
           (case check_flags cmd m of
              Some messages \<Rightarrow> Some (1, fold print messages s)
            | None \<Rightarrow>
              (case partitions_start m of
                 None \<Rightarrow> Some (1, print (StderrError ''error: --create-partitions: invalid RFC3339 timestamp: %v''
                           (Errorf ''parsing time %q'' [FStr (flag_string m ''create-partitions'')])) s)
               | Some start \<Rightarrow>
                 (case srv_connect srv (flag_string m ''conn-string'') of
                    Some err \<Rightarrow> Some (1, print (StderrError ''error: connect: %v'' err) s)
                  | None \<Rightarrow> run_command srv fs now cmd m start s)))))"


section \<open>Frames\<close>

lemma print_frame [simp]:
  "server_db (print p s) = server_db s" "executed (print p s) = executed s"
  by (simp_all add: print_def)

lemma fold_print_executed [simp]: "executed (fold print ps s) = executed s"
  by (induction ps arbitrary: s) simp_all

lemma usage_frame [simp]: "executed (usage s) = executed s"
  by (simp add: usage_def)

lemma Exec_result:
  "Exec srv st s = (err, s') \<Longrightarrow> executed s' = executed s @ [st] \<and> srv_exec srv st (server_db s) = (err, server_db s')"
  by (auto simp: Exec_def split: prod.splits)

section \<open>Privileges\<close>

text \<open>What the user needs for a setup that leaves out the publication or the slot.\<close>

definition privileged :: "'db server \<Rightarrow> string \<Rightarrow> bool \<Rightarrow> bool \<Rightarrow> 'db \<Rightarrow> bool" where
  "privileged srv schema skipPub skipSlot db \<longleftrightarrow>
     (\<exists>user. srv_current_user srv db = Inr user) \<and>
     (skipSlot \<or> srv_has_replication srv db = Inr True) \<and> srv_has_schema_create srv schema db = Inr True \<and>
     (skipPub \<or> srv_has_db_create srv db = Inr True)"

lemma missing_privileges_Nil:
  "missing_privileges srv schema skipPub skipSlot db = Inr [] \<longleftrightarrow>
     (skipSlot \<or> srv_has_replication srv db = Inr True) \<and> srv_has_schema_create srv schema db = Inr True \<and>
     (skipPub \<or> srv_has_db_create srv db = Inr True)"
  by (auto simp: missing_privileges_def require_privilege_def bind_sum_def split: sum.splits if_splits)

lemma checkPrivileges_frame:
  "checkPrivileges srv schema skipPub skipSlot s = (err, s') \<Longrightarrow> executed s' = executed s \<and> server_db s' = server_db s"
  by (auto simp: checkPrivileges_def Let_def split: sum.splits if_splits)

lemma checkPrivileges_None:
  "fst (checkPrivileges srv schema skipPub skipSlot s) = None \<longleftrightarrow> privileged srv schema skipPub skipSlot (server_db s)"
  unfolding privileged_def missing_privileges_Nil [symmetric]
  by (auto simp: checkPrivileges_def Let_def split: sum.splits)

section \<open>Migration files\<close>

definition skipped :: "bool \<Rightarrow> bool \<Rightarrow> string \<Rightarrow> bool" where
  "skipped skipPub skipSlot name \<longleftrightarrow>
     skipPub \<and> Contains name ''create_publication'' \<or> skipSlot \<and> Contains name ''create_replication_slot''"

lemma run_files_None:
  "run_files srv replacer skipPub skipSlot files s = (None, s') \<Longrightarrow>
   executed s' = executed s @ map (\<lambda>f. Script (Replace replacer (f_content f)))
     (filter (\<lambda>f. \<not> skipped skipPub skipSlot (f_name f)) files)"
proof (induction files arbitrary: s)
  case (Cons f fs)
  show ?case
  proof (cases "skipped skipPub skipSlot (f_name f)")
    case True
    then have "\<exists>p. run_files srv replacer skipPub skipSlot (f # fs) s = run_files srv replacer skipPub skipSlot fs (print p s)"
      by (auto simp: skipped_def)
    then show ?thesis using Cons True by auto
  next
    case False
    let ?st = "Script (Replace replacer (f_content f))"
    from False Cons.prems obtain s1 where
      s1: "Exec srv ?st (print (Stdout ''executing %s...'' [FStr (f_name f)]) s) = (None, s1)"
      "run_files srv replacer skipPub skipSlot fs s1 = (None, s')"
      by (auto simp: skipped_def split: prod.splits option.splits)
    then show ?thesis using Cons.IH [OF s1(2)] Exec_result [OF s1(1)] False by simp
  qed
qed simp

definition migration_files :: "(string \<Rightarrow> string) \<Rightarrow> sqlFile list" where
  "migration_files content = map (\<lambda>n. \<lparr>f_name = n, f_content = content n\<rparr>) migration_names"

lemma migration_names_sorted: "sorted migration_names"
  by code_simp

lemma migration_names_sql: "list_all (\<lambda>n. HasSuffix n ''.sql'') migration_names"
  by code_simp

lemma read_entries_all:
  assumes "\<And>e. e \<in> set es \<Longrightarrow> \<not> de_isDir e \<and> HasSuffix (de_name e) ''.sql'' \<and>
    fs_ReadFile fs (''sql/'' @ de_name e) = Inr (content (de_name e))"
  shows "read_entries fs es = Inr (map (\<lambda>e. \<lparr>f_name = de_name e, f_content = content (de_name e)\<rparr>) es)"
  using assms by (induction es) simp_all

lemma readSQLFiles_embedded: "readSQLFiles (ExportedMigrationFS content) = Inr (migration_files content)"
proof -
  let ?es = "map (\<lambda>n. \<lparr>de_name = n, de_isDir = False\<rparr>) migration_names"
  have r: "fs_ReadFile (ExportedMigrationFS content) (''sql/'' @ n) = Inr (content n)" if "n \<in> set migration_names" for n
    using that by (auto simp: ExportedMigrationFS_def)
  have "read_entries (ExportedMigrationFS content) ?es = Inr (migration_files content)"
    using read_entries_all [of ?es "ExportedMigrationFS content" content] migration_names_sql r
    by (force simp: migration_files_def list_all_iff comp_def)
  moreover have "fs_ReadDir (ExportedMigrationFS content) ''sql'' = Inr ?es" by (simp add: ExportedMigrationFS_def)
  moreover have "map f_name (migration_files content) = migration_names" by (simp add: migration_files_def comp_def)
  then have "sort_key f_name (migration_files content) = migration_files content"
    using migration_names_sorted by (simp add: sort_key_id_if_sorted)
  ultimately show ?thesis by (simp add: readSQLFiles_def)
qed


text \<open>The files of a full setup, of one whose publication is managed elsewhere, and of a
  replica.\<close>

lemma filter_skipped:
  "filter (\<lambda>n. \<not> skipped False False n) migration_names = migration_names"
  "filter (\<lambda>n. \<not> skipped True False n) migration_names =
     [''001_create_outbox.sql'', ''002_create_cursor.sql'', ''003_create_partition_meta.sql'',
      ''005_create_replication_slot.sql'', ''006_create_dlq.sql'']"
  "filter (\<lambda>n. \<not> skipped True True n) migration_names =
     [''001_create_outbox.sql'', ''002_create_cursor.sql'', ''003_create_partition_meta.sql'', ''006_create_dlq.sql'']"
  by code_simp+

section \<open>The back-fill range\<close>

definition range_statement :: "string \<Rightarrow> string \<Rightarrow> gotime \<Rightarrow> statement" where
  "range_statement schema pre t =
     CreatePartition schema (setup_partition_name pre t) pre (Format t RFC3339) (Format (t + Hour) RFC3339)"

lemma run_range:
  "case run_windows (range_body srv schema pre) ws (k, s) of
     Running (k', s') \<Rightarrow> executed s' = executed s @ map (range_statement schema pre \<circ> snd) ws \<and> k' = k + int (length ws)
   | Returned err (k', s') \<Rightarrow> (\<exists>ts. ts \<noteq> [] \<and> prefix ts (map snd ws) \<and>
       executed s' = executed s @ map (range_statement schema pre) ts)"
proof (induction ws arbitrary: k s)
  case (Cons w ws)
  obtain i t where w: "w = (i, t)" by fastforce
  obtain err s1 where e: "Exec srv (range_statement schema pre t) s = (err, s1)" by fastforce
  note e' = e [unfolded range_statement_def] and x = Exec_result [OF e]
  show ?case
  proof (cases err)
    case None
    then have st: "range_body srv schema pre i t (k, s) = Running (k + 1, s1)"
      using e' by (simp add: range_body_def Let_def)
    show ?thesis
    proof (cases "run_windows (range_body srv schema pre) ws (k + 1, s1)")
      case (Running q)
      then show ?thesis using Cons.IH [where k = "k + 1" and s = s1] st x by (cases q) (simp add: w)
    next
      case (Returned err' q)
      then obtain ts where "ts \<noteq> []" "prefix ts (map snd ws)"
        "executed (snd q) = executed s1 @ map (range_statement schema pre) ts"
        using Cons.IH [where k = "k + 1" and s = s1] by (cases q) auto
      then have "executed (snd q) = executed s @ map (range_statement schema pre) (t # ts)" "prefix (t # ts) (map snd (w # ws))"
        using x by (simp_all add: w)
      then show ?thesis using Returned st by (cases q) (auto simp: w intro!: exI [of _ "t # ts"])
    qed
  next
    case (Some er)
    then show ?thesis using e' x by (auto simp: w range_body_def Let_def intro!: exI [of _ "[t]"])
  qed
qed simp

lemma createPartitionRange_result:
  obtains (refused) err where "createPartitionRange srv now schema pre start s = Some (Some err, s)"
      "Truncate (now + 13 * Hour) Hour \<le> Truncate start Hour"
  | (failed) err s' ts where "createPartitionRange srv now schema pre start s = Some (Some err, s')"
      "prefix ts (windows Hour (Truncate start Hour) (Truncate (now + 13 * Hour) Hour))"
      "executed s' = executed s @ map (range_statement schema pre) ts"
  | (created) s' where "createPartitionRange srv now schema pre start s = Some (None, s')"
      "executed s' = executed s @ map (range_statement schema pre)
         (windows Hour (Truncate start Hour) (Truncate (now + 13 * Hour) Hour))"
proof (cases "Truncate start Hour < Truncate (now + 13 * Hour) Hour")
  case False
  then show thesis by (intro refused) (simp_all add: createPartitionRange_def Let_def)
next
  case True
  let ?ls = "windows Hour (Truncate start Hour) (Truncate (now + 13 * Hour) Hour)"
  let ?run = "run_windows (range_body srv schema pre) (enumerate 0 ?ls) (0, s)"
  have l: "range_loop Hour (Truncate (now + 13 * Hour) Hour) (range_body srv schema pre) 0 (Truncate start Hour) (0, s) = Some ?run"
    by (simp add: range_loop_windows)
  note r = run_range [where srv = srv and schema = schema and pre = pre and ws = "enumerate 0 ?ls" and k = 0 and s = s]
  show thesis
  proof (cases ?run)
    case (Running q)
    obtain k s1 where q: "q = (k, s1)" by fastforce
    have "map (range_statement schema pre \<circ> snd) (enumerate 0 ?ls) = map (range_statement schema pre) ?ls"
      by (simp only: map_map [symmetric] map_snd_enumerate)
    then have x: "executed s1 = executed s @ map (range_statement schema pre) ?ls" using r Running q by simp
    obtain p where "createPartitionRange srv now schema pre start s = Some (None, print p s1)"
      using l True Running q by (simp add: createPartitionRange_def Let_def)
    then show thesis by (rule created) (simp add: x)
  next
    case (Returned err q)
    then obtain ts where "prefix ts ?ls" "executed (snd q) = executed s @ map (range_statement schema pre) ts"
      using r by (cases q) auto
    moreover have "createPartitionRange srv now schema pre start s = Some (Some err, snd q)"
      using l Returned True by (cases q) (simp add: createPartitionRange_def Let_def)
    ultimately show thesis by (intro failed)
  qed
qed


section \<open>A complete setup\<close>

definition setup_scripts :: "(string \<Rightarrow> string) \<Rightarrow> create_args \<Rightarrow> statement list" where
  "setup_scripts content a =
     map (\<lambda>n. Script (Replace (setup_replacer a) (content n)))
       (filter (\<lambda>n. \<not> skipped (a_skipPublication a \<or> a_replica a) (a_replica a) n) migration_names)"

definition initial_statements :: "gotime \<Rightarrow> create_args \<Rightarrow> statement list" where
  "initial_statements now a =
     [range_statement (a_schema a) (a_prefix a) (Truncate now Hour),
      InsertMeta (a_schema a) (a_prefix a) (setup_partition_name (a_prefix a) (Truncate now Hour))
        (Truncate now Hour) (Truncate now Hour + Hour)]"

definition setup_statements :: "gotime \<Rightarrow> create_args \<Rightarrow> statement list" where
  "setup_statements now a =
     (if \<not> a_replica a then initial_statements now a
      else if IsZero (a_partitionsStart a) then []
      else map (range_statement (a_schema a) (a_prefix a))
             (windows Hour (Truncate (a_partitionsStart a) Hour) (Truncate (now + 13 * Hour) Hour)))"

lemma create_initial_None:
  assumes "create_initial srv now schema pre s = (None, s')"
  obtains db2 where "srv_exec srv (range_statement schema pre (Truncate now Hour)) (server_db s) = (None, db2)"
    "srv_exec srv (InsertMeta schema pre (setup_partition_name pre (Truncate now Hour)) (Truncate now Hour)
       (Truncate now Hour + Hour)) db2 = (None, server_db s')"
    "executed s' = executed s @ [range_statement schema pre (Truncate now Hour),
       InsertMeta schema pre (setup_partition_name pre (Truncate now Hour)) (Truncate now Hour) (Truncate now Hour + Hour)]"
proof -
  let ?h = "Truncate now Hour"
  let ?i = "InsertMeta schema pre (setup_partition_name pre ?h) ?h (?h + Hour)"
  from assms obtain p s2 where e: "Exec srv (range_statement schema pre ?h) (print p s) = (None, s2)"
    "Exec srv ?i s2 = (None, s')"
    by (auto simp: create_initial_def range_statement_def Let_def split: prod.splits option.splits)
  from Exec_result [OF e(1)] Exec_result [OF e(2)] show thesis
    by (intro that [of "server_db s2"]) (simp_all only: print_frame append.simps append_assoc)
qed

text \<open>What a successful \<open>create\<close> has sent to the server: the migration files that were not skipped,
  in order, then the partitions.\<close>

lemma runCreate_None_cases:
  assumes "runCreate srv (ExportedMigrationFS content) now a s = Some (None, s')"
  obtains s1 s2 where
    "checkPrivileges srv (a_schema a) (a_skipPublication a \<or> a_replica a) (a_replica a) s = (None, s1)"
    "run_files srv (setup_replacer a) (a_skipPublication a \<or> a_replica a) (a_replica a) (migration_files content) s1 = (None, s2)"
    "executed s2 = executed s @ setup_scripts content a"
    "a_replica a \<Longrightarrow> IsZero (a_partitionsStart a) \<Longrightarrow> s' = s2"
    "a_replica a \<Longrightarrow> \<not> IsZero (a_partitionsStart a) \<Longrightarrow>
       createPartitionRange srv now (a_schema a) (a_prefix a) (a_partitionsStart a) s2 = Some (None, s')"
    "\<not> a_replica a \<Longrightarrow> create_initial srv now (a_schema a) (a_prefix a) s2 = (None, s')"
proof -
  let ?p = "a_skipPublication a \<or> a_replica a"
  from assms obtain s1 s2 where *: "checkPrivileges srv (a_schema a) ?p (a_replica a) s = (None, s1)"
    "run_files srv (setup_replacer a) ?p (a_replica a) (migration_files content) s1 = (None, s2)"
    and r: "(if a_replica a then
               (if \<not> IsZero (a_partitionsStart a)
                then createPartitionRange srv now (a_schema a) (a_prefix a) (a_partitionsStart a) s2
                else Some (None, s2))
             else Some (create_initial srv now (a_schema a) (a_prefix a) s2)) = Some (None, s')"
    by (auto simp: runCreate_def readSQLFiles_embedded Let_def split: prod.splits option.splits)
  have "executed s2 = executed s @ setup_scripts content a"
    using run_files_None [OF *(2)] checkPrivileges_frame [OF *(1)]
    by (simp add: setup_scripts_def migration_files_def filter_map comp_def)
  then show thesis using r by (intro that [OF *]) (auto split: if_splits)
qed

lemma runCreate_executes:
  assumes "runCreate srv (ExportedMigrationFS content) now a s = Some (None, s')"
  shows "executed s' = executed s @ setup_scripts content a @ setup_statements now a"
  using assms
proof (cases rule: runCreate_None_cases)
  case (1 s1 s2)
  show ?thesis
  proof (cases "a_replica a")
    case False
    then show ?thesis using 1(3) create_initial_None [OF 1(6)]
      by (auto simp: setup_statements_def initial_statements_def)
  next
    case replica: True
    show ?thesis
    proof (cases "IsZero (a_partitionsStart a)")
      case True
      then show ?thesis using 1(3,4) replica by (simp add: setup_statements_def)
    next
      case False
      from 1(5) [OF replica False] show ?thesis
        using 1(3) replica False
          createPartitionRange_result [of srv now "a_schema a" "a_prefix a" "a_partitionsStart a" s2]
        by (auto simp: setup_statements_def)
    qed
  qed
qed

lemma runCreate_unprivileged:
  assumes "fst (checkPrivileges srv (a_schema a) (a_skipPublication a \<or> a_replica a) (a_replica a) s) \<noteq> None"
  shows "\<exists>err s'. runCreate srv fs now a s = Some (Some err, s') \<and> executed s' = executed s \<and> server_db s' = server_db s"
proof -
  obtain err s1 where "checkPrivileges srv (a_schema a) (a_skipPublication a \<or> a_replica a) (a_replica a) s = (Some err, s1)"
    using assms by (cases "checkPrivileges srv (a_schema a) (a_skipPublication a \<or> a_replica a) (a_replica a) s") auto
  then show ?thesis using checkPrivileges_frame [of srv "a_schema a" _ "a_replica a" s "Some err" s1]
    by (auto simp: runCreate_def Let_def)
qed


section \<open>The initial partition and the driver\<close>

text \<open>What the tool relies on of the server, for the statements that touch partitions: a statement
  that succeeds has the effect of its SQL on the partition tables, and a migration file leaves
  existing partitions alone.\<close>

definition partition_server :: "(string \<Rightarrow> gotime option) \<Rightarrow> pdb server \<Rightarrow> bool" where
  "partition_server pg_in srv \<longleftrightarrow>
     (\<forall>schema name pre l u db db'. srv_exec srv (CreatePartition schema name pre l u) db = (None, db') \<longrightarrow>
        sql_create_partition pg_in name l u db = Inr db') \<and>
     (\<forall>schema pre name l u db db'. srv_exec srv (InsertMeta schema pre name l u) db = (None, db') \<longrightarrow>
        db' = sql_insert_meta name l u db) \<and>
     (\<forall>text db db'. srv_exec srv (Script text) db = (None, db') \<longrightarrow> db' = db)"

lemma run_files_db:
  assumes "\<And>text db db'. srv_exec srv (Script text) db = (None, db') \<Longrightarrow> db' = db"
  shows "run_files srv replacer skipPub skipSlot files s = (None, s') \<Longrightarrow> server_db s' = server_db s"
proof (induction files arbitrary: s)
  case (Cons f fs)
  show ?case
  proof (cases "skipped skipPub skipSlot (f_name f)")
    case True
    then have "\<exists>p. run_files srv replacer skipPub skipSlot (f # fs) s = run_files srv replacer skipPub skipSlot fs (print p s)"
      by (auto simp: skipped_def)
    then show ?thesis using Cons by auto
  next
    case False
    from False Cons.prems obtain s1 where
      s1: "Exec srv (Script (Replace replacer (f_content f))) (print (Stdout ''executing %s...'' [FStr (f_name f)]) s) = (None, s1)"
      "run_files srv replacer skipPub skipSlot fs s1 = (None, s')"
      by (auto simp: skipped_def split: prod.splits option.splits)
    then show ?thesis using Cons.IH [OF s1(2)] Exec_result [OF s1(1)] assms by auto
  qed
qed simp

lemma runCreate_initial_db:
  assumes srv: "partition_server pg_in srv" and a: "\<not> a_replica a"
    and run: "runCreate srv (ExportedMigrationFS content) now a s = Some (None, s')"
  obtains db2 where
    "sql_create_partition pg_in (setup_partition_name (a_prefix a) (Truncate now Hour))
       (Format (Truncate now Hour) RFC3339) (Format (Truncate now Hour + Hour) RFC3339) (server_db s) = Inr db2"
    "server_db s' = sql_insert_meta (setup_partition_name (a_prefix a) (Truncate now Hour))
       (Truncate now Hour) (Truncate now Hour + Hour) db2"
  using run
proof (cases rule: runCreate_None_cases)
  case (1 s1 s2)
  have "server_db s2 = server_db s"
    using run_files_db [OF _ 1(2)] checkPrivileges_frame [OF 1(1)] srv by (auto simp: partition_server_def)
  with create_initial_None [OF 1(6) [OF a]] srv show thesis
    unfolding partition_server_def range_statement_def by (metis that)
qed

lemma setup_name: "TablePrefix (cfg d) = pre \<Longrightarrow> setup_partition_name pre l = partitionName d l"
  by (simp add: setup_partition_name_def partitionName_def)

lemma hour_ok:
  assumes "PartitionInterval (cfg d) = Hour"
  shows "interval_ok d"
proof -
  have "(Minute :: int) dvd Hour" by (rule dvdI [of _ _ 60]) simp
  then show ?thesis using assms by (simp add: interval_ok_def)
qed

lemma hour_lower_ok:
  assumes "PartitionInterval (cfg d) = Hour" "0 \<le> now" "modern_time (now + Hour)"
  shows "lower_ok d (Truncate now Hour)"
proof -
  have h: "(0 :: int) < Hour" by simp
  note b = Truncate_bounds [OF h, of now] dvd_Truncate [OF h, of now]
  have "0 \<le> Truncate now Hour"
    using assms(2) by (simp add: Truncate_def zmod_le_nonneg_dividend)
  then have "modern_time (Truncate now Hour)" "modern_time (Truncate now Hour + Hour)"
    using b assms(3) by (auto simp: modern_time_def)
  then show ?thesis using b assms(1) by (simp add: lower_ok_def modern_four_digit)
qed

text \<open>After a successful \<open>create\<close> the database is one the driver's maintenance works on, with the
  current hour covered, when the driver uses the default interval.\<close>

lemma runCreate_partitions:
  assumes srv: "partition_server pg_in srv" and r: "reads_RFC3339 pg_in" and a: "\<not> a_replica a"
    and d: "PartitionInterval (cfg d) = Hour" "TablePrefix (cfg d) = a_prefix a"
    and now: "0 \<le> now" "modern_time (now + Hour)" and ok: "pdb_ok d (server_db s)"
    and run: "runCreate srv (ExportedMigrationFS content) now a s = Some (None, s')"
  shows "pdb_ok d (server_db s') \<and> registered d (Truncate now Hour) (server_db s') \<and>
    registered_le (server_db s) (server_db s')"
proof -
  let ?h = "Truncate now Hour" and ?db = "server_db s"
  note i = hour_ok [OF d(1)] and l = hour_lower_ok [OF d(1) now]
  from runCreate_initial_db [OF srv a run] obtain db2 where
    c: "sql_create_partition pg_in (partitionName d ?h) (Format ?h RFC3339) (Format (?h + Hour) RFC3339) ?db = Inr db2"
    and m: "server_db s' = sql_insert_meta (partitionName d ?h) ?h (?h + Hour) db2"
    by (metis setup_name [OF d(2)])
  show ?thesis
  proof (cases "partitionName d ?h \<in> fst ` set (meta ?db)")
    case True
    then have "db2 = ?db" using c pdb_ok_has_table [OF ok] by (simp add: sql_create_partition_def)
    then have "server_db s' = ?db" using m True by (simp add: sql_insert_meta_def)
    then show ?thesis using ok registered_by_name [OF i ok l True] by (simp add: registered_le_def)
  next
    case False
    let ?en = "\<lparr>pe_query = None, pe_begin = None, pe_create = None, pe_insert = None, pe_commit = PCommitOk\<rparr>"
    have "create_and_register pg_in ?en (partitionName d ?h) ?h (?h + PartitionInterval (cfg d)) ?db = Inr (server_db s')"
      using c m d by (simp add: create_and_register_def)
    from create_and_register_result [OF i ok l r False this] show ?thesis
      by (auto simp: registered_def registered_le_def)
  qed
qed


section \<open>A driver with a longer interval\<close>

text \<open>A run that meets an instant whose body fails in every state the invariant allows does not
  complete.\<close>

lemma run_windows_blocked:
  assumes "(i, t) \<in> set ws" "J s"
    and "\<And>j s'. J s' \<Longrightarrow> \<exists>err s''. body j t s' = Returned err s''"
    and "\<And>j t' s' s''. t' \<noteq> t \<Longrightarrow> J s' \<Longrightarrow> body j t' s' = Running s'' \<Longrightarrow> J s''"
  shows "\<exists>err s'. run_windows body ws s = Returned err s'"
  using assms(1,2)
proof (induction ws arbitrary: s)
  case (Cons w ws)
  obtain j t' where w: "w = (j, t')" by fastforce
  show ?case
  proof (cases "t' = t")
    case True
    then show ?thesis using assms(3) [OF Cons.prems(2), of j] w by auto
  next
    case False
    then show ?thesis using Cons assms(4) [OF False Cons.prems(2), of j] w
      by (cases "body j t' s") auto
  qed
qed simp

lemma create_and_register_overlap:
  assumes "reads_RFC3339 pg_in" "interval_ok d" "lower_ok d l"
    and "(n, Attached l' u') \<in> set (tables db)" "l < u'" "l' < l + PartitionInterval (cfg d)"
    and "\<not> has_table (partitionName d l) db"
  shows "\<exists>err. create_and_register pg_in en (partitionName d l) l (l + PartitionInterval (cfg d)) db = Inl err"
proof -
  let ?i = "PartitionInterval (cfg d)"
  have sec: "Second dvd l" "Second dvd l + ?i"
    using interval_ok_second [OF assms(2)] assms(3) by (auto simp: lower_ok_def intro: dvd_trans)
  then have rd: "pg_in (Format l RFC3339) = Some l" "pg_in (Format (l + ?i) RFC3339) = Some (l + ?i)"
    using assms(1,3) by (simp_all add: reads_RFC3339_def lower_ok_def Truncate_dvd)
  have "list_ex (\<lambda>(n, t). overlaps l (l + ?i) t) (tables db)"
    using assms(4-6) by (force simp: list_ex_iff overlaps_def)
  then show ?thesis
    using rd assms(7) by (auto simp: create_and_register_def sql_create_partition_def split: option.splits)
qed

lemma create_and_register_keeps:
  assumes "create_and_register pg_in en name l u db = Inr db'"
  shows "set (tables db) \<subseteq> set (tables db') \<and> fst ` set (tables db') \<subseteq> insert name (fst ` set (tables db)) \<and>
    fst ` set (meta db') \<subseteq> insert name (fst ` set (meta db))"
  using assms
  by (auto simp: create_and_register_def sql_create_partition_def sql_insert_meta_def
      split: option.splits sum.splits if_splits)

text \<open>An attached partition that lies strictly inside a window of the driver's grid, and starts
  later, blocks the creation of that window's partition for good.\<close>

lemma createPartitions_blocked:
  assumes d: "interval_ok d" and r: "reads_RFC3339 pg_in" and w: "window_modern d now"
    and t: "t \<in> set (windows (PartitionInterval (cfg d)) (window_start d now) (window_end d now))"
    and p: "(n, Attached l u) \<in> set (tables (pdatabase s))" "t < l" "l < u" "u \<le> t + PartitionInterval (cfg d)"
    and fresh: "\<not> has_table (partitionName d t) (pdatabase s)" "partitionName d t \<notin> fst ` set (meta (pdatabase s))"
  shows "\<exists>err s'. createPartitions pg_in ens now d s = Some (Returned err s')"
proof -
  let ?i = "PartitionInterval (cfg d)"
  let ?ls = "windows ?i (window_start d now) (window_end d now)"
  define J where "J s' \<longleftrightarrow> (n, Attached l u) \<in> set (tables (pdatabase s')) \<and>
    \<not> has_table (partitionName d t) (pdatabase s') \<and> partitionName d t \<notin> fst ` set (meta (pdatabase s'))" for s' :: part_state
  have i: "0 < ?i" using d by (simp add: interval_ok_def)
  have tok: "lower_ok d t" by (rule window_lower_ok [OF d w t])
  have ref: "\<exists>err s''. create_body pg_in ens d j t s' = Returned err s''" if "J s'" for j s'
  proof -
    from that create_and_register_overlap [OF r d tok, of n l u "pdatabase s'" "ens j"] p i obtain err where
      "create_and_register pg_in (ens j) (partitionName d t) t (t + ?i) (pdatabase s') = Inl err"
      by (auto simp: J_def)
    then show ?thesis using that by (auto simp: create_body_def Let_def J_def split: option.splits)
  qed
  obtain j where j: "(j, t) \<in> set (enumerate 0 ?ls)"
    using t by (metis in_set_conv_nth length_enumerate nth_enumerate_eq nth_mem add_0)
  let ?body = "\<lambda>j t' s'. if t' \<in> set ?ls then create_body pg_in ens d j t' s' else Returned Canceled s'"
  have "\<exists>err s'. run_windows ?body (enumerate 0 ?ls) s = Returned err s'"
  proof (rule run_windows_blocked [OF j, where J = J])
    show "J s" using p(1) fresh by (simp add: J_def)
    show "\<exists>err s''. ?body j' t s' = Returned err s''" if "J s'" for j' s' using ref [OF that] t by simp
    fix j' t' s' s''
    assume ne: "t' \<noteq> t" and J: "J s'" and b: "?body j' t' s' = Running s''"
    then have t': "t' \<in> set ?ls" and b': "create_body pg_in ens d j' t' s' = Running s''" by (auto split: if_splits)
    have "partitionName d t' \<noteq> partitionName d t" using name_eq_iff [OF d window_lower_ok [OF d w t'] tok] ne by simp
    with J b' show "J s''"
      by (cases rule: create_body_cases [of pg_in ens d j' t' s'])
        (auto simp: J_def has_table_def dest!: create_and_register_keeps)
  qed
  moreover have "run_windows ?body (enumerate k xs) s = run_windows (create_body pg_in ens d) (enumerate k xs) s"
    if "set xs \<subseteq> set ?ls" for k xs s
    using that by (induction xs arbitrary: k s) (auto split: loop_result.splits)
  ultimately show ?thesis by (simp add: createPartitions_def range_loop_windows [OF i])
qed


text \<open>So a driver whose interval is a larger multiple of an hour cannot create the partition of the
  current interval on a fresh setup, unless the setup ran in the first hour of that interval.\<close>

lemma setup_blocks:
  assumes srv: "partition_server pg_in srv" and r: "reads_RFC3339 pg_in" and a: "\<not> a_replica a"
    and fresh: "server_db s = \<lparr>tables = [], meta = []\<rparr>"
    and run: "runCreate srv (ExportedMigrationFS content) now a s = Some (None, s')"
    and d: "0 < PartitionInterval (cfg d)" "Hour dvd PartitionInterval (cfg d)" "0 < PartitionLookAhead (cfg d)"
      "TablePrefix (cfg d) = a_prefix a"
    and w: "window_modern d now" and inside: "Truncate now (PartitionInterval (cfg d)) < Truncate now Hour"
  shows "\<exists>err s''. createPartitions pg_in ens now d \<lparr>pdatabase = server_db s', pmetrics = ms\<rparr> = Some (Returned err s'')"
proof -
  let ?i = "PartitionInterval (cfg d)" and ?h = "Truncate now Hour"
  let ?t = "Truncate now ?i"
  have mh: "(Minute :: int) dvd Hour" by (rule dvdI [of _ _ 60]) simp
  have iok: "interval_ok d" using d(1,2) mh by (auto simp: interval_ok_def intro: dvd_trans)
  have hp: "(0 :: int) < Hour" by simp
  have th: "?t \<le> now" "now < ?t + ?i" "?i dvd ?t" using Truncate_bounds [OF d(1), of now] dvd_Truncate [OF d(1), of now] by simp_all
  have hh: "?h \<le> now" "now < ?h + Hour" "Hour dvd ?h" using Truncate_bounds [OF hp, of now] dvd_Truncate [OF hp, of now] by simp_all
  have ws: "window_start d now = ?t - ?i" by (simp add: window_start_def Truncate_def)
  have "?t = window_start d now + int 1 * ?i" "?t < window_end d now" using ws th d(3) by (simp_all add: window_end_def)
  then have tw: "?t \<in> set (windows ?i (window_start d now) (window_end d now))"
    unfolding set_windows [OF d(1)] by blast
  note tok = window_lower_ok [OF iok w tw]
  have "?h + Hour \<le> ?t + ?i"
  proof (rule ccontr)
    assume "\<not> ?h + Hour \<le> ?t + ?i"
    then have "?t + ?i = ?h" using hh th d(2) by (intro aligned_disjoint [of Hour]) (auto intro: dvd_trans)
    then show False using hh(1) th(2) by simp
  qed
  have "modern_time (now + Hour)" "0 \<le> now"
  proof -
    have "Hour \<le> ?i" using d(1,2) by (rule zdvd_imp_le [rotated])
    then show "modern_time (now + Hour)" "0 \<le> now"
      using w d(1,3) by (auto simp: window_modern_def modern_time_def)
  qed
  then have h4: "four_digit_year ?h" "four_digit_year (?h + Hour)"
    using hour_lower_ok [of "d\<lparr>cfg := (cfg d)\<lparr>PartitionInterval := Hour\<rparr>\<rparr>" now] by (simp_all add: lower_ok_def)
  have sec: "(Second :: int) dvd Hour" by (rule dvdI [of _ _ 3600]) simp
  have rd: "pg_in (Format ?h RFC3339) = Some ?h" "pg_in (Format (?h + Hour) RFC3339) = Some (?h + Hour)"
    using r h4 hh(3) sec by (simp_all add: reads_RFC3339_def Truncate_dvd dvd_trans [OF sec])
  let ?n = "partitionName d ?h"
  from runCreate_initial_db [OF srv a run] obtain db2 where
    "sql_create_partition pg_in ?n (Format ?h RFC3339) (Format (?h + Hour) RFC3339) \<lparr>tables = [], meta = []\<rparr> = Inr db2"
    "server_db s' = sql_insert_meta ?n ?h (?h + Hour) db2"
    by (metis setup_name [OF d(4)] fresh)
  then have db: "server_db s' = \<lparr>tables = [(?n, Attached ?h (?h + Hour))], meta = [(?n, ?h, ?h + Hour)]\<rparr>"
    using rd by (auto simp: sql_create_partition_def sql_insert_meta_def has_table_def)
  have ne: "?n \<noteq> partitionName d ?t"
    using partition_names.enc_inj [of ?h ?t d] h4(1) dvd_trans [OF mh hh(3)] tok lower_ok_minute [OF iok tok] inside
    by (simp add: lower_ok_def)
  show ?thesis
    by (rule createPartitions_blocked [OF iok r w tw, of ?n ?h "?h + Hour"])
      (use db inside \<open>?h + Hour \<le> ?t + ?i\<close> ne in \<open>simp_all add: has_table_def\<close>)
qed

section \<open>Teardown\<close>

lemma drop_tables_result:
  assumes "drop_tables srv ts s = (err, s')"
  shows "\<exists>ts'. prefix ts' ts \<and> executed s' = executed s @ map DropTable ts' \<and> (err = None \<longrightarrow> ts' = ts)"
  using assms
proof (induction ts arbitrary: s)
  case (Cons t ts)
  obtain e s1 where e: "Exec srv (DropTable t) (print (Stdout ''dropping table %s...'' [FStr t]) s) = (e, s1)"
    by fastforce
  note x = Exec_result [OF e]
  show ?case
  proof (cases e)
    case None
    with e Cons.prems have "drop_tables srv ts s1 = (err, s')" by simp
    from Cons.IH [OF this] obtain ts' where "prefix ts' ts" "executed s' = executed s1 @ map DropTable ts'"
      "err = None \<longrightarrow> ts' = ts" by blast
    then show ?thesis using x by (intro exI [of _ "t # ts'"]) simp
  next
    case (Some er)
    with e Cons.prems x show ?thesis by (intro exI [of _ "[t]"]) auto
  qed
qed simp

lemma drop_tables_succeeds:
  assumes "\<And>t db. fst (srv_exec srv (DropTable t) db) = None"
  shows "fst (drop_tables srv ts s) = None"
proof (induction ts arbitrary: s)
  case (Cons t ts)
  let ?s = "print (Stdout ''dropping table %s...'' [FStr t]) s"
  have "fst (Exec srv (DropTable t) ?s) = None"
    using assms [of t "server_db ?s"] by (cases "srv_exec srv (DropTable t) (server_db ?s)") (simp add: Exec_def)
  then show ?case using Cons.IH by (cases "Exec srv (DropTable t) ?s") simp
qed simp

lemma runDestroy_result:
  assumes "runDestroy srv schema pre publication slot s = (err, s')"
  shows "\<exists>ts. prefix ts (destroyed_tables schema pre) \<and> (err = None \<longrightarrow> ts = destroyed_tables schema pre) \<and>
    executed s' = executed s @ [DropSlot slot, DropPublication publication] @ map DropTable ts"
proof -
  define s0 where "s0 = print (Stdout ''dropping replication slot %s...'' [FStr slot]) s"
  obtain e1 s1 where 1: "Exec srv (DropSlot slot) s0 = (e1, s1)" by fastforce
  define t0 where "t0 = print (Stdout ''dropping publication %s...'' [FStr publication]) s1"
  obtain e2 s2 where 2: "Exec srv (DropPublication publication) t0 = (e2, s2)" by fastforce
  have "drop_tables srv (destroyed_tables schema pre) s2 = (err, s')"
    using assms 1 2 by (simp add: runDestroy_def Let_def s0_def t0_def)
  from drop_tables_result [OF this] Exec_result [OF 1] Exec_result [OF 2] show ?thesis
    by (auto simp: s0_def t0_def)
qed

lemma destroyed_tables_driver:
  "Schema c = schema \<Longrightarrow> TablePrefix c = pre \<Longrightarrow>
   destroyed_tables schema pre = [jobsTable c, cursorTable c, partitionMetaTable c, dlqTable c]"
  by (simp add: destroyed_tables_def jobsTable_def cursorTable_def partitionMetaTable_def dlqTable_def)

section \<open>The command line\<close>

text \<open>The flags of a command line that may reach the database.\<close>

definition flags_allowed :: "string \<Rightarrow> flag_values \<Rightarrow> bool" where
  "flags_allowed cmd m \<longleftrightarrow>
     flag_string m ''conn-string'' \<noteq> '''' \<and>
     (flag_bool m ''replica'' \<longrightarrow> cmd = ''create'') \<and>
     (flag_string m ''create-partitions'' \<noteq> '''' \<longrightarrow> cmd = ''create'' \<and> flag_bool m ''replica'') \<and>
     (flag_bool m ''replica'' \<or> flag_string m ''publication'' \<noteq> '''' \<and> flag_string m ''slot'' \<noteq> '''')"

lemma check_flags_None: "check_flags cmd m = None \<longleftrightarrow> flags_allowed cmd m"
  unfolding check_flags_def flags_allowed_def Let_def by auto

lemma setup_main_cases:
  assumes "setup_main srv fs now Args s = Some (code, s')"
  obtains (idle) "executed s' = executed s"
  | (ran) m start where "2 \<le> length Args" "flag_Parse setup_flags (drop 2 Args) = Inr m"
      "flags_allowed (Args ! 1) m" "partitions_start m = Some start"
      "run_command srv fs now (Args ! 1) m start s = Some (code, s')"
proof (cases "2 \<le> length Args")
  case False
  then show thesis using assms by (intro idle) (auto simp: setup_main_def)
next
  case len: True
  show thesis
  proof (cases "flag_Parse setup_flags (drop 2 Args)")
    case (Inl e)
    then show thesis using assms len by (intro idle) (auto simp: setup_main_def Let_def split: flag_error.splits)
  next
    case (Inr m)
    show thesis
    proof (cases "check_flags (Args ! 1) m")
      case (Some messages)
      then show thesis using assms len Inr by (intro idle) (auto simp: setup_main_def Let_def)
    next
      case None
      then show thesis
        using assms len Inr check_flags_None [of "Args ! 1" m] ran [of m]
        by (cases "partitions_start m"; cases "srv_connect srv (flag_string m ''conn-string'')")
          (auto simp: setup_main_def Let_def intro: idle)
    qed
  qed
qed

end
