(* ===== verification/Pglg_Bench.thy ===== *)
theory Pglg_Bench
  imports Go_Flag Pglg_Dlq Pglg_Backoff
begin

text \<open>
  \<open>cmd/pglg-bench\<close>: the load generator (\<open>main.go\<close>) and the statistics of its report
  (\<open>stats.go\<close>). The database, the driver it starts and the clock are answers of the environment:
  one record per round of the sampling loop. Numbers computed in \<open>float64\<close> are rationals rounded
  by \<open>fl\<close>, as in the backoff. A report is the values that go into its format.
\<close>

section \<open>Flags and reset\<close>

record config =
  b_connString :: string
  b_schema :: string
  b_prefix :: string
  b_publication :: string
  b_slot :: string
  b_rate :: int
  b_duration :: duration
  b_submitLatency :: duration
  b_payloadSize :: int
  b_batchSize :: int

definition bench_flags :: flag_values where
  "bench_flags = map_of
     [(''conn-string'', VString ''host=127.0.0.1 port=15434 user=pglg password=pglg dbname=pglg sslmode=disable''),
      (''schema'', VString ''public''), (''prefix'', VString ''bench''), (''publication'', VString ''bench_pub''),
      (''slot'', VString ''bench_slot''), (''rate'', VInt 2000), (''duration'', VDuration (60 * Second)),
      (''submit-latency'', VDuration 0), (''payload-size'', VInt 256), (''batch-size'', VInt 100)]"

definition parseFlags :: "string list \<Rightarrow> flag_error + config" where
  "parseFlags args =
     (case flag_Parse bench_flags args of
        Inl e \<Rightarrow> Inl e
      | Inr m \<Rightarrow>
          Inr \<lparr>b_connString = flag_string m ''conn-string'', b_schema = flag_string m ''schema'',
            b_prefix = flag_string m ''prefix'', b_publication = flag_string m ''publication'',
            b_slot = flag_string m ''slot'', b_rate = flag_int m ''rate'',
            b_duration = flag_duration m ''duration'', b_submitLatency = flag_duration m ''submit-latency'',
            b_payloadSize = flag_int m ''payload-size'', b_batchSize = flag_int m ''batch-size''\<rparr>)"

text \<open>The configuration of the driver under test.\<close>

definition bench_driver_config :: "config \<Rightarrow> logger \<Rightarrow> Config" where
  "bench_driver_config c lg =
     zero_Config\<lparr>ConnString := b_connString c, SlotName := b_slot c, PublicationName := b_publication c,
       Schema := b_schema c, TablePrefix := b_prefix c, MaxBatchSize := b_batchSize c, Logger := Some lg\<rparr>"

text \<open>\<open>reset\<close>: the statements with their arguments and the error each is wrapped in. \<open>exec\<close> is the
  server's answer to a statement in a state of the database.\<close>

definition reset_statements :: "config \<Rightarrow> (string \<times> sql_arg list \<times> (go_error \<Rightarrow> go_error)) list" where
  "reset_statements c =
     [(''SELECT pg_drop_replication_slot(slot_name) FROM pg_replication_slots WHERE slot_name = $1'',
       [AText (b_slot c)], Wrapf ''drop slot: %w'' []),
      (''DROP PUBLICATION IF EXISTS '' @ b_publication c, [], Wrapf ''drop publication: %w'' [])] @
     map (\<lambda>suf. (''TRUNCATE '' @ b_schema c @ ''.'' @ b_prefix c @ suf, [],
                  Wrapf ''truncate %s%s: %w'' [FStr (b_prefix c), FStr suf]))
       [''_jobs'', ''_cursor'', ''_dlq''] @
     [(''CREATE PUBLICATION '' @ b_publication c @ '' FOR TABLE '' @ b_schema c @ ''.'' @ b_prefix c @
         ''_jobs WITH (publish = '' @ CHR 0x27 # ''insert'' @ CHR 0x27 # '')'', [], Wrapf ''create publication: %w'' []),
      (''SELECT pg_create_logical_replication_slot($1, '' @ CHR 0x27 # ''pgoutput'' @ CHR 0x27 # '')'',
       [AText (b_slot c)], Wrapf ''create slot: %w'' [])]"

fun run_statements :: "(string \<Rightarrow> sql_arg list \<Rightarrow> 'db \<Rightarrow> go_error option \<times> 'db)
    \<Rightarrow> (string \<times> sql_arg list \<times> (go_error \<Rightarrow> go_error)) list \<Rightarrow> 'db \<Rightarrow> go_error option \<times> 'db" where
  "run_statements exec [] db = (None, db)"
| "run_statements exec ((query, args, wrap) # sts) db =
     (case exec query args db of
        (Some err, db') \<Rightarrow> (Some (wrap err), db')
      | (None, db') \<Rightarrow> run_statements exec sts db')"

definition bench_reset :: "(string \<Rightarrow> sql_arg list \<Rightarrow> 'db \<Rightarrow> go_error option \<times> 'db) \<Rightarrow> config \<Rightarrow> 'db
    \<Rightarrow> go_error option \<times> 'db" where
  "bench_reset exec c db = run_statements exec (reset_statements c) db"

section \<open>Load\<close>

text \<open>The rows of one \<open>CopyFrom\<close>; None when \<open>make\<close> panics on a negative size.\<close>

definition job_rows :: "config \<Rightarrow> int \<Rightarrow> sql_arg list list option" where
  "job_rows c n =
     (if b_payloadSize c < 0 \<or> n < 0 then None
      else Some (replicate (nat n)
             [AText ''bench'', AText ''bench_job'', ABytes (replicate (nat (b_payloadSize c)) (CHR 0x00)),
              ANull, AText '''', ABool False]))"

definition insertJobs :: "(string list \<Rightarrow> string list \<Rightarrow> sql_arg list list \<Rightarrow> go_error option) \<Rightarrow> config \<Rightarrow> int
    \<Rightarrow> go_error option option" where
  "insertJobs copyFrom c n =
     map_option (copyFrom [b_schema c, b_prefix c @ ''_jobs'']
       [''producer_id'', ''job_type'', ''payload'', ''run_at'', ''trace_id'', ''shadow'']) (job_rows c n)"

definition slotLag :: "(string \<Rightarrow> string \<Rightarrow> go_error + int) \<Rightarrow> string \<Rightarrow> go_error + int" where
  "slotLag query slot =
     query ''SELECT pg_wal_lsn_diff(pg_current_wal_lsn(), confirmed_flush_lsn)::bigint FROM pg_replication_slots WHERE slot_name = $1'' slot"

text \<open>One round of the sampling loop: the clock at its head, what the \<open>select\<close> received, and the
  answers of the database.\<close>

datatype select_event = DriverExited "go_error option" | Ticked

record steady_env =
  sv_now :: gotime
  sv_event :: select_event
  sv_copy :: "string list \<Rightarrow> string list \<Rightarrow> sql_arg list list \<Rightarrow> go_error option"
  sv_lag :: "string \<Rightarrow> string \<Rightarrow> go_error + int"

record steadyResult =
  achievedRate :: rat
  samples :: "int list"

datatype steady =
    Sampling int "int list"        \<comment> \<open>still running\<close>
  | Deadline int "int list"        \<comment> \<open>the loop ended: rows inserted and samples\<close>
  | SteadyFailed go_error
  | SteadyPanic

definition per_tick :: "config \<Rightarrow> int" where
  "per_tick c = (let n = go_quot (b_rate c) 10 in if n < 1 then 1 else n)"

fun steady_loop :: "config \<Rightarrow> gotime \<Rightarrow> steady_env list \<Rightarrow> int \<Rightarrow> int list \<Rightarrow> steady" where
  "steady_loop c deadline [] inserted ss = Sampling inserted ss"
| "steady_loop c deadline (en # ens) inserted ss =
     (if \<not> sv_now en < deadline then Deadline inserted ss
      else case sv_event en of
        DriverExited err \<Rightarrow>
          SteadyFailed (case err of None \<Rightarrow> Errorf ''driver exited: %!w(<nil>)'' []
                        | Some e \<Rightarrow> Wrapf ''driver exited: %w'' [] e)
      | Ticked \<Rightarrow>
          (case insertJobs (sv_copy en) c (per_tick c) of
             None \<Rightarrow> SteadyPanic
           | Some (Some err) \<Rightarrow> SteadyFailed (Wrapf ''insert: %w'' [] err)
           | Some None \<Rightarrow>
               steady_loop c deadline ens (wrap64 (inserted + per_tick c))
                 (case slotLag (sv_lag en) (b_slot c) of Inl err \<Rightarrow> ss | Inr lag \<Rightarrow> ss @ [lag])))"

text \<open>\<open>took\<close> is the time since the start when the loop has ended. None while the loop runs or when
  the process panics.\<close>

definition runSteady :: "(rat \<Rightarrow> rat) \<Rightarrow> config \<Rightarrow> gotime \<Rightarrow> steady_env list \<Rightarrow> duration
    \<Rightarrow> (go_error + steadyResult) option" where
  "runSteady fl c start ens took =
     (case steady_loop c (start + b_duration c) ens 0 [] of
        Sampling inserted ss \<Rightarrow> None
      | SteadyPanic \<Rightarrow> None
      | SteadyFailed err \<Rightarrow> Some (Inl err)
      | Deadline inserted ss \<Rightarrow>
          if ss = [] then Some (Inl (Errorf ''no slot-lag samples collected'' []))
          else Some (Inr \<lparr>achievedRate = fl (fl (of_int inserted) / fl (seconds_of took)), samples = ss\<rparr>))"

text \<open>The stub the driver submits to; \<open>ctx_err\<close> is the error of a context that ends during the
  sleep.\<close>

definition makeSubmit :: "duration \<Rightarrow> go_error option \<Rightarrow> Job list \<Rightarrow> go_error + SubmitResult list" where
  "makeSubmit latency ctx_err jobs =
     (case (if latency > 0 then ctx_err else None) of
        Some err \<Rightarrow> Inl err
      | None \<Rightarrow> Inr (map (\<lambda>j. \<lparr>r_CorrelationID = CorrelationID j, r_Err = '''', r_Reason = '''', r_JobID = ''ok''\<rparr>) jobs))"

section \<open>Statistics\<close>

definition percentile :: "(rat \<Rightarrow> rat) \<Rightarrow> int list \<Rightarrow> rat \<Rightarrow> int" where
  "percentile fl ss p =
     (if ss = [] then 0
      else
        (let sorted_ss = sort ss;
             n = int (length sorted_ss);
             rank0 = \<lceil>fl (fl (p / 100) * fl (of_int n))\<rceil> - 1;
             rank1 = (if rank0 < 0 then 0 else rank0);
             rank2 = (if rank1 \<ge> n then n - 1 else rank1)
         in sorted_ss ! nat rank2))"

fun max_loop :: "int \<Rightarrow> int list \<Rightarrow> int" where
  "max_loop m [] = m"
| "max_loop m (s # ss) = max_loop (if s > m then s else m) ss"

definition maxInt64 :: "int list \<Rightarrow> int" where
  "maxInt64 ss = max_loop 0 ss"

text \<open>The loop of \<open>humanizeBytes\<close>: the divisor and the exponent.\<close>

function human_loop :: "int \<Rightarrow> int \<Rightarrow> nat \<Rightarrow> int \<times> nat" where
  "human_loop n dv e = (if n \<ge> 1024 then human_loop (go_quot n 1024) (wrap64 (dv * 1024)) (e + 1) else (dv, e))"
  by pat_completeness auto
termination
  by (relation "measure (\<lambda>(n, dv, e). nat n)") auto

declare human_loop.simps [simp del]

datatype size_text =
    PlainBytes int            \<comment> \<open>\<open>%dB\<close>\<close>
  | ScaledBytes rat char      \<comment> \<open>\<open>%.1f%cB\<close>\<close>

definition humanizeBytes :: "(rat \<Rightarrow> rat) \<Rightarrow> int \<Rightarrow> size_text option" where
  "humanizeBytes fl b =
     (if b < 1024 then Some (PlainBytes b)
      else case human_loop (go_quot b 1024) 1024 0 of
        (dv, e) \<Rightarrow>
          if e < length ''KMGTPE''
          then Some (ScaledBytes (fl (fl (of_int b) / fl (of_int dv))) (''KMGTPE'' ! e))
          else None)"

definition bounded :: "(rat \<Rightarrow> rat) \<Rightarrow> int list \<Rightarrow> bool" where
  "bounded fl ss =
     (if length ss < 2 then True
      else
        (let med = percentile fl ss 50;
             final = last ss
         in if med = 0 then final = 0 else final \<le> wrap64 (2 * med)))"

text \<open>The line \<open>main\<close> prints: the rate, the three lags and the verdict, whose mark is in UTF-8.\<close>

definition bench_report :: "(rat \<Rightarrow> rat) \<Rightarrow> steadyResult \<Rightarrow> rat \<times> size_text option list \<times> string" where
  "bench_report fl r =
     (achievedRate r,
      [humanizeBytes fl (percentile fl (samples r) 50), humanizeBytes fl (percentile fl (samples r) 99),
       humanizeBytes fl (maxInt64 (samples r))],
      if bounded fl (samples r) then ''bounded '' @ [CHR 0xE2, CHR 0x9C, CHR 0x93]
      else ''GROWING '' @ [CHR 0xE2, CHR 0x9C, CHR 0x97])"


section \<open>Order statistics\<close>

lemma length_filter_sort: "length (filter P (sort xs)) = length (filter P xs)"
  by (metis mset_filter mset_sort size_mset)

lemma sorted_count_le:
  assumes "sorted xs" "k < length xs"
  shows "k + 1 \<le> length (filter (\<lambda>x. x \<le> xs ! k) xs)"
proof -
  have "filter (\<lambda>x. x \<le> xs ! k) (take (k + 1) xs) = take (k + 1) xs"
    using assms by (auto simp: filter_id_conv in_set_conv_nth sorted_nth_mono)
  then have "length (filter (\<lambda>x. x \<le> xs ! k) (take (k + 1) xs @ drop (k + 1) xs)) \<ge> k + 1"
    using assms by (simp only: filter_append length_append) simp
  then show ?thesis by (simp only: append_take_drop_id)
qed

lemma sorted_count_less:
  assumes "sorted xs" "k < length xs"
  shows "length (filter (\<lambda>x. x < xs ! k) xs) \<le> k"
proof -
  have "filter (\<lambda>x. x < xs ! k) (drop k xs) = []"
    using assms by (auto simp: filter_empty_conv in_set_conv_nth not_less sorted_nth_mono)
  then have "length (filter (\<lambda>x. x < xs ! k) (take k xs @ drop k xs)) \<le> k"
    using length_filter_le [of "\<lambda>x. x < xs ! k" "take k xs"] by (simp only: filter_append length_append) simp
  then show ?thesis by (simp only: append_take_drop_id)
qed

text \<open>The index \<open>percentile\<close> reads, and that it is one of the list.\<close>

definition rank :: "(rat \<Rightarrow> rat) \<Rightarrow> nat \<Rightarrow> rat \<Rightarrow> nat" where
  "rank fl n p = nat (min (max (\<lceil>fl (fl (p / 100) * fl (of_nat n))\<rceil> - 1) 0) (int n - 1))"

lemma clamp:
  "0 < n \<Longrightarrow> (if (if r < 0 then 0 else r) \<ge> n then n - 1 else if r < 0 then 0 else r) = min (max r 0) (n - 1 :: int)"
  by auto

lemma percentile_rank: "ss \<noteq> [] \<Longrightarrow> percentile fl ss p = sort ss ! rank fl (length ss) p"
proof -
  assume ss: "ss \<noteq> []"
  let ?r = "\<lceil>fl (fl (p / 100) * fl (of_nat (length ss)))\<rceil> - 1"
  have "0 < int (length ss)" using ss by simp
  from clamp [OF this, of ?r] ss show ?thesis
    by (simp only: percentile_def rank_def Let_def length_sort if_False of_int_of_nat_eq)
qed

lemma rank_less: "0 < n \<Longrightarrow> rank fl n p < n"
  by (auto simp: rank_def min_def max_def)

lemma percentile_element: "ss \<noteq> [] \<Longrightarrow> percentile fl ss p \<in> set ss"
  using rank_less [of "length ss" fl p] by (metis length_greater_0_conv length_sort nth_mem percentile_rank set_sort)

lemma rank_mono:
  assumes "rounding fl" "p \<le> q"
  shows "rank fl n p \<le> rank fl n q"
proof -
  note m = rounding_mono [OF assms(1)]
  have "0 \<le> fl (of_nat n)" using m [of 0 "of_nat n"] assms(1) by simp
  then have "fl (fl (p / 100) * fl (of_nat n)) \<le> fl (fl (q / 100) * fl (of_nat n))"
    using assms(2) by (intro m mult_right_mono m) (simp_all add: divide_right_mono)
  then show ?thesis unfolding rank_def by (intro nat_mono min.mono max.mono diff_right_mono ceiling_mono) simp_all
qed

lemma percentile_mono:
  assumes "rounding fl" "p \<le> q"
  shows "percentile fl ss p \<le> percentile fl ss q"
proof (cases "ss = []")
  case False
  then show ?thesis
    using rank_mono [OF assms, of "length ss"] rank_less [of "length ss" fl q]
    by (simp add: percentile_rank sorted_nth_mono)
qed (simp add: percentile_def)

lemma ceiling_half: "\<lceil>(of_int n :: rat) / 2\<rceil> = (n + 1) div 2"
proof (rule ceiling_unique)
  have b: "2 * ((n + 1) div 2) \<le> n + 1" "n \<le> 2 * ((n + 1) div 2)" by linarith+
  have "(of_int (2 * ((n + 1) div 2)) :: rat) \<le> of_int (n + 1)" "(of_int n :: rat) \<le> of_int (2 * ((n + 1) div 2))"
    using b by (simp_all only: of_int_le_iff)
  then show "of_int ((n + 1) div 2) - 1 < (of_int n :: rat) / 2" "(of_int n :: rat) / 2 \<le> of_int ((n + 1) div 2)"
    by simp_all
qed

text \<open>The median is the nearest rank: half the samples or more are at most the median, and less
  than half are smaller.\<close>

lemma median_rank:
  assumes "rounding fl" "ss \<noteq> []" "length ss \<le> 2 ^ 50"
  shows "length ss \<le> 2 * length (filter (\<lambda>s. s \<le> percentile fl ss 50) ss)"
    and "2 * length (filter (\<lambda>s. s < percentile fl ss 50) ss) < length ss"
proof -
  let ?n = "int (length ss)" and ?k = "rank fl (length ss) 50"
  have n: "0 < ?n" "?n \<le> 2 ^ 50" using assms(2,3) by simp_all
  have half: "(50 / 100 :: rat) = of_int 2 / 4" "(of_int 2 / 4 :: rat) * of_int ?n = of_int (2 * ?n) / 4"
    "(of_int (2 * ?n) / 4 :: rat) = of_int ?n / 2" by simp_all
  have "fl (of_int 2 / 4) = of_int 2 / 4" "fl (of_int ?n) = of_int ?n" "fl (of_int (2 * ?n) / 4) = of_int (2 * ?n) / 4"
    by (intro rounding_quarter rounding_int assms(1); use n in simp)+
  then have "fl (fl (50 / 100) * fl (of_int ?n)) = of_int ?n / 2" by (simp only: half)
  then have "?k = nat (min (max (\<lceil>(of_int ?n :: rat) / 2\<rceil> - 1) 0) (?n - 1))"
    by (simp only: rank_def of_int_of_nat_eq)
  moreover have "\<lceil>(of_int ?n :: rat) / 2\<rceil> = (?n + 1) div 2" by (rule ceiling_half)
  moreover have "min (max ((?n + 1) div 2 - 1) 0) (?n - 1) = (?n + 1) div 2 - 1" "0 \<le> (?n + 1) div 2 - 1"
    using n(1) by linarith+
  ultimately have k: "int ?k = (?n + 1) div 2 - 1" by (simp only: int_nat_eq if_True)
  have klt: "?k < length (sort ss)" using rank_less [of "length ss" fl 50] assms(2) by simp
  note c = sorted_count_le [OF sorted_sort klt] sorted_count_less [OF sorted_sort klt]
  show "length ss \<le> 2 * length (filter (\<lambda>s. s \<le> percentile fl ss 50) ss)"
    using c(1) k by (simp add: percentile_rank [OF assms(2)] length_filter_sort)
  show "2 * length (filter (\<lambda>s. s < percentile fl ss 50) ss) < length ss"
    using c(2) k n by (simp add: percentile_rank [OF assms(2)] length_filter_sort)
qed


text \<open>The verdict, without the median: at least half of the samples are at least half of the last
  one.\<close>

lemma bounded_iff:
  assumes fl: "rounding fl" and ss: "ss \<noteq> []" "length ss \<le> 2 ^ 50" and r: "\<And>s. s \<in> set ss \<Longrightarrow> 0 \<le> s \<and> s < 2 ^ 62"
  shows "bounded fl ss \<longleftrightarrow> 2 * length (filter (\<lambda>s. 2 * s < last ss) ss) < length ss"
proof -
  let ?m = "percentile fl ss 50"
  have m: "0 \<le> ?m" "?m < 2 ^ 62" using r percentile_element [OF ss(1)] by blast+
  have l: "0 \<le> last ss" using r ss(1) by simp
  have b: "bounded fl ss \<longleftrightarrow> last ss \<le> 2 * ?m"
  proof (cases "length ss < 2")
    case True
    then obtain x where "ss = [x]" using ss(1) by (cases ss) (auto simp: Suc_le_eq)
    then show ?thesis using percentile_element [OF ss(1), of fl 50] l by (simp add: bounded_def)
  next
    case False
    then show ?thesis using m l by (auto simp: bounded_def Let_def)
  qed
  show ?thesis
  proof (cases "last ss \<le> 2 * ?m")
    case True
    then have "length (filter (\<lambda>s. 2 * s < last ss) ss) \<le> length (filter (\<lambda>s. s < ?m) ss)"
      by (intro length_filter_mono) simp
    then show ?thesis using median_rank(2) [OF fl ss] b True by simp
  next
    case False
    then have "length (filter (\<lambda>s. s \<le> ?m) ss) \<le> length (filter (\<lambda>s. 2 * s < last ss) ss)"
      by (intro length_filter_mono) simp
    then show ?thesis using median_rank(1) [OF fl ss] b False by simp
  qed
qed

lemma max_loop_max: "max_loop m ss = Max (insert m (set ss))"
proof (induction ss arbitrary: m)
  case (Cons s ss)
  have "max_loop m (s # ss) = max_loop (max s m) ss" by (simp add: max_def)
  also have "\<dots> = Max (insert m (set (s # ss)))"
    by (cases "ss = []") (simp_all add: Cons.IH ac_simps)
  finally show ?case .
qed simp

lemma maxInt64_max: "maxInt64 ss = Max (insert 0 (set ss))"
  by (simp add: maxInt64_def max_loop_max)

section \<open>Sizes\<close>

text \<open>The loop keeps \<open>n = b div dv\<close> and \<open>dv = 1024 ^ (e + 1)\<close>.\<close>

lemma human_loop_result:
  assumes "b < 2 ^ 63" "1024 ^ (e + 1) \<le> b"
  shows "\<exists>e'. human_loop (b div 1024 ^ (e + 1)) (1024 ^ (e + 1)) e = (1024 ^ (e' + 1), e') \<and>
    1024 ^ (e' + 1) \<le> b \<and> b < 1024 ^ (e' + 2)"
  using assms(2)
proof (induction "nat (b div 1024 ^ (e + 1))" arbitrary: e rule: less_induct)
  case less
  let ?d = "1024 ^ (e + 1) :: int"
  have d: "0 < ?d" by simp
  show ?case
  proof (cases "1024 \<le> b div ?d")
    case False
    then have "b < 1024 * ?d" using le_div_iff [OF d, of 1024 b] by linarith
    then show ?thesis using False less.prems by (subst human_loop.simps) auto
  next
    case True
    then have le: "1024 * ?d \<le> b" using d by (metis le_div_iff)
    then have w: "wrap64 (?d * 1024) = 1024 ^ (Suc e + 1)" using assms(1) d by (subst wrap64_id) (auto simp: ac_simps intro: order_trans [of _ 0])
    have q: "go_quot (b div ?d) 1024 = b div 1024 ^ (Suc e + 1)"
      using True by (simp add: zdiv_zmult2_eq [symmetric] ac_simps)
    have "nat (b div 1024 ^ (Suc e + 1)) < nat (b div ?d)"
      using True q by auto
    from less.hyps [OF this] le q w True show ?thesis by (subst human_loop.simps) (simp add: ac_simps)
  qed
qed

lemma humanizeBytes_scaled:
  assumes "1024 \<le> b" "b < 2 ^ 63"
  shows "\<exists>e. e \<le> 5 \<and> 1024 ^ (e + 1) \<le> b \<and> b < 1024 ^ (e + 2) \<and>
    humanizeBytes fl b = Some (ScaledBytes (fl (fl (of_int b) / fl (1024 ^ (e + 1)))) (''KMGTPE'' ! e))"
proof -
  from human_loop_result [of b 0] assms obtain e where
    e: "human_loop (go_quot b 1024) 1024 0 = (1024 ^ (e + 1), e)" "1024 ^ (e + 1) \<le> b" "b < 1024 ^ (e + 2)"
    by auto
  have "(1024 :: int) ^ (e + 1) < 1024 ^ 7" using e(2) assms(2) by simp
  then have "e \<le> 5" by (subst (asm) power_strict_increasing_iff) auto
  then show ?thesis using e assms by (auto simp: humanizeBytes_def intro!: exI [of _ e])
qed

section \<open>The stub answers consistently\<close>

lemma makeSubmit_accepted:
  assumes "distinct (map cid_of ins)" "makeSubmit latency ctx_err (map toJob ins) = Inr results"
  shows "mapResults ins results = Inr []"
proof -
  from assms(2) have r: "results = map (\<lambda>p. \<lparr>r_CorrelationID = cid_of p, r_Err = '''', r_Reason = '''', r_JobID = ''ok''\<rparr>) ins"
    by (auto simp: makeSubmit_def toJob_def split: option.splits)
  then have "rejected_rows ins results = []" by (simp add: rejected_rows_def filter_empty_conv)
  then show ?thesis using assms(1) r by (simp add: mapResults_Inr comp_def)
qed

section \<open>main\<close>

text \<open>
  \<open>main\<close> as a function on what it leaves behind: the database as \<open>reset\<close> left it, the printed lines,
  whether the tool's own pool is open, the driver it started and whether that one's context was
  cancelled. The
  environment answers \<open>pgxpool.New\<close>, the ping, the statements of \<open>reset\<close>, the pools of the driver's \<open>New\<close> and the
  rounds of \<open>runSteady\<close>; \<open>ben_stopped\<close> says whether the driver's \<open>Run\<close> returned within five seconds of
  the cancellation. \<open>fatal\<close> ends the process with \<open>os.Exit\<close>, which runs no deferred call; the end of
  \<open>main\<close> and a panic run them.
\<close>

datatype out_arg = OInt int | ODuration duration | ORate rat | OSize size_text | OStr string

datatype bench_line =
    Printf string "out_arg list"
  | Fprintln string                   \<comment> \<open>on \<open>os.Stderr\<close>\<close>
  | FatalLine go_error                \<comment> \<open>\<open>pglg-bench:\<close> and the error, on \<open>os.Stderr\<close>\<close>
  | BenchUsage

datatype exit_status = Exit nat | GoPanic | StillRunning

record 'db bench_env =
  ben_pool :: "string \<Rightarrow> go_error option"
  ben_ping :: "go_error option"
  ben_exec :: "string \<Rightarrow> sql_arg list \<Rightarrow> 'db \<Rightarrow> go_error option \<times> 'db"
  ben_driver_pool :: "string \<Rightarrow> go_error option"
  ben_logger :: logger
  ben_start :: gotime
  ben_rounds :: "steady_env list"
  ben_took :: duration
  ben_stopped :: bool

record 'db bench =
  bench_db :: 'db
  bn_lines :: "bench_line list"
  bn_pool_open :: bool
  bn_started :: "driver option"
  bn_cancelled :: bool

definition say :: "bench_line \<Rightarrow> 'db bench \<Rightarrow> 'db bench" where
  "say l s = s\<lparr>bn_lines := bn_lines s @ [l]\<rparr>"

definition fatal :: "go_error \<Rightarrow> 'db bench \<Rightarrow> exit_status \<times> 'db bench" where
  "fatal err s = (Exit 1, say (FatalLine err) s)"

text \<open>The deferred calls once the driver runs: \<open>cancel\<close> and \<open>pool.Close\<close>.\<close>

definition bench_deferred :: "'db bench \<Rightarrow> 'db bench" where
  "bench_deferred s = s\<lparr>bn_cancelled := True, bn_pool_open := False\<rparr>"

text \<open>The end of \<open>main\<close>: the report, the cancellation of the driver and the wait for it, and the
  deferred calls. A size that cannot be printed is a panic.\<close>

definition bench_finish :: "(rat \<Rightarrow> rat) \<Rightarrow> 'db bench_env \<Rightarrow> config \<Rightarrow> steadyResult \<Rightarrow> 'db bench \<Rightarrow> exit_status \<times> 'db bench" where
  "bench_finish fl en c r s =
     (let s1 = say (Printf (CHR 0x0A # ''=== submit-latency=%s ==='') [ODuration (b_submitLatency c)]) s in
      case bench_report fl r of
        (rate, sizes, verdict) \<Rightarrow>
          (case those sizes of
             None \<Rightarrow> (GoPanic, bench_deferred s1)
           | Some texts \<Rightarrow>
               (let s2 = say (Printf ''@%d/s: rate %.0f/s | lag p50 %s p99 %s max %s -> %s''
                           ([OInt (b_rate c), ORate rate] @ map OSize texts @ [OStr verdict])) s1;
                    s3 = s2\<lparr>bn_cancelled := True\<rparr>;
                    s4 = (if ben_stopped en then s3
                          else say (Fprintln ''pglg-bench: driver did not stop within 5s'') s3)
                in (Exit 0, bench_deferred s4))))"

text \<open>\<open>runSteady\<close> and what follows it.\<close>

definition bench_measure :: "(rat \<Rightarrow> rat) \<Rightarrow> 'db bench_env \<Rightarrow> config \<Rightarrow> 'db bench \<Rightarrow> exit_status \<times> 'db bench" where
  "bench_measure fl en c s =
     (if steady_loop c (ben_start en + b_duration c) (ben_rounds en) 0 [] = SteadyPanic then (GoPanic, bench_deferred s)
      else case runSteady fl c (ben_start en) (ben_rounds en) (ben_took en) of
        None \<Rightarrow> (StillRunning, s)
      | Some (Inl err) \<Rightarrow> fatal err s
      | Some (Inr r) \<Rightarrow> bench_finish fl en c r s)"

definition bench_main :: "(rat \<Rightarrow> rat) \<Rightarrow> 'db bench_env \<Rightarrow> string list \<Rightarrow> 'db bench \<Rightarrow> exit_status \<times> 'db bench" where
  "bench_main fl en args s =
     (case parseFlags args of
        Inl FlagHelp \<Rightarrow> (Exit 0, say BenchUsage s)
      | Inl (FlagFail format) \<Rightarrow> (Exit 2, say BenchUsage (say (Fprintln format) s))
      | Inr c \<Rightarrow>
        (case ben_pool en (b_connString c) of
           Some err \<Rightarrow> fatal (Wrapf ''connect: %w'' [] err) s
         | None \<Rightarrow>
           (let s1 = s\<lparr>bn_pool_open := True\<rparr> in
            case ben_ping en of
              Some err \<Rightarrow> fatal (Wrapf ''ping: %w'' [] err) s1
            | None \<Rightarrow>
              (let s2 = say (Printf ''pglg-bench: connected; rate=%d/s duration=%s submit-latency=%s payload=%dB''
                          [OInt (b_rate c), ODuration (b_duration c), ODuration (b_submitLatency c), OInt (b_payloadSize c)]) s1
               in case bench_reset (ben_exec en) c (bench_db s2) of
                    (Some err, db) \<Rightarrow> fatal (Wrapf ''reset: %w'' [] err) (s2\<lparr>bench_db := db\<rparr>)
                  | (None, db) \<Rightarrow>
                    (let s3 = s2\<lparr>bench_db := db\<rparr> in
                     case New (ben_driver_pool en) (bench_driver_config c (ben_logger en)) of
                       (Inl err, _) \<Rightarrow> fatal (Wrapf ''new driver: %w'' [] err) s3
                     | (Inr d, _) \<Rightarrow> bench_measure fl en c (s3\<lparr>bn_started := Some d\<rparr>))))))"

text \<open>The sizes of the report can always be printed, and the tool panics only on a negative payload
  size.\<close>

lemma humanizeBytes_total: "b < 2 ^ 63 \<Longrightarrow> \<exists>t. humanizeBytes fl b = Some t"
  using humanizeBytes_scaled [of b fl] by (cases "b < 1024") (auto simp: humanizeBytes_def)

lemma report_sizes:
  assumes "samples r \<noteq> []" "\<And>n. n \<in> set (samples r) \<Longrightarrow> n < 2 ^ 63"
  shows "\<exists>texts. those (fst (snd (bench_report fl r))) = Some texts"
proof -
  have p: "percentile fl (samples r) q < 2 ^ 63" for q using percentile_element [OF assms(1), of fl q] assms(2) by simp
  have "maxInt64 (samples r) < 2 ^ 63" using assms(2) by (simp add: maxInt64_max)
  with p obtain a b c where "humanizeBytes fl (percentile fl (samples r) 50) = Some a"
    "humanizeBytes fl (percentile fl (samples r) 99) = Some b" "humanizeBytes fl (maxInt64 (samples r)) = Some c"
    using humanizeBytes_total by meson
  then show ?thesis by (simp add: bench_report_def)
qed

lemma per_tick_pos: "1 \<le> per_tick c"
  by (simp add: per_tick_def Let_def)

lemma steady_panic:
  "steady_loop c deadline ens inserted ss = SteadyPanic \<Longrightarrow> b_payloadSize c < 0"
  using per_tick_pos [of c]
  by (induction c deadline ens inserted ss rule: steady_loop.induct)
    (auto simp: insertJobs_def job_rows_def split: if_splits select_event.splits option.splits)

lemma steady_samples:
  assumes "steady_loop c deadline ens inserted ss = Deadline inserted' ss'" "n \<in> set ss'"
  shows "n \<in> set ss \<or> (\<exists>en \<in> set ens. slotLag (sv_lag en) (b_slot c) = Inr n)"
  using assms
  by (induction c deadline ens inserted ss rule: steady_loop.induct)
    (fastforce split: if_splits select_event.splits option.splits sum.splits)+

lemma runSteady_samples:
  assumes "runSteady fl c start ens took = Some (Inr r)"
  shows "samples r \<noteq> []" "n \<in> set (samples r) \<Longrightarrow> \<exists>en \<in> set ens. slotLag (sv_lag en) (b_slot c) = Inr n"
  using assms steady_samples [of c "start + b_duration c" ens 0 "[]" _ _ n]
  by (auto simp: runSteady_def split: steady.splits if_splits)

text \<open>How \<open>main\<close> can end.\<close>

definition bench_succeeded :: "(rat \<Rightarrow> rat) \<Rightarrow> 'db bench_env \<Rightarrow> config \<Rightarrow> 'db bench \<Rightarrow> 'db bench \<Rightarrow> bool" where
  "bench_succeeded fl en c s s' \<longleftrightarrow>
     (\<exists>d opened r texts. bench_reset (ben_exec en) c (bench_db s) = (None, bench_db s') \<and>
        New (ben_driver_pool en) (bench_driver_config c (ben_logger en)) = (Inr d, opened) \<and> bn_started s' = Some d \<and>
        runSteady fl c (ben_start en) (ben_rounds en) (ben_took en) = Some (Inr r) \<and> samples r \<noteq> [] \<and>
        map Some texts = fst (snd (bench_report fl r)) \<and>
        Printf ''@%d/s: rate %.0f/s | lag p50 %s p99 %s max %s -> %s''
          ([OInt (b_rate c), ORate (achievedRate r)] @ map OSize texts @ [OStr (snd (snd (bench_report fl r)))]) \<in> set (bn_lines s') \<and>
        bn_cancelled s' \<and> \<not> bn_pool_open s')"

text \<open>A lag is a \<open>bigint\<close>.\<close>

definition lags_fit :: "'db bench_env \<Rightarrow> bool" where
  "lags_fit en \<longleftrightarrow> (\<forall>e \<in> set (ben_rounds en). \<forall>slot n. slotLag (sv_lag e) slot = Inr n \<longrightarrow> n < 2 ^ 63)"

lemma those_Some_map: "those xs = Some ys \<Longrightarrow> map Some ys = xs"
  by (induction xs arbitrary: ys) (auto split: option.splits)

lemma bench_finish_ok:
  assumes r: "runSteady fl c (ben_start en) (ben_rounds en) (ben_took en) = Some (Inr r)"
    and lag: "lags_fit en"
    and reset: "bench_reset (ben_exec en) c (bench_db s0) = (None, bench_db s)"
    and new: "New (ben_driver_pool en) (bench_driver_config c (ben_logger en)) = (Inr d, opened)" "bn_started s = Some d"
  shows "\<exists>s'. bench_finish fl en c r s = (Exit 0, s') \<and> bench_succeeded fl en c s0 s' \<and> bench_db s' = bench_db s"
proof -
  have ne: "samples r \<noteq> []" using runSteady_samples(1) [OF r] .
  have "n < 2 ^ 63" if "n \<in> set (samples r)" for n using runSteady_samples(2) [OF r that] lag by (auto simp: lags_fit_def)
  from report_sizes [OF ne this] obtain texts where t: "those (fst (snd (bench_report fl r))) = Some texts" by blast
  obtain rate sizes verdict where b: "bench_report fl r = (rate, sizes, verdict)" using prod_cases3 by blast
  have "rate = achievedRate r" using b by (simp add: bench_report_def)
  moreover have "map Some texts = sizes" using those_Some_map [OF t] b by simp
  ultimately show ?thesis
    using t b r ne reset new
    by (simp add: bench_finish_def bench_succeeded_def bench_deferred_def say_def Let_def) blast
qed

lemma bench_measured:
  assumes reset: "bench_reset (ben_exec en) c (bench_db s0) = (None, bench_db s)"
    and new: "New (ben_driver_pool en) (bench_driver_config c (ben_logger en)) = (Inr d, opened)" "bn_started s = Some d"
    and lag: "lags_fit en"
    and m: "(st, s') = bench_measure fl en c s"
  shows "bench_db s' = bench_db s" "bn_started s' = Some d"
    "st = Exit 0 \<and> bench_succeeded fl en c s0 s' \<or> st = StillRunning \<or>
     st = Exit 1 \<and> (\<exists>err. last (bn_lines s') = FatalLine err) \<and> bn_cancelled s' = bn_cancelled s \<or>
     st = GoPanic \<and> b_payloadSize c < 0 \<and> bn_cancelled s' \<and> \<not> bn_pool_open s'"
proof -
  let ?goal = "bench_db s' = bench_db s \<and> bn_started s' = Some d \<and>
    (st = Exit 0 \<and> bench_succeeded fl en c s0 s' \<or> st = StillRunning \<or>
     st = Exit 1 \<and> (\<exists>err. last (bn_lines s') = FatalLine err) \<and> bn_cancelled s' = bn_cancelled s \<or>
     st = GoPanic \<and> b_payloadSize c < 0 \<and> bn_cancelled s' \<and> \<not> bn_pool_open s')"
  have ?goal
  proof (cases "\<exists>r. runSteady fl c (ben_start en) (ben_rounds en) (ben_took en) = Some (Inr r)")
    case True
    then obtain r where r: "runSteady fl c (ben_start en) (ben_rounds en) (ben_took en) = Some (Inr r)" by blast
    then have "steady_loop c (ben_start en + b_duration c) (ben_rounds en) 0 [] \<noteq> SteadyPanic" by (auto simp: runSteady_def)
    moreover from bench_finish_ok [OF r lag reset new] obtain s'' where
      "bench_finish fl en c r s = (Exit 0, s'')" "bench_succeeded fl en c s0 s''" "bench_db s'' = bench_db s" by blast
    ultimately show ?thesis using m r new by (auto simp: bench_measure_def bench_succeeded_def)
  next
    case False
    then show ?thesis
      using m new steady_panic [of c "ben_start en + b_duration c" "ben_rounds en" 0 "[]"]
      by (auto simp: bench_measure_def fatal_def bench_deferred_def say_def split: if_splits option.splits sum.splits)
  qed
  then show "bench_db s' = bench_db s" "bn_started s' = Some d"
    "st = Exit 0 \<and> bench_succeeded fl en c s0 s' \<or> st = StillRunning \<or>
     st = Exit 1 \<and> (\<exists>err. last (bn_lines s') = FatalLine err) \<and> bn_cancelled s' = bn_cancelled s \<or>
     st = GoPanic \<and> b_payloadSize c < 0 \<and> bn_cancelled s' \<and> \<not> bn_pool_open s'"
    by blast+
qed

lemma bench_main_cases:
  assumes m: "bench_main fl en args s = (st, s')"
    and lag: "lags_fit en"
  obtains (usage) e where "parseFlags args = Inl e" "st = Exit (if e = FlagHelp then 0 else 2)" "bn_started s' = bn_started s" "bn_cancelled s' = bn_cancelled s"
  | (failed) "st = Exit 1" "\<exists>err. last (bn_lines s') = FatalLine err" "bn_started s' = bn_started s" "bn_cancelled s' = bn_cancelled s"
  | (ran) c d opened where "parseFlags args = Inr c" "bench_reset (ben_exec en) c (bench_db s) = (None, bench_db s')"
      "New (ben_driver_pool en) (bench_driver_config c (ben_logger en)) = (Inr d, opened)" "bn_started s' = Some d"
      "st = Exit 0 \<and> bench_succeeded fl en c s s' \<or> st = StillRunning \<or>
     st = Exit 1 \<and> (\<exists>err. last (bn_lines s') = FatalLine err) \<and> bn_cancelled s' = bn_cancelled s \<or>
     st = GoPanic \<and> b_payloadSize c < 0 \<and> bn_cancelled s' \<and> \<not> bn_pool_open s'"
proof (cases "parseFlags args")
  case (Inl e)
  with m show thesis by (cases e) (auto simp: bench_main_def say_def intro: usage)
next
  case c: (Inr c)
  consider "ben_pool en (b_connString c) \<noteq> None \<or> ben_ping en \<noteq> None"
    | "ben_pool en (b_connString c) = None" "ben_ping en = None" by blast
  then show thesis
  proof cases
    case 1
    with m c show thesis by (intro failed) (auto simp: bench_main_def fatal_def say_def Let_def split: option.splits)
  next
    case up: 2
    obtain err db where r: "bench_reset (ben_exec en) c (bench_db s) = (err, db)" by fastforce
    obtain res opened where n: "New (ben_driver_pool en) (bench_driver_config c (ben_logger en)) = (res, opened)" by fastforce
    show thesis
    proof (cases "err = None \<and> (\<exists>d. res = Inr d)")
      case False
      with m c up r n show thesis
        by (intro failed) (auto simp: bench_main_def fatal_def say_def Let_def split: option.splits sum.splits)
    next
      case True
      then obtain d where d: "err = None" "res = Inr d" by blast
      define s4 where "s4 = (say (Printf ''pglg-bench: connected; rate=%d/s duration=%s submit-latency=%s payload=%dB''
          [OInt (b_rate c), ODuration (b_duration c), ODuration (b_submitLatency c), OInt (b_payloadSize c)])
          (s\<lparr>bn_pool_open := True\<rparr>))\<lparr>bench_db := db, bn_started := Some d\<rparr>"
      have s4: "bench_reset (ben_exec en) c (bench_db s) = (None, bench_db s4)" "bn_started s4 = Some d" "bn_cancelled s4 = bn_cancelled s"
        using r d by (simp_all add: s4_def say_def)
      have n': "New (ben_driver_pool en) (bench_driver_config c (ben_logger en)) = (Inr d, opened)" using n d by simp
      have "(st, s') = bench_measure fl en c s4"
        using m c up r n d by (simp add: bench_main_def s4_def say_def Let_def)
      note M = bench_measured [OF s4(1) n' s4(2) lag this]
      have "bench_reset (ben_exec en) c (bench_db s) = (None, bench_db s')" using s4(1) M(1) by simp
      from ran [OF c this n' M(2) M(3) [unfolded s4(3)]] show thesis .
    qed
  qed
qed

end
