(* ===== verification/Pglg_Example.thy ===== *)
theory Pglg_Example
  imports Pglg_Deployment Pglg_Progress Pglg_Maintenance Pglg_Setup Pglg_Bench
begin

text \<open>
  A concrete environment: a driver that flushes every row, a server that sends one transaction of
  one row (id 7, committed at LSN 200), a database that never fails and a service that accepts
  every job. The evaluated runs show that the assumptions the delivery theorems make of the
  environment can hold together.
\<close>

definition ex_config :: Config where
  "ex_config = setDefaults (zero_Config\<lparr>ConnString := ''host=db'', SlotName := ''s'',
     PublicationName := ''p'', MaxBatchSize := 1\<rparr>)"

definition ex_driver :: driver where
  "ex_driver = \<lparr>cfg = ex_config, pool = ''host=db'', replicaPools = [], isLeader = False,
     maintWake = False, standbyLogged = False\<rparr>"

definition ex_row :: parsedInsert where
  "ex_row = zero_parsedInsert\<lparr>pid := 7\<rparr>"

text \<open>The body of an \<open>XLogData\<close> message is one letter; the payload of the insert is \<open>n\<close> bytes longer
  than that.\<close>

definition ex_api :: "nat \<Rightarrow> wal_api" where
  "ex_api n = \<lparr>pgconn_Timeout = (\<lambda>e. e = DeadlineExceeded),
     ParsePrimaryKeepaliveMessage = (\<lambda>b. Inr (1000, True)),
     ParseXLogData = (\<lambda>b. if b = ''c'' then Inr (200, b)
       else if b = ''i'' then Inr (100, b @ replicate n (CHR ''0'')) else Inr (100, b)),
     pglogrepl_ParseV2 = (\<lambda>b.
       if take 1 b = ''b'' then Inr BeginMessage
       else if take 1 b = ''r'' then Inr (RelationMessageV2 1 ''outbox_jobs'' [\<lparr>col_Name = ''id''\<rparr>])
       else if take 1 b = ''i'' then Inr (InsertMessageV2 1 [\<lparr>DataType = CHR ''t'', Data = ''7''\<rparr>])
       else Inr (CommitMessage 200))\<rparr>"

definition ex_tx :: tx_env where
  "ex_tx = \<lparr>tx_begin = None, tx_now = 50, tx_exec_dlq = (\<lambda>q as. None), tx_exec_cursor = None,
     tx_commit = CommitOk\<rparr>"

definition ex_accept :: "Job list \<Rightarrow> go_error + SubmitResult list" where
  "ex_accept jobs = Inr (map (\<lambda>j. \<lparr>r_CorrelationID = CorrelationID j, r_Err = '''', r_Reason = '''', r_JobID = ''ok''\<rparr>) jobs)"

definition ex_flush :: flush_env where
  "ex_flush = \<lparr>fe_submit = ex_accept, fe_tx = ex_tx, fe_status_now = 60, fe_status_answer = None,
     fe_took = 5\<rparr>"

text \<open>A round at time \<open>now\<close> that receives one message.\<close>

definition ex_round :: "gotime \<Rightarrow> string \<Rightarrow> iter_env" where
  "ex_round now msg = \<lparr>ie_done = None, ie_now = now, ie_batch_flush = ex_flush, ie_now_flushed = now,
     ie_idle_tx = ex_tx, ie_status_now = now, ie_status_answer = None, ie_now_standby = now,
     ie_receive = (\<lambda>deadline. Inr (CopyData msg)), ie_reply_now = now, ie_reply_answer = None,
     ie_ages = (\<lambda>i. now), ie_now_commit = now, ie_size_flush = ex_flush\<rparr>"

definition ex_session :: session_env where
  "ex_session = \<lparr>se_query = None, se_connect = (\<lambda>s. None), se_identify = None,
     se_start = (\<lambda>slot l args. None), se_close = (\<lambda>c. None), se_now = 1,
     se_rounds = map (ex_round 2) [''wb'', ''wr'', ''wi'', ''wc'']\<rparr>"

definition ex_world :: world where
  "ex_world = \<lparr>cursors = (\<lambda>t s. None), dlqs = (\<lambda>t. []), submissions = [], statuses = [], metrics = [], connections = []\<rparr>"

definition ex_log :: "(lsn \<times> parsedInsert list) list" where
  "ex_log = [(200, [ex_row])]"

lemmas ex_env_defs = ex_round_def ex_flush_def ex_tx_def ex_session_def ex_world_def ex_api_def

lemma ex_config_fields [simp]:
  "SlotName ex_config = ''s''" "Schema ex_config = ''public''" "TablePrefix ex_config = ''outbox''"
  "MaxBatchSize ex_config = 1" "BatchTimeout ex_config = Second" "StandbyInterval ex_config = 10 * Second"
  "PublicationName ex_config = ''p''" "ConnString ex_config = ''host=db''"
  by (simp_all add: ex_config_def setDefaults_def zero_Config_def or_default_def)

definition ex_leader :: driver where
  "ex_leader = ex_driver\<lparr>isLeader := True, maintWake := True\<rparr>"

lemma ex_acquire: "acquireLeadership ex_driver =
    (ex_leader, [Incr ''jack.courier.leader.acquired'' [], Gauge ''jack.courier.leader.is_leader'' 1 []])"
  by (simp add: acquireLeadership_def ex_driver_def ex_leader_def emitLeaderGauge_def Let_def)

lemma ex_cfg [simp]: "cfg ex_driver = ex_config" "cfg ex_leader = ex_config"
  by (simp_all add: ex_driver_def ex_leader_def)

definition ex_started :: world where
  "ex_started = emit [Incr ''jack.courier.leader.acquired'' [], Gauge ''jack.courier.leader.is_leader'' 1 []]
     (conn_opened ex_driver ex_world)"

lemma ex_started_fields [simp]:
  "submissions ex_started = []" "statuses ex_started = []" "cursors ex_started = (\<lambda>t s. None)" "dlqs ex_started = (\<lambda>t. [])"
  by (simp_all add: ex_started_def ex_world_def)

definition ex_start :: stream where
  "ex_start = stream_start ex_leader 1 (started_consumer ex_config 0) 0 ex_started"

lemma ex_stream:
  "session_stream la (ex_api n) (ex_session\<lparr>se_rounds := rs\<rparr>) ex_driver 0 ex_world =
   stream_loop la (ex_api n) ex_leader rs ex_start"
  by (simp add: session_stream_def ex_acquire processWALStream_def ex_start_def ex_started_def ex_session_def)

lemmas ex_step_defs = iteration_def batch_due_def standby_due_def receive_step_def receiveMessage_def
  XLogDataByteID_def PrimaryKeepaliveMessageByteID_def parseWALMessage_def handle_message_def Let_def

text \<open>The states after the four messages.\<close>

definition ex_wal :: "lsn \<Rightarrow> (oid \<rightharpoonup> relationMeta) \<Rightarrow> walConsumer" where
  "ex_wal p rels = (started_consumer ex_config 0)\<lparr>relations := rels, clientXLogPos := p\<rparr>"

definition ex_relations :: "oid \<rightharpoonup> relationMeta" where
  "ex_relations = [1 \<mapsto> \<lparr>rel_name = ''outbox_jobs'', rel_columns = [''id'']\<rparr>]"

definition ex_insert :: walMessage where
  "ex_insert = walInsert 1 [\<lparr>isNull = False, data = ''7''\<rparr>]"

definition ex_messages :: "walMessage list" where
  "ex_messages = [walBegin, walRelation 1 ''outbox_jobs'' [''id''], ex_insert, walCommit 200]"

definition ex_st1 :: stream where
  "ex_st1 = ex_start\<lparr>wal := ex_wal 101 Map.empty, inTx := True, decoded := take 1 ex_messages\<rparr>"

definition ex_st2 :: stream where
  "ex_st2 = ex_st1\<lparr>wal := ex_wal 101 ex_relations, decoded := take 2 ex_messages\<rparr>"

definition ex_st3 :: "nat \<Rightarrow> stream" where
  "ex_st3 n = ex_st2\<lparr>wal := received (100 + of_nat (Suc n)) (ex_wal 101 ex_relations),
     buf := \<lparr>inserts = [ex_row]\<rparr>, decoded := take 3 ex_messages\<rparr>"

lemmas ex_state_defs = ex_start_def stream_start_def ex_st1_def ex_st2_def ex_st3_def ex_wal_def
  started_consumer_def ex_messages_def ex_insert_def ex_relations_def

lemma ex_parse: "parseInsertColumns [''id''] [\<lparr>isNull = False, data = ''7''\<rparr>] = Inr ex_row"
  by (simp add: parseInsertColumns_def parse_column_def ParseInt_def ParseUint_def is_digit_def
      digit_val_def ex_row_def)

lemma ex_round1: "iteration la (ex_api n) ex_leader (ex_round 2 ''wb'') ex_start = Running ex_st1"
  by (simp add: ex_step_defs ex_state_defs ex_round_def ex_api_def received_def sent_def)

lemma ex_round2: "iteration la (ex_api n) ex_leader (ex_round 2 ''wr'') ex_st1 = Running ex_st2"
  by (simp add: ex_step_defs ex_state_defs ex_round_def ex_api_def received_def sent_def setRelation_def)

lemma ex_round3: "iteration la (ex_api n) ex_leader (ex_round 2 ''wi'') ex_st2 = Running (ex_st3 n)"
  by (simp add: ex_step_defs ex_state_defs ex_round_def ex_api_def sent_def parseInsert_def
      ex_parse TupleDataTypeNull_def addInsert_def)

lemma ex_mapResults: "mapResults [ex_row] [\<lparr>r_CorrelationID = CorrelationID (toJob ex_row), r_Err = '''', r_Reason = '''', r_JobID = ''ok''\<rparr>] = Inr []"
  by (simp add: mapResults_def toJob_def Let_def)

definition ex_done :: "nat \<Rightarrow> stream" where
  "ex_done n = result_state (iteration decimal_lsn_api (ex_api n) ex_leader (ex_round 2 ''wc'') (ex_st3 n))"

lemma ex_round4:
  "iteration decimal_lsn_api (ex_api n) ex_leader (ex_round 2 ''wc'') (ex_st3 n) = Running (ex_done n)"
  "decoded (ex_done n) = ex_messages" "pendingInserts (ex_done n) = []" "inTx (ex_done n) = False"
  "buf (ex_done n) = \<lparr>inserts = []\<rparr>" "nextBatchAt (ex_done n) = 0"
  "nextStandbyAt (ex_done n) = 1 + 10 * Second"
  "submissions (world (ex_done n)) = [([toJob ex_row], ex_accept [toJob ex_row])]"
  "driver_cursor ex_driver (cursors (world (ex_done n))) = 200"
  "map WALFlushPosition (statuses (world (ex_done n))) = [200]"
  "clientXLogPos (wal (ex_done n)) = max (max 101 (100 + of_nat (Suc n))) 201"
  "flushLSN (wal (ex_done n)) = 200"
  by (simp_all add: ex_done_def ex_step_defs ex_state_defs ex_env_defs sent_def
      size_flush_def commit_rows_def flush_pending_def flushBatch_def ex_accept_def ex_mapResults
      persistFlushResult_def insertDLQRows_def writeCursorTx_ok [OF decimal_lsn_api_ok] sendStandbyStatus_def
      emit_def success_metrics_def recordRowAge_def reset_def standbyStatusUpdate_def
      cursor_at_def upsert_cursor_def)


lemma ex_txs: "t_done (txs_of ex_messages) = [(200, [ex_row])]"
  by (simp add: txs_of_def ex_messages_def ex_insert_def empty_txlog_def ex_parse)

definition ex_rounds :: "iter_env list" where
  "ex_rounds = map (ex_round 2) [''wb'', ''wr'', ''wi'', ''wc'']"

lemma ex_session_rounds: "se_rounds ex_session = ex_rounds" "ex_session\<lparr>se_rounds := ex_rounds\<rparr> = ex_session"
  by (simp_all add: ex_session_def ex_rounds_def)

lemma ex_run: "stream_loop decimal_lsn_api (ex_api n) ex_leader (ex_rounds @ rs) ex_start =
    stream_loop decimal_lsn_api (ex_api n) ex_leader rs (ex_done n)"
  by (simp add: ex_rounds_def ex_round1 ex_round2 ex_round3 ex_round4(1))

lemma ex_session_stream: "session_stream decimal_lsn_api (ex_api n) ex_session ex_driver 0 ex_world = Running (ex_done n)"
  using ex_stream [of decimal_lsn_api n ex_rounds] ex_run [of n "[]"] by (simp add: ex_session_rounds)

lemma ex_readCursor: "readCursor decimal_lsn_api None ex_driver (cursors ex_world) = Inr 0"
  by (simp add: readCursor_value [OF decimal_lsn_api_ok] cursor_at_def ex_world_def)

lemma ex_honest_states:
  "honest_position ex_log ex_start" "honest_position ex_log ex_st1" "honest_position ex_log ex_st2"
  "honest_position ex_log (ex_st3 n)"
  by (simp_all add: honest_position_def ex_state_defs ex_log_def empty_txlog_def)

lemma ex_honest:
  assumes "k < 4" "stream_loop decimal_lsn_api (ex_api n) ex_leader (take k ex_rounds) ex_start = Running st"
  shows "honest_position ex_log st"
proof -
  from assms(1) consider "k = 0" | "k = 1" | "k = 2" | "k = 3" by linarith
  then have "st \<in> {ex_start, ex_st1, ex_st2, ex_st3 n}"
    using assms(2)
    by cases (simp_all add: ex_rounds_def ex_round1 ex_round2 ex_round3 eval_nat_numeral)
  then show ?thesis using ex_honest_states by blast
qed

lemma ex_faithful: "server_faithful decimal_lsn_api (ex_api n) ex_log ex_session ex_driver ex_world"
proof -
  have "pending_log 0 ex_log = ex_log" by (simp add: pending_log_def ex_log_def)
  moreover have "received_prefix ex_log (ex_done n)" by (simp add: received_prefix_def ex_round4 ex_txs ex_log_def)
  moreover have "length ex_rounds = 4" by (simp add: ex_rounds_def)
  moreover have "se_query ex_session = None" by (simp add: ex_session_def)
  ultimately show ?thesis
    using ex_honest [of _ n]
    by (simp add: server_faithful_def ex_readCursor ex_session_stream ex_stream ex_session_rounds)
qed

lemma ex_runOnce: "runOnce decimal_lsn_api (ex_api n) ex_session ex_driver ex_world =
    (Streaming, ex_leader, world (ex_done n))"
proof -
  have "se_query ex_session = None" "se_connect ex_session = (\<lambda>s. None)" "se_identify ex_session = None"
    "se_start ex_session = (\<lambda>slot l args. None)" "se_now ex_session = 1" by (simp_all add: ex_session_def)
  then show ?thesis
    using ex_session_stream [of n]
    by (simp add: runOnce_def ex_readCursor connect_def startStreaming_def newWALConsumer_def ex_acquire
        session_stream_def started_consumer_def)
qed

section \<open>A position beyond the data received\<close>

text \<open>The same session when the payload of the insert is longer than the stretch of WAL it comes
  from, followed by an idle round at the next status update.\<close>

definition ex_idle :: iter_env where
  "ex_idle = (ex_round (20 * Second) '''')\<lparr>ie_receive := (\<lambda>deadline. Inl DeadlineExceeded)\<rparr>"

definition ex_idle_session :: session_env where
  "ex_idle_session = ex_session\<lparr>se_rounds := ex_rounds @ [ex_idle]\<rparr>"

definition ex_idled :: "nat \<Rightarrow> stream" where
  "ex_idled n = result_state (iteration decimal_lsn_api (ex_api n) ex_leader ex_idle (ex_done n))"

lemma ex_idle_round:
  "iteration decimal_lsn_api (ex_api 299) ex_leader ex_idle (ex_done 299) = Running (ex_idled 299)"
  "driver_cursor ex_driver (cursors (world (ex_idled 299))) = 400"
  "submissions (world (ex_idled 299)) = [([toJob ex_row], ex_accept [toJob ex_row])]"
  "decoded (ex_idled 299) = ex_messages"
  using ex_round4(9) [of 299]
  by (simp_all add: ex_idled_def iteration_def batch_due_def standby_due_def idle_flush_def receive_step_def
      receiveMessage_def Let_def ex_idle_def ex_round_def ex_round4 canAdvanceIdleFlush_def empty_def receivedPastFlush_def
      writePos_def persistFlushResult_def ex_tx_def insertDLQRows_def writeCursorTx_ok [OF decimal_lsn_api_ok]
      sendStandbyStatus_def ex_api_def)


lemma ex_idle_runOnce: "runOnce decimal_lsn_api (ex_api 299) ex_idle_session ex_driver ex_world =
    (Streaming, ex_leader, world (ex_idled 299))"
proof -
  have "session_stream decimal_lsn_api (ex_api 299) ex_idle_session ex_driver 0 ex_world = Running (ex_idled 299)"
    using ex_stream [of decimal_lsn_api 299 "ex_rounds @ [ex_idle]"] ex_run [of 299 "[ex_idle]"]
    by (simp add: ex_idle_session_def ex_idle_round(1))
  moreover have "se_query ex_idle_session = None" "se_connect ex_idle_session = (\<lambda>s. None)"
    "se_identify ex_idle_session = None" "se_start ex_idle_session = (\<lambda>slot l args. None)"
    by (simp_all add: ex_idle_session_def ex_session_def)
  ultimately show ?thesis
    by (simp add: runOnce_def ex_readCursor connect_def startStreaming_def newWALConsumer_def ex_acquire
        session_stream_def started_consumer_def)
qed


lemma ex_instant: "pg_instant 0"
  by (simp add: pg_instant_def modern_four_digit modern_time_def)

definition ex_dead :: dlqRow where
  "ex_dead = dlq_row_of ex_row \<lparr>r_CorrelationID = FormatInt 7, r_Err = ''no'', r_Reason = '''', r_JobID = ''''\<rparr>"

lemma ex_row_fields: "pid ex_row = 7" "createdAt ex_row = 0" "runAt ex_row = 0"
  by (simp_all add: ex_row_def zero_parsedInsert_def)


section \<open>Partitions\<close>

text \<open>An empty database, a clock 100 hours after the zero time, and a maintenance round in which
  every statement succeeds.\<close>

definition ex_db :: pdb where
  "ex_db = \<lparr>tables = [], meta = []\<rparr>"

definition ex_part_env :: part_env where
  "ex_part_env = \<lparr>pe_query = None, pe_begin = None, pe_create = None, pe_insert = None, pe_commit = PCommitOk\<rparr>"

definition ex_drop_env :: drop_env where
  "ex_drop_env = \<lparr>de_begin = None, de_query = None, de_scan = (\<lambda>n. None), de_rows = None,
     de_detach = (\<lambda>n. None), de_drop = (\<lambda>n. None), de_delete = (\<lambda>n. None), de_commit = PCommitOk\<rparr>"

definition ex_maint :: maint_env where
  "ex_maint = \<lparr>me_create = (\<lambda>j. ex_part_env), me_create_now = 100 * Hour, me_drop = ex_drop_env,
     me_drop_now = 100 * Hour,
     me_replica = (\<lambda>n. \<lparr>rv_list = \<lparr>li_query = None, li_scan = (\<lambda>n. None), li_rows = None\<rparr>,
       rv_execs = (\<lambda>j. None), rv_create_now = 100 * Hour,
       rv_drop = \<lparr>rd_position = Inr None, rd_begin = None, rd_detach = (\<lambda>n. None), rd_drop = (\<lambda>n. None),
         rd_commit = PCommitOk\<rparr>, rv_drop_now = 100 * Hour\<rparr>),
     me_took = 0, me_gauge = \<lparr>ge_count = None, ge_max = None, ge_min = None\<rparr>, me_gauge_now = 100 * Hour\<rparr>"

lemma ex_config_more [simp]:
  "PartitionInterval ex_config = Hour" "PartitionLookAhead ex_config = 12 * Hour"
  "PartitionRetention ex_config = 3 * Hour" "SlotBusyRetryDelay ex_config = 5 * Second"
  "SlotBusyRetryJitter ex_config = Second" "ReconnectInitialDelay ex_config = Second"
  "ReconnectMaxDelay ex_config = 30 * Second"
  by (simp_all add: ex_config_def setDefaults_def zero_Config_def or_default_def)

lemma ex_partition_ok:
  "interval_ok ex_driver" "window_modern ex_driver (100 * Hour)" "pdb_ok d ex_db" "env_ok ex_part_env"
  by (rule hour_ok) (simp_all add: window_modern_def modern_time_def pdb_ok_def ex_db_def env_ok_def ex_part_env_def)

section \<open>The setup tool\<close>

text \<open>A server whose database is the partition tables and whose other statements succeed.\<close>

definition ex_server :: "pdb server" where
  "ex_server = \<lparr>srv_connect = (\<lambda>c. None),
     srv_exec = (\<lambda>st db. case st of
        CreatePartition schema name pre l u \<Rightarrow>
          (case sql_create_partition (time_Parse RFC3339) name l u db of Inl err \<Rightarrow> (Some err, db) | Inr db' \<Rightarrow> (None, db'))
      | InsertMeta schema pre name l u \<Rightarrow> (None, sql_insert_meta name l u db)
      | _ \<Rightarrow> (None, db)),
     srv_current_user = (\<lambda>db. Inr ''u''), srv_has_replication = (\<lambda>db. Inr True),
     srv_has_schema_create = (\<lambda>s db. Inr True), srv_has_db_create = (\<lambda>db. Inr True)\<rparr>"

lemma ex_partition_server: "partition_server (time_Parse RFC3339) ex_server"
  by (auto simp: partition_server_def ex_server_def split: sum.splits)

definition ex_args :: create_args where
  "ex_args = \<lparr>a_schema = ''public'', a_prefix = ''outbox'', a_publication = ''p'', a_slot = ''s'',
     a_skipPublication = False, a_replica = False, a_partitionsStart = 0\<rparr>"

definition ex_tool :: "pdb tool" where
  "ex_tool = \<lparr>server_db = ex_db, executed = [], console = []\<rparr>"

lemma ex_run_files: "\<exists>s'. run_files ex_server rep False False files s = (None, s') \<and> server_db s' = server_db s"
proof (induction files arbitrary: s)
  case (Cons f fs)
  let ?s = "print (Stdout ''executing %s...'' [FStr (f_name f)]) s"
  let ?st = "Script (Replace rep (f_content f))"
  have "Exec ex_server ?st ?s = (None, ?s\<lparr>server_db := server_db s, executed := executed s @ [?st]\<rparr>)"
    by (simp add: Exec_def ex_server_def)
  then show ?case using Cons.IH [of "?s\<lparr>server_db := server_db s, executed := executed s @ [?st]\<rparr>"] by auto
qed simp

lemma ex_setup_runs:
  "\<exists>s'. runCreate ex_server (ExportedMigrationFS content) (100 * Hour) ex_args ex_tool = Some (None, s')"
proof -
  have h: "Truncate 360000000000000 Hour = 360000000000000" by (simp add: Truncate_def)
  have p: "checkPrivileges ex_server ''public'' False False ex_tool =
      (None, print (Stdout ''privilege check passed'' []) (print (Stdout ''connected as user: %s'' [FStr ''u'']) ex_tool))"
    by (simp add: checkPrivileges_def missing_privileges_def require_privilege_def bind_sum_def ex_server_def)
  obtain s2 where s2: "run_files ex_server (setup_replacer ex_args) False False (migration_files content)
      (print (Stdout ''privilege check passed'' []) (print (Stdout ''connected as user: %s'' [FStr ''u'']) ex_tool)) = (None, s2)"
    "server_db s2 = ex_db"
    using ex_run_files [of "setup_replacer ex_args" "migration_files content"] by (fastforce simp: ex_tool_def)
  have m: "modern_time (100 * Hour)" "modern_time (101 * Hour)" by (simp_all add: modern_time_def)
  have r: "time_Parse RFC3339 (Format (100 * Hour) RFC3339) = Some (100 * Hour)"
    "time_Parse RFC3339 (Format (101 * Hour) RFC3339) = Some (101 * Hour)"
    using m [THEN modern_four_digit] by (simp_all add: Parse_Format_RFC3339 Truncate_def)
  have "\<exists>s3. create_initial ex_server (100 * Hour) ''public'' ''outbox'' s2 = (None, s3)"
    using r s2(2) by (simp add: create_initial_def h Let_def Exec_def ex_server_def sql_create_partition_def ex_db_def has_table_def)
  then show ?thesis
    using p s2 by (auto simp: runCreate_def readSQLFiles_embedded ex_args_def)
qed


lemma ex_destroy_runs:
  "\<exists>code s'. setup_main ex_server fs now [''pglg-setup'', ''destroy'', ''--conn-string=c'', ''--publication=p'', ''--slot=s''] ex_tool
     = Some (code, s') \<and> executed s' \<noteq> executed ex_tool"
proof -
  let ?nvs = "[(''conn-string'', ''c''), (''publication'', ''p''), (''slot'', ''s'')]"
  define m where "m = setup_flags ++ map_of (rev (map (\<lambda>(n, v). (n, VString v)) ?nvs))"
  have "flag_Parse setup_flags (map (\<lambda>(n, v). ''--'' @ n @ ''='' @ v) ?nvs) = Inr m"
    unfolding m_def by (rule flag_Parse_strings) (auto simp: setup_flags_def)
  then have p: "flag_Parse setup_flags [''--conn-string=c'', ''--publication=p'', ''--slot=s''] = Inr m" by simp
  have f: "flag_string m ''conn-string'' = ''c''" "flag_string m ''publication'' = ''p''" "flag_string m ''slot'' = ''s''"
    "flag_string m ''create-partitions'' = ''''" "\<not> flag_bool m ''replica''"
    by (simp_all add: m_def flag_string_def flag_bool_def setup_flags_def)
  have c: "check_flags ''destroy'' m = None" using f by (simp add: check_flags_def)
  obtain err s' where d: "runDestroy ex_server (flag_string m ''schema'') (flag_string m ''prefix'') ''p'' ''s'' ex_tool = (err, s')"
    by fastforce
  from runDestroy_result [OF d] have "executed s' \<noteq> executed ex_tool" by auto
  then show ?thesis
    using p f c d by (cases err) (simp_all add: setup_main_def partitions_start_def run_command_def ex_server_def)
qed

section \<open>Rounds of the reconnect loop\<close>

definition ex_run_state :: run_state where
  "ex_run_state = \<lparr>run_driver = ex_driver, run_backoff = new_backoff ex_config, run_world = ex_world,
     run_waits = [], run_pools = [''host=db'']\<rparr>"

text \<open>A round in which the slot is in use, and one in which the connection breaks after streaming
  has started.\<close>

definition ex_busy_session :: session_env where
  "ex_busy_session = ex_session\<lparr>se_start := (\<lambda>slot l args. Some (PgError ObjectInUse ''busy''))\<rparr>"

definition ex_busy_round :: "go_error option \<Rightarrow> round_env" where
  "ex_busy_round cancelled = \<lparr>re_session = ex_busy_session, re_ctx = None, re_int64n = (\<lambda>n. 0), re_float64 = 1/2,
     re_wait = cancelled\<rparr>"

definition ex_broken_session :: session_env where
  "ex_broken_session = ex_session\<lparr>se_rounds := [(ex_round 2 '''')\<lparr>ie_receive := (\<lambda>deadline. Inl (ExtError ''broken''))\<rparr>]\<rparr>"

definition ex_failing_round :: "go_error option \<Rightarrow> round_env" where
  "ex_failing_round cancelled = \<lparr>re_session = ex_broken_session, re_ctx = None, re_int64n = (\<lambda>n. 0), re_float64 = 1/2,
     re_wait = cancelled\<rparr>"

lemma ex_failing_runOnce:
  "\<exists>err w. runOnce decimal_lsn_api (ex_api 0) ex_broken_session ex_driver ex_world = (Failed err, ex_leader, w) \<and>
     \<not> errors_Is err ErrSlotBusy"
proof -
  have "readCursor decimal_lsn_api None ex_driver (cursors ex_world) = Inr 0"
    by (simp add: readCursor_def ex_world_def)
  then show ?thesis
    by (simp add: runOnce_def ex_broken_session_def ex_session_def connect_def newWALConsumer_def startStreaming_def
        ex_acquire processWALStream_def stream_start_def iteration_def batch_due_def standby_due_def receive_step_def
        receiveMessage_def ex_round_def ex_api_def deferred_close_def close_def Let_def)
qed

section \<open>A deployment\<close>

text \<open>Processes of the same configuration, none of them started.\<close>

definition ex_deployment :: deployment where
  "ex_deployment = \<lparr>shared = ex_world, procs = (\<lambda>i. \<lparr>p_run = ex_run_state, p_phase = Ready\<rparr>),
     removed = (\<lambda>t. []), cleaned_at = []\<rparr>"

lemma ex_deployment_view: "view ex_deployment i = ex_run_state" "shared ex_deployment = ex_world"
  by (simp_all add: ex_deployment_def view_def ex_run_state_def)

lemma ex_deployment_init:
  "dep_init (cfg ex_driver) ex_deployment" "covered ex_driver ex_log (shared ex_deployment)"
  "statuses (shared ex_deployment) = []"
  by (simp_all add: dep_init_def ex_deployment_def ex_run_state_def covered_def ex_log_def ex_world_def cursor_at_def)

definition ex_streaming_round :: round_env where
  "ex_streaming_round = \<lparr>re_session = ex_session, re_ctx = None, re_int64n = (\<lambda>n. 0), re_float64 = 1/2, re_wait = None\<rparr>"

lemma ex_deployment_run:
  "run_loop fl decimal_lsn_api (ex_api 0) [ex_streaming_round] ex_run_state =
     InSession (ex_run_state\<lparr>run_driver := ex_leader, run_world := world (ex_done 0)\<rparr>)"
  using ex_runOnce [of 0] by (simp add: run_round_def ex_streaming_round_def ex_run_state_def)

lemma ex_deployment_reach:
  "\<exists>s. dep_reachable fl decimal_lsn_api (ex_api 0) ex_log ex_deployment s \<and> shared s = world (ex_done 0)"
proof -
  have "slot_free ex_deployment" by (simp add: slot_free_def streaming_def ex_deployment_def)
  moreover have "p_phase (procs ex_deployment 0) = Ready" by (simp add: ex_deployment_def)
  moreover have "run_driver ex_run_state = ex_driver" "run_world ex_run_state = ex_world"
    by (simp_all add: ex_run_state_def)
  ultimately have "session_phase fl decimal_lsn_api (ex_api 0) ex_log 0 Streaming
      ((view ex_deployment 0)\<lparr>run_driver := ex_leader, run_world := world (ex_done 0)\<rparr>) ex_deployment"
    using ex_runOnce [of 0] ex_faithful [of 0]
    by (intro runOnce_steps) (simp_all add: ex_deployment_view)
  then obtain resume st s where "dep_reachable fl decimal_lsn_api (ex_api 0) ex_log ex_deployment s"
    "moved 0 (InStream resume st) ((view ex_deployment 0)\<lparr>run_driver := ex_leader, run_world := world (ex_done 0)\<rparr>) ex_deployment s"
    by (auto simp: session_phase_def reaches_def)
  then show ?thesis using moved_shared by fastforce
qed

section \<open>A batch that waits\<close>

text \<open>The same messages with a larger batch size: the row waits for the batch deadline, one second
  after the commit.\<close>

definition ex_slow :: driver where
  "ex_slow = ex_leader\<lparr>cfg := ex_config\<lparr>MaxBatchSize := 10\<rparr>\<rparr>"

definition ex_waiting :: stream where
  "ex_waiting = (ex_st3 0)\<lparr>wal := ex_wal 201 ex_relations, buf := \<lparr>inserts = []\<rparr>, pendingInserts := [ex_row],
     pendingCommitLSN := 200, inTx := False, nextBatchAt := 2 + Second, decoded := ex_messages\<rparr>"

lemma ex_slow_cfg [simp]: "cfg ex_slow = ex_config\<lparr>MaxBatchSize := 10\<rparr>"
  by (simp add: ex_slow_def)

lemma ex_slow_start: "stream_start ex_slow 1 (started_consumer ex_config 0) 0 ex_started = ex_start"
  by (simp add: ex_start_def stream_start_def)

lemma ex_slow_rounds:
  "iteration la (ex_api 0) ex_slow (ex_round 2 ''wb'') ex_start = Running ex_st1"
  "iteration la (ex_api 0) ex_slow (ex_round 2 ''wr'') ex_st1 = Running ex_st2"
  "iteration la (ex_api 0) ex_slow (ex_round 2 ''wi'') ex_st2 = Running (ex_st3 0)"
  "iteration la (ex_api 0) ex_slow (ex_round 2 ''wc'') (ex_st3 0) = Running ex_waiting"
  by (simp_all add: ex_step_defs ex_state_defs ex_round_def ex_api_def received_def sent_def setRelation_def parseInsert_def
      ex_parse TupleDataTypeNull_def addInsert_def size_flush_def commit_rows_def recordRowAge_def ex_row_fields
      ex_waiting_def emit_def reset_def)

lemma ex_slow_run: "processWALStream la (ex_api 0) ex_slow 1 ex_rounds (started_consumer ex_config 0) 0 ex_started = Running ex_waiting"
  by (simp add: processWALStream_def ex_slow_start ex_rounds_def ex_slow_rounds)

lemma ex_accept_each: "answers_each ex_accept"
  unfolding answers_each_def
proof
  fix jobs :: "Job list"
  have "map r_CorrelationID (map (\<lambda>j. \<lparr>r_CorrelationID = CorrelationID j, r_Err = '''', r_Reason = '''', r_JobID = ''ok''\<rparr>) jobs) =
      map CorrelationID jobs" by simp
  then show "\<exists>results. ex_accept jobs = Inr results \<and> mset (map r_CorrelationID results) = mset (map CorrelationID jobs)"
    unfolding ex_accept_def by (metis (no_types, lifting))
qed

lemma ex_flush_healthy: "healthy_flush ex_flush" "healthy_tx ex_tx"
  by (simp_all add: healthy_flush_def healthy_tx_def ex_accept_each ex_flush_def ex_tx_def)

lemma ex_healthy: "msg \<noteq> [] \<Longrightarrow> healthy (ex_api 0) (ex_round t msg)"
  by (auto simp: healthy_def ex_flush_healthy readable_def ex_round_def ex_api_def split: list.splits)

text \<open>A round at the deadline, which receives nothing new.\<close>

definition ex_timeout :: iter_env where
  "ex_timeout = (ex_round (2 + Second) ''w'')\<lparr>ie_receive := (\<lambda>deadline. Inl DeadlineExceeded)\<rparr>"

lemma ex_timeout_healthy: "healthy (ex_api 0) ex_timeout"
  by (simp add: healthy_def ex_flush_healthy readable_def ex_timeout_def ex_round_def ex_api_def)

lemma ex_timeout_decoded: "decoded (result_state (iteration decimal_lsn_api (ex_api 0) ex_slow ex_timeout ex_waiting)) = ex_messages"
proof -
  let ?it = "iteration decimal_lsn_api (ex_api 0) ex_slow ex_timeout ex_waiting"
  have recv: "receive_step decimal_lsn_api (ex_api 0) ex_slow ex_timeout st = Running st" for st :: stream
    by (simp add: receive_step_def receiveMessage_def ex_timeout_def ex_api_def sent_def)
  have run: "ie_done ex_timeout = None" by (simp add: ex_timeout_def ex_round_def)
  obtain r now where b: "batch_due decimal_lsn_api ex_slow ex_timeout ex_waiting = (r, now)" by fastforce
  then have r: "decoded (result_state r) = ex_messages"
    using decoded_batch [of decimal_lsn_api ex_slow ex_timeout ex_waiting] by (simp add: ex_waiting_def)
  then show ?thesis
  proof (cases r)
    case (Running m)
    then show ?thesis using r b run recv decoded_standby [of decimal_lsn_api ex_slow ex_timeout now m]
      by (cases "standby_due decimal_lsn_api ex_slow ex_timeout now m") (simp_all add: iteration_def)
  qed (use r b run in \<open>simp add: iteration_def\<close>)
qed

section \<open>A benchmark run\<close>

definition ex_bench_env :: "unit bench_env" where
  "ex_bench_env = \<lparr>ben_pool = (\<lambda>s. None), ben_ping = None, ben_exec = (\<lambda>q as db. (None, db)), ben_driver_pool = (\<lambda>s. None),
     ben_logger = CustomLogger, ben_start = 0,
     ben_rounds = [\<lparr>sv_now = 0, sv_event = Ticked, sv_copy = (\<lambda>t cs rs. None), sv_lag = (\<lambda>q s. Inr 5)\<rparr>,
                   \<lparr>sv_now = 100 * Second, sv_event = Ticked, sv_copy = (\<lambda>t cs rs. None), sv_lag = (\<lambda>q s. Inr 5)\<rparr>],
     ben_took = 100 * Second, ben_stopped = True\<rparr>"

definition ex_bench :: "unit bench" where
  "ex_bench = \<lparr>bench_db = (), bn_lines = [], bn_pool_open = False, bn_started = None, bn_cancelled = False\<rparr>"


lemma ex_bench_flags: "parseFlags [] = Inr \<lparr>b_connString = ''host=127.0.0.1 port=15434 user=pglg password=pglg dbname=pglg sslmode=disable'',
    b_schema = ''public'', b_prefix = ''bench'', b_publication = ''bench_pub'', b_slot = ''bench_slot'', b_rate = 2000,
    b_duration = 60 * Second, b_submitLatency = 0, b_payloadSize = 256, b_batchSize = 100\<rparr>"
  by (simp add: parseFlags_def bench_flags_def flag_string_def flag_int_def flag_duration_def)

lemma ex_bench_answers:
  "ben_pool ex_bench_env x = None" "ben_ping ex_bench_env = None" "ben_driver_pool ex_bench_env = (\<lambda>s. None)"
  "ben_logger ex_bench_env = CustomLogger" "bench_db ex_bench = ()"
  by (simp_all add: ex_bench_env_def ex_bench_def)

lemma ex_lags_fit: "lags_fit ex_bench_env"
  by (simp add: lags_fit_def ex_bench_env_def slotLag_def)

lemma ex_bench_runs: "\<exists>s'. bench_main (\<lambda>x. x) ex_bench_env [] ex_bench = (Exit 0, s')"
proof -
  obtain c where c: "parseFlags [] = Inr c" "b_payloadSize c = 256" "b_duration c = 60 * Second" "b_connString c \<noteq> []"
      "b_slot c \<noteq> []" "b_publication c \<noteq> []"
    using ex_bench_flags by simp
  have "run_statements (\<lambda>q as db. (None, db)) sts () = (None, ())" for sts :: "(string \<times> sql_arg list \<times> (go_error \<Rightarrow> go_error)) list"
    by (induction sts) auto
  then have r: "bench_reset (ben_exec ex_bench_env) c () = (None, ())" by (simp add: bench_reset_def ex_bench_env_def)
  have "validate (bench_driver_config c CustomLogger) = None"
    using c by (simp add: validate_None bench_driver_config_def zero_Config_def)
  then obtain d opened where n: "New (\<lambda>s. None) (bench_driver_config c CustomLogger) = (Inr d, opened)"
    using New_succeeds by blast
  have "\<exists>rows. job_rows c (per_tick c) = Some rows" using c(2) per_tick_pos [of c] by (simp add: job_rows_def)
  then have "\<exists>r. runSteady (\<lambda>x. x) c (ben_start ex_bench_env) (ben_rounds ex_bench_env) (ben_took ex_bench_env) = Some (Inr r)"
    using c(3) by (auto simp: runSteady_def ex_bench_env_def insertJobs_def slotLag_def)
  then obtain r where s: "runSteady (\<lambda>x. x) c (ben_start ex_bench_env) (ben_rounds ex_bench_env) (ben_took ex_bench_env) = Some (Inr r)"
    by blast
  then have "steady_loop c (ben_start ex_bench_env + b_duration c) (ben_rounds ex_bench_env) 0 [] \<noteq> SteadyPanic"
    by (auto simp: runSteady_def)
  moreover have "\<exists>s'. bench_finish (\<lambda>x. x) ex_bench_env c r b = (Exit 0, s')" if "bn_started b = Some d" for b
    using bench_finish_ok [OF s ex_lags_fit, of ex_bench b d opened] r n that by (auto simp: ex_bench_answers)
  ultimately have "\<exists>s'. bench_measure (\<lambda>x. x) ex_bench_env c b = (Exit 0, s')" if "bn_started b = Some d" for b
    using s that by (simp add: bench_measure_def)
  with n r c(1) show ?thesis
    by (simp add: bench_main_def ex_bench_answers say_def Let_def)
qed

end
