(* ===== verification/Spec2Isabelle.thy ===== *)
theory Spec2Isabelle
  imports Pglg_Deployment Pglg_Progress Pglg_Maintenance Pglg_Setup Pglg_Bench Pglg_Example
begin

text \<open>
  A verification of \<open>jack-courier-driver-pglg\<close>, a driver that reads jobs from a transactional outbox
  in PostgreSQL by logical replication and submits them to a service, with its setup and
  benchmark tools.

  \<^bold>\<open>The program.\<close> \<open>Run\<close> (\<open>driver.go\<close>) repeats sessions. A session (\<open>runOnce\<close>) reads the durable
  cursor (\<open>cursor.go\<close>), opens a replication connection (\<open>wal.go\<close>), becomes the leader and enters
  the receive loop \<open>processWALStream\<close>: it decodes messages (\<open>wal_parser.go\<close>), collects the rows of a
  transaction, and at each commit adds them to the pending batch, which is flushed when it is
  full or its time has come. A flush submits the batch, matches the answers to the rows and
  stores the rejected rows (\<open>dlq.go\<close>) and the cursor in one transaction; only then the position is
  confirmed to the server. While no row is pending the loop stores the received position
  instead. After an error \<open>Run\<close> waits (\<open>backoff.go\<close>) and reconnects. Two more goroutines work while
  the process is the leader: partition maintenance (\<open>partition.go\<close>), on the primary and on
  replicas, and the cleanup of the dead letter table. \<open>cmd/pglg-setup\<close> creates and drops the
  tables, with the migrations of \<open>schema.go\<close>; \<open>cmd/pglg-bench\<close> measures the lag under load.

  \<^bold>\<open>The theories.\<close>
  \<^item> \<open>Pglg_Prelude\<close>: types, errors as values, metrics; the interface locales \<open>codec\<close> (a lossless text
    encoding), \<open>monotone_register\<close> and \<open>scripted_loop\<close> (a loop that consumes one answer of the
    environment per round), with the lemmas their clients use.
  \<^item> \<open>Go_Float\<close>: rounding to \<open>float64\<close>, computable, with its monotonicity and the numbers it leaves
    alone. \<open>Go_Strings\<close>, \<open>Go_Time\<close>, \<open>Go_Layout\<close>, \<open>Go_Flag\<close>: what the code uses of \<open>strconv\<close>,
    \<open>encoding/hex\<close>, \<open>strings\<close>, \<open>unicode/utf8\<close>, \<open>time\<close> (calendar, \<open>Format\<close>, \<open>Parse\<close>) and \<open>flag\<close>.
  \<^item> \<open>Pglg_Config\<close>: \<open>Config\<close>, \<open>setDefaults\<close>, \<open>validate\<close>, \<open>ConfigFromEnv\<close>, \<open>New\<close>.
  \<^item> \<open>Pglg_Wal_Parser\<close>, \<open>Pglg_Wal\<close>, \<open>Pglg_Cursor\<close>, \<open>Pglg_Dlq\<close>, \<open>Pglg_Backoff\<close>: one per source file.
    The flush position, the received position and the durable cursor are interpretations of
    \<open>monotone_register\<close>; correlation ids, byte columns and partition names of \<open>codec\<close>.
  \<^item> \<open>Pglg_Stream\<close>: the receive loop and the flush, one definition per block of the Go loop body,
    over a record of its local variables and of the world (cursor table, dead letter table,
    submissions, status updates, metrics, replication connections). The loop is an interpretation of \<open>scripted_loop\<close>; the
    locale \<open>stream_invariant\<close> lifts a step-wise invariant to sessions.
  \<^item> \<open>Pglg_Delivery\<close>: the abstract transaction log a session should deliver, and the invariants of
    the session as interpretations of \<open>stream_invariant\<close>: conservation of rows, durability of
    confirmed positions, the batch deadline, delivery against the server's log, growth, the
    connection. \<open>Pglg_Progress\<close>: a session in a healthy environment does not return and works off
    its backlog by the batch deadline.
  \<^item> \<open>Pglg_Leadership\<close>: the leader flag and the interleaving of the three goroutines as a step
    relation, with the ledger of acquisitions and the wake-ups of the maintenance. \<open>Pglg_Run\<close>:
    \<open>runOnce\<close> with the deferred closing of the connection, the reconnect loop, \<open>Run\<close> with its
    deferred closing of the pools; the locale \<open>run_invariant\<close> lifts an invariant of a round to the
    loop.
  \<^item> \<open>Pglg_Deployment\<close>: any number of processes of one configuration on one database and one slot, as
    a step relation whose steps are the parts of \<open>runOnce\<close> and \<open>Run\<close>, the dead letter cleanup and
    restarts; the invariant of the deployment, and that the loop of \<open>Run\<close> is a sequence of its steps.
  \<^item> \<open>Pglg_Partition\<close>, \<open>Pglg_Maintenance\<close>: partitions as tables of a database and rows of the meta
    table; creation and expiry on the primary and on replicas, the round and the goroutine.
  \<^item> \<open>Pglg_Setup\<close>, \<open>Pglg_Bench\<close>: the tools, each with its \<open>main\<close>. \<open>Pglg_Example\<close>: a concrete environment, for the
    witnesses.

  \<^bold>\<open>How the code is modelled.\<close> Each function of the code is a function on explicit state. What the
  code does not compute itself (answers of the server, of the service and of libraries, clock
  readings, random numbers, cancellation) is an argument; where a loop asks again each round
  there is one record of answers per round, and a list of them is a run. A list that ends while
  the loop is running is a run that was cut off there, as by a crash. LSNs are 64-bit words, and
  arithmetic on durations that may overflow wraps. A \<open>float64\<close> is a rational and each operation is
  followed by a rounding \<open>fl\<close>, of which \<open>rounding fl\<close> says what the proofs need; \<open>float64\<close> satisfies it. \<open>pglogrepl\<close>,
  \<open>pgconn\<close>, \<open>pgx\<close> and the submit function are parameters; \<open>lsn_api_ok\<close>, \<open>zero_means_write\<close>,
  \<open>reads_RFC3339\<close> and \<open>partition_server\<close> name what is relied on of them. Format strings and their
  arguments are kept as they are, so that error chains can be inspected; printing of \<open>%q\<close>, \<open>%v\<close>
  and floats is not modelled, nor is logging.

  \<^bold>\<open>Termination.\<close> The loops over a partition window may not end when the interval is not positive:
  \<open>range_loop\<close> is a partial function, and the theorems on maintenance and on the back-fill show
  that it returns for the intervals the code can have. All other loops are total functions; no
  fuel is used.

  \<^bold>\<open>What is shown.\<close> Delivery: at-least-once in a deployment with failovers, crashes and cleanups; the
  steps of the deployment are those of \<open>Run\<close>; progress while the environment answers; a session does
  not depend on the dead letters; conservation of rows, atomic flushes, honest confirmations; and
  where the code falls short of it (\<open>idle_flush_skips_transaction\<close>). The row parser inverts
  Postgres' output. The matching of responses and the dead letters. Coverage and safety of
  partition maintenance. The leadership ledger, the wake-ups of the maintenance and the waits
  between sessions. Which environments give a driver, that every driver is well formed and stays
  so, and that no pool or connection is leaked. What the setup tool sends and when, and that the
  driver can start from it. How the benchmark ends and what it reports. Delivery assumes that the
  received position never passes a commit still to come, which the server does not promise for
  the position the code computes; \<open>idle_flush_skips_transaction\<close> is a run where this loses a row.

  \<^bold>\<open>Not modelled.\<close> Logging; the text of the SQL migrations; timeouts of contexts other than as errors
  of the calls under them; the printing of numbers by \<open>fmt\<close>. Within a process the goroutines are
  interleaved on the leader flag and the wake-up channel, which is what they share; between
  processes the sessions and the dead letter cleanup are interleaved on the database. Partition
  maintenance works on tables no other part reads or writes, and is modelled apart. While the
  benchmark samples, its driver is not stepped: the lags are answers of the server.
\<close>

section \<open>Delivery\<close>

text \<open>C1: at-least-once delivery in a deployment of any number of processes that
  stream from the slot in turn, fail, crash, restart, take over with a cursor they read earlier, and
  clean up dead letters between any two steps of each other. Let the server commit the
  transactions \<open>L\<close> in LSN order, give the slot to one process at a time, send each stream a prefix of
  the transactions after the point it resumes from, and let the received position never pass a
  commit that is still to come. Then every row of every transaction the durable cursor has passed
  was answered for by the service: it was accepted, or its rejection was stored in the dead letter
  table, where it still is or from where a cleanup removed it after the retention.\<close>

theorem failover_at_least_once:
  assumes "lsn_api_ok la" "sorted_wrt (<) (map fst L)" "dep_init (cfg d) s0" "covered d L (shared s0)"
    "\<And>u. u \<in> set (statuses (shared s0)) \<Longrightarrow> WALFlushPosition u \<le> driver_cursor d (cursors (shared s0))"
    "dep_reachable fl la api L s0 s"
    "(l, rows) \<in> set L" "l \<le> driver_cursor d (cursors (shared s))" "p \<in> set rows"
  shows "answered d s p"
  by (rule deployment_answers [OF assms])

theorem failover_at_least_once_witness:
  "\<exists>s. dep_reachable (\<lambda>x. x) decimal_lsn_api (ex_api 0) ex_log ex_deployment s \<and> answered ex_driver s ex_row"
proof -
  obtain s where s: "dep_reachable (\<lambda>x. x) decimal_lsn_api (ex_api 0) ex_log ex_deployment s" "shared s = world (ex_done 0)"
    using ex_deployment_reach by blast
  have "answered ex_driver s ex_row"
    by (rule failover_at_least_once [OF decimal_lsn_api_ok _ ex_deployment_init(1,2) _ s(1), of 200 "[ex_row]"])
      (use ex_round4(9) [of 0] ex_deployment_init(3) s(2) in \<open>simp_all add: ex_log_def\<close>)
  with s(1) show ?thesis by blast
qed



text \<open>C3: progress. Let the database and the connection answer without
  errors, the service return one result per job, accepting or rejecting it, and the server send a
  prefix of a log whose rows have ids of their own. Then a session does not return; and once a
  round has begun at or after the batch deadline, every transaction with rows that was received
  before it is passed by the durable cursor and each of its rows was answered for.\<close>

theorem healthy_session_progresses:
  assumes "lsn_api_ok la" "0 < MaxBatchSize (cfg d)" "relations wc = Map.empty"
    and "\<And>en. en \<in> set ens \<Longrightarrow> healthy api en \<and> clock_ok d en"
    and "received_prefix L (result_state (processWALStream la api d now ens wc start w))"
    and "distinct (map pid (tx_rows L))" "\<And>p. p \<in> set (tx_rows L) \<Longrightarrow> int64_range (pid p)"
  shows "\<exists>st. processWALStream la api d now ens wc start w = Running st \<and>
    (\<forall>pre en suf st1 l rows. ens = pre @ en # suf \<longrightarrow> processWALStream la api d now pre wc start w = Running st1 \<longrightarrow>
       nextBatchAt st1 \<le> ie_now en \<longrightarrow> (l, rows) \<in> set (t_done (txs_of (decoded st1))) \<longrightarrow> rows \<noteq> [] \<longrightarrow>
       l \<le> driver_cursor d (cursors (world st)) \<and> (\<forall>p \<in> set rows. settled d (world st) p))"
proof -
  have "unique_ids (result_state (processWALStream la api d now ens wc start w))"
    by (rule unique_ids_log [OF assms(5-7)])
  from session_progress [OF assms(1-4) this] obtain st where st: "processWALStream la api d now ens wc start w = Running st"
    and fin: "\<And>pre en suf st1 t. ens = pre @ en # suf \<Longrightarrow> processWALStream la api d now pre wc start w = Running st1 \<Longrightarrow>
       nextBatchAt st1 \<le> ie_now en \<Longrightarrow> t \<in> set (t_done (txs_of (decoded st1))) \<Longrightarrow> finished d (world st) t" by blast
  show ?thesis
    using st fin [unfolded finished_def] by fastforce
qed

text \<open>A row that waits in its batch for a second.\<close>

theorem healthy_session_progresses_witness:
  "pendingInserts ex_waiting = [ex_row] \<and>
   (\<exists>st. processWALStream decimal_lsn_api (ex_api 0) ex_slow 1 (ex_rounds @ [ex_timeout]) (started_consumer ex_config 0) 0 ex_started =
       Running st \<and> 200 \<le> driver_cursor ex_slow (cursors (world st)) \<and> settled ex_slow (world st) ex_row)"
proof -
  let ?P = "\<lambda>ens. processWALStream decimal_lsn_api (ex_api 0) ex_slow 1 ens (started_consumer ex_config 0) 0 ex_started"
  have run: "?P ex_rounds = Running ex_waiting" by (rule ex_slow_run)
  then have "?P (ex_rounds @ [ex_timeout]) = iteration decimal_lsn_api (ex_api 0) ex_slow ex_timeout ex_waiting"
    by (simp add: processWALStream_def receive_loop.run_append split: loop_result.splits)
  then have "received_prefix ex_log (result_state (?P (ex_rounds @ [ex_timeout])))"
    using ex_timeout_decoded by (simp add: received_prefix_def ex_txs ex_log_def)
  moreover have "healthy (ex_api 0) en \<and> clock_ok ex_slow en" if "en \<in> set (ex_rounds @ [ex_timeout])" for en
    using that ex_healthy ex_timeout_healthy by (auto simp: ex_rounds_def clock_ok_def ex_round_def ex_timeout_def)
  ultimately obtain st where st: "?P (ex_rounds @ [ex_timeout]) = Running st"
    and fin: "\<forall>pre en suf st1 l rows. ex_rounds @ [ex_timeout] = pre @ en # suf \<longrightarrow> ?P pre = Running st1 \<longrightarrow>
       nextBatchAt st1 \<le> ie_now en \<longrightarrow> (l, rows) \<in> set (t_done (txs_of (decoded st1))) \<longrightarrow> rows \<noteq> [] \<longrightarrow>
       l \<le> driver_cursor ex_slow (cursors (world st)) \<and> (\<forall>p \<in> set rows. settled ex_slow (world st) p)"
    using healthy_session_progresses [OF decimal_lsn_api_ok, of ex_slow "started_consumer ex_config 0" "ex_rounds @ [ex_timeout]"
        "ex_api 0" ex_log 1 0 ex_started] by (auto simp: ex_log_def ex_row_fields int64_range_def)
  have "nextBatchAt ex_waiting \<le> ie_now ex_timeout" "(200, [ex_row]) \<in> set (t_done (txs_of (decoded ex_waiting)))"
    by (simp_all add: ex_waiting_def ex_timeout_def ex_round_def ex_txs)
  with fin run have "200 \<le> driver_cursor ex_slow (cursors (world st)) \<and> settled ex_slow (world st) ex_row" by fastforce
  then show ?thesis using st by (auto simp: ex_waiting_def)
qed




text \<open>C6: no status update ever confirms more than the durable cursor. At
  every point of a session, and when it returns, the flush position of every update sent is at
  most the position stored in the cursor table, and so is the consumer's own flush position.\<close>

theorem confirmed_position_durable:
  assumes "lsn_api_ok la" "flushLSN wc \<le> driver_cursor d (cursors w)"
    "\<And>u. u \<in> set (statuses w) \<Longrightarrow> WALFlushPosition u \<le> driver_cursor d (cursors w)"
    "st = result_state (processWALStream la api d now ens wc start w)"
  shows "flushLSN (wal st) \<le> driver_cursor d (cursors (world st)) \<and>
    (\<forall>u \<in> set (statuses (world st)). WALFlushPosition u \<le> driver_cursor d (cursors (world st)))"
proof -
  let ?I = "\<lambda>st. lsn_api_ok la \<longrightarrow> confirmed_durable d st"
  have "confirmed_durable d (stream_start d now wc start w)"
    using assms(2,3) by (simp add: confirmed_durable_def stream_start_def)
  then have "result_holds ?I ?I (processWALStream la api d now ens wc start w)"
    unfolding processWALStream_def by (intro confirmation.stream_inv) simp_all
  then show ?thesis using assms(1,4) by (simp add: result_holds_state confirmed_durable_def)
qed

theorem confirmed_position_durable_witness:
  "flushLSN (wal (ex_done 0)) \<le> driver_cursor ex_leader (cursors (world (ex_done 0)))"
  using confirmed_position_durable [OF decimal_lsn_api_ok, of "started_consumer ex_config 0" ex_leader
      ex_started
      "ex_done 0" "ex_api 0" 1 ex_rounds 0] ex_run [of 0 "[]"]
  by (simp add: processWALStream_def ex_start_def ex_world_def)

text \<open>C7: a flush is all or nothing. Either the cursor and the dead letter table
  are both untouched and the caller gets an error, or the service answered for the batch
  consistently, the rejected rows are appended to the dead letter table and the cursor is raised
  to the commit LSN, in one transaction. The consumer's flush position moves only on success.\<close>

theorem flushBatch_atomic:
  assumes "lsn_api_ok la" "ins \<noteq> []" "flushBatch la fe d ins l wc w = (err, wc', w')"
  shows "(err \<noteq> None \<and> cursors w' = cursors w \<and> dlqs w' = dlqs w \<and> wc' = wc) \<or>
    (\<exists>results rows. fe_submit fe (map toJob ins) = Inr results \<and> mapResults ins results = Inr rows \<and>
       cursors w' = driver_upsert d l (cursors w) \<and>
       dlqs w' (dlqTable (cfg d)) = dlqs w (dlqTable (cfg d)) @ map (dlq_entry_of (tx_now (fe_tx fe))) rows \<and>
       flushLSN wc' = (if err = None then max (flushLSN wc) l else flushLSN wc))"
  using assms
proof (cases rule: flushBatch_cases)
  case (applied results rows)
  then show ?thesis by (cases err) (intro disjI2 exI [of _ results] exI [of _ rows]; simp)+
qed simp

theorem flushBatch_atomic_witness:
  "\<exists>err wc' w'. flushBatch decimal_lsn_api ex_flush ex_driver [ex_row] 200 (started_consumer ex_config 0) ex_world
      = (err, wc', w') \<and>
    ((err \<noteq> None \<and> cursors w' = cursors ex_world) \<or> cursors w' = driver_upsert ex_driver 200 (cursors ex_world))"
proof -
  obtain err wc' w' where f: "flushBatch decimal_lsn_api ex_flush ex_driver [ex_row] 200
      (started_consumer ex_config 0) ex_world = (err, wc', w')"
    using prod_cases3 by blast
  from flushBatch_atomic [OF decimal_lsn_api_ok _ this] f show ?thesis by auto
qed

text \<open>C8: whatever happens in a session, the durable cursor does not move
  back, nothing is removed from the dead letter table, and the log of submissions only grows.\<close>

theorem cursor_never_moves_back:
  assumes "lsn_api_ok la" "runOnce la api se d w = (res, d', w')"
  shows "driver_cursor d (cursors w) \<le> driver_cursor d (cursors w') \<and>
    prefix (dlqs w (dlqTable (cfg d))) (dlqs w' (dlqTable (cfg d))) \<and>
    prefix (submissions w) (submissions w')"
  using assms(2)
proof (cases rule: runOnce_cases)
  case (streamed start)
  then show ?thesis using session_world_le [OF assms(1), of d w api se start] by (simp add: world_le_def)
qed simp

theorem cursor_never_moves_back_witness:
  "driver_cursor ex_driver (cursors ex_world) \<le> driver_cursor ex_driver (cursors (world (ex_done 0)))"
  using cursor_never_moves_back [OF decimal_lsn_api_ok ex_runOnce [of 0]] by blast

text \<open>C9: the assumption on the received position in the delivery
  theorem is needed, and the code does not establish it. \<open>receiveMessage\<close> takes the end of a
  message to be its WAL start plus the length of the decoded payload, which can exceed the stretch
  of WAL the message came from; the idle flush then stores that position. In this run the session
  is sent the first of two committed transactions; the idle flush moves the durable cursor to 400,
  past the second commit at 230, whose row was never submitted, and a session that starts from
  there is not sent it.\<close>

theorem idle_flush_skips_transaction:
  "\<exists>w'. runOnce decimal_lsn_api (ex_api 299) ex_idle_session ex_driver ex_world = (Streaming, ex_leader, w') \<and>
     driver_cursor ex_driver (cursors w') = 400 \<and>
     \<not> settled ex_driver w' (ex_row\<lparr>pid := 8\<rparr>) \<and>
     pending_log 400 [(200, [ex_row]), (230, [ex_row\<lparr>pid := 8\<rparr>])] = []"
proof (intro exI conjI)
  show "runOnce decimal_lsn_api (ex_api 299) ex_idle_session ex_driver ex_world = (Streaming, ex_leader, world (ex_idled 299))"
    by (rule ex_idle_runOnce)
  have "toJob ex_row \<noteq> toJob (ex_row\<lparr>pid := 8\<rparr>)"
    using correlation.enc_inj [of 7 8] by (simp add: toJob_def ex_row_def int64_range_def)
  then show "\<not> settled ex_driver (world (ex_idled 299)) (ex_row\<lparr>pid := 8\<rparr>)"
    by (auto simp: settled_def ex_idle_round(3))
  show "driver_cursor ex_driver (cursors (world (ex_idled 299))) = 400" by (rule ex_idle_round(2))
qed (simp add: pending_log_def)

text \<open>C10: at the head of the receive loop a batch deadline is set exactly
  while rows are pending, the pending rows are fewer than the configured batch size, and the
  deadline handed to the receive call is the earlier of the next status update and, while rows
  are pending, the batch deadline. So a batch that is not full is flushed by time.\<close>

theorem batch_deadline_tracks_pending:
  assumes "0 < MaxBatchSize (cfg d)" "\<And>en. en \<in> set ens \<Longrightarrow> clock_ok d en"
    and "processWALStream la api d now ens wc start w = Running st"
  shows "(nextBatchAt st \<noteq> 0 \<longleftrightarrow> pendingInserts st \<noteq> []) \<and>
    int (length (pendingInserts st)) < MaxBatchSize (cfg d) \<and>
    nextReceiveDeadline (nextBatchAt st) (nextStandbyAt st) =
      (if pendingInserts st = [] then nextStandbyAt st else min (nextBatchAt st) (nextStandbyAt st))"
proof -
  have "result_holds (\<lambda>st. 0 < MaxBatchSize (cfg d) \<longrightarrow> timed d st) (\<lambda>_. True)
      (processWALStream la api d now ens wc start w)"
    unfolding processWALStream_def using assms(1,2)
    by (intro timing.stream_inv) (simp_all add: timed_def stream_start_def)
  then have "timed d st" using assms by simp
  then show ?thesis by (auto simp: timed_def nextReceiveDeadline_def min_def)
qed

theorem batch_deadline_tracks_pending_witness:
  "nextBatchAt (ex_done 0) \<noteq> 0 \<longleftrightarrow> pendingInserts (ex_done 0) \<noteq> []"
proof -
  have "processWALStream decimal_lsn_api (ex_api 0) ex_leader 1 ex_rounds (started_consumer ex_config 0) 0
      ex_started = Running (ex_done 0)"
    using ex_run [of 0 "[]"] by (simp add: processWALStream_def ex_start_def)
  moreover have "clock_ok ex_leader en" if "en \<in> set ex_rounds" for en
    using that by (auto simp: ex_rounds_def ex_round_def clock_ok_def)
  ultimately show ?thesis using batch_deadline_tracks_pending [of ex_leader ex_rounds decimal_lsn_api "ex_api 0" 1] by simp
qed

section \<open>Replication protocol\<close>

text \<open>C11: \<open>pglogrepl\<close> replaces a zero flush or apply position by the write
  position. Even so, what a status update puts on the wire confirms exactly the consumer's flush
  position, and its write position is not behind it.\<close>

theorem status_update_honest:
  assumes "zero_means_write wire" "wire (standbyStatusUpdate wc now) = (written, flushed, applied)"
  shows "flushed = flushLSN wc \<and> applied = flushLSN wc \<and> flushed \<le> written"
  by (rule status_on_wire [OF assms])

theorem status_update_honest_witness:
  "snd (snd (let u = standbyStatusUpdate (started_consumer ex_config 0) 5 in
     (WALWritePosition u, if WALFlushPosition u = 0 then WALWritePosition u else WALFlushPosition u,
      if WALApplyPosition u = 0 then WALWritePosition u else WALApplyPosition u))) = 0"
proof -
  let ?wire = "\<lambda>u. (WALWritePosition u, if WALFlushPosition u = 0 then WALWritePosition u else WALFlushPosition u,
    if WALApplyPosition u = 0 then WALWritePosition u else WALApplyPosition u)"
  have "zero_means_write ?wire" by (simp add: zero_means_write_def)
  from status_update_honest [OF this refl, of "started_consumer ex_config 0" 5] show ?thesis
    by (simp add: Let_def)
qed



text \<open>C13: in a session whose time zone has an offset of hours and minutes, such as
  \<open>+05:30\<close>, no layout reads the timestamp, so every row is refused.\<close>

theorem minute_zone_rejected:
  assumes "int64_range (pid p)" "pg_instant t" "is_sign s"
  shows "\<exists>e. parseInsertColumns outbox_columns
    ((pg_row_out p)[1 := text_value (Format t pg_local_layout @ pg_minute_zone s h1 h2 m1 m2)]) = Inl e"
  by (rule parseInsertColumns_minute_zone [OF assms])

theorem minute_zone_rejected_witness:
  "\<exists>e. parseInsertColumns outbox_columns
    ((pg_row_out ex_row)[1 := text_value (Format 0 pg_local_layout @ ''+05:30'')]) = Inl e"
  using minute_zone_rejected [of ex_row 0 "CHR ''+''" "CHR ''0''" "CHR ''5''" "CHR ''3''" "CHR ''0''"]
  by (simp add: ex_row_fields int64_range_def ex_instant pg_minute_zone_def is_sign_def)

section \<open>Dead letters\<close>

text \<open>C14: a response is accepted exactly when the ids of the batch are distinct and
  the response answers each of them once, in any order. Then the ids answered without an error and
  the ids of the dead letter rows together are the ids of the batch, each exactly once, and every
  dead letter row carries the data of the row it stands for.\<close>

theorem mapResults_accepts:
  assumes "\<And>p. p \<in> set ins \<Longrightarrow> int64_range (pid p)"
  shows "((\<exists>rows. mapResults ins results = Inr rows) \<longleftrightarrow>
      distinct (map pid ins) \<and> mset (map r_CorrelationID results) = mset (map (FormatInt \<circ> pid) ins)) \<and>
    (\<forall>rows. mapResults ins results = Inr rows \<longrightarrow>
       mset (map r_CorrelationID (filter (\<lambda>r. r_Err r = []) results)) + mset (map (FormatInt \<circ> dl_id) rows) =
         mset (map (FormatInt \<circ> pid) ins) \<and>
       (\<forall>row \<in> set rows. \<exists>p \<in> set ins. \<exists>r \<in> set results.
          r_CorrelationID r = FormatInt (pid p) \<and> r_Err r \<noteq> [] \<and> row = dlq_row_of p r))"
proof -
  have "distinct (map cid_of ins) \<longleftrightarrow> distinct (map pid ins)"
    using correlation.distinct_enc [of "map pid ins"] assms by (auto simp: comp_def)
  then have "(\<exists>rows. mapResults ins results = Inr rows) \<longleftrightarrow>
      distinct (map pid ins) \<and> mset (map r_CorrelationID results) = mset (map (FormatInt \<circ> pid) ins)"
    by (auto simp: mapResults_Inr comp_def)
  moreover have "mset (map r_CorrelationID (filter (\<lambda>r. r_Err r = []) results)) + mset (map (FormatInt \<circ> dl_id) rows) =
      mset (map (FormatInt \<circ> pid) ins)" if "mapResults ins results = Inr rows" for rows
    using mapResults_accounting [OF that] by (simp add: comp_def)
  moreover have "\<exists>p \<in> set ins. \<exists>r \<in> set results. r_CorrelationID r = FormatInt (pid p) \<and> r_Err r \<noteq> [] \<and> row = dlq_row_of p r"
    if "mapResults ins results = Inr rows" "row \<in> set rows" for rows row
    using rejected_row_origin [OF that] by metis
  ultimately show ?thesis by blast
qed

text \<open>A response that rejects one of two rows, in the other order.\<close>

theorem mapResults_accepts_witness:
  "\<exists>rows. mapResults [ex_row, ex_row\<lparr>pid := 8\<rparr>]
      [\<lparr>r_CorrelationID = FormatInt 8, r_Err = ''no'', r_Reason = [], r_JobID = []\<rparr>,
       \<lparr>r_CorrelationID = FormatInt 7, r_Err = [], r_Reason = [], r_JobID = ''j''\<rparr>] = Inr rows \<and>
     map (FormatInt \<circ> dl_id) rows = [FormatInt 8]"
proof -
  let ?ins = "[ex_row, ex_row\<lparr>pid := 8\<rparr>]"
  let ?res = "[\<lparr>r_CorrelationID = FormatInt 8, r_Err = ''no'', r_Reason = [], r_JobID = []\<rparr>,
    \<lparr>r_CorrelationID = FormatInt 7, r_Err = [], r_Reason = [], r_JobID = ''j''\<rparr>]"
  have "\<forall>p \<in> set ?ins. int64_range (pid p)" by (simp add: ex_row_fields int64_range_def)
  then have a: "((\<exists>rows. mapResults ?ins ?res = Inr rows) \<longleftrightarrow> distinct (map pid ?ins) \<and>
      mset (map r_CorrelationID ?res) = mset (map (FormatInt \<circ> pid) ?ins)) \<and>
    (\<forall>rows. mapResults ?ins ?res = Inr rows \<longrightarrow>
       mset (map r_CorrelationID (filter (\<lambda>r. r_Err r = []) ?res)) + mset (map (FormatInt \<circ> dl_id) rows) =
         mset (map (FormatInt \<circ> pid) ?ins))"
    using mapResults_accepts [of ?ins ?res] by blast
  then obtain rows where r: "mapResults ?ins ?res = Inr rows" by (auto simp: ex_row_fields)
  with a have "mset (map r_CorrelationID (filter (\<lambda>r. r_Err r = []) ?res)) + mset (map (FormatInt \<circ> dl_id) rows) =
      mset (map (FormatInt \<circ> pid) ?ins)" by blast
  moreover have "map r_CorrelationID (filter (\<lambda>r. r_Err r = []) ?res) = [FormatInt 7]" by simp
  moreover have "map (FormatInt \<circ> pid) ?ins = [FormatInt 7, FormatInt 8]" by (simp add: ex_row_fields)
  moreover have "mset [x] + mset xs = mset [x, y] \<Longrightarrow> xs = [y]" for x y :: string and xs by simp
  ultimately have "map (FormatInt \<circ> dl_id) rows = [FormatInt 8]" by metis
  then show ?thesis by (intro exI [of _ rows] conjI r)
qed

text \<open>C15: the placeholders of the insert are numbered 1, 2, \<dots> without gaps, one
  per argument, and on success the server stores exactly the given rows in order, a zero \<open>runAt\<close>
  as NULL; on an error the table is unchanged.\<close>

theorem insertDLQRows_stores:
  assumes "insertDLQRows exec now table rows db = (err, db')"
  shows "concat (insert_placeholders rows) = [1..<Suc (length (insert_args rows))] \<and>
    db' = (if err = None then db(table := db table @ map (dlq_entry_of now) rows) else db)"
  using assms insert_placeholders_enum insertDLQRows_None insertDLQRows_Some by (cases err) auto

theorem insertDLQRows_stores_witness:
  "\<exists>err db'. insertDLQRows (\<lambda>q as. None) 5 ''t'' [ex_dead] (\<lambda>t. []) = (err, db') \<and>
     concat (insert_placeholders [ex_dead]) = [1..<11] \<and>
     (err = None \<longrightarrow> db' ''t'' = [dlq_entry_of 5 ex_dead])"
proof -
  obtain err db' where i: "insertDLQRows (\<lambda>q as. None) 5 ''t'' [ex_dead] (\<lambda>t. []) = (err, db')" by fastforce
  have "Suc (length (insert_args [ex_dead])) = 11" by (simp add: dlq_cols_def)
  then have "concat (insert_placeholders [ex_dead]) = [1..<11]"
    using conjunct1 [OF insertDLQRows_stores [OF i]] by (simp only:)
  moreover have "err = None \<longrightarrow> db' ''t'' = [dlq_entry_of 5 ex_dead]" using insertDLQRows_stores [OF i] by simp
  ultimately show ?thesis using i by blast
qed

text \<open>C16: a stored error message is valid UTF-8 of at most the limit; a valid message
  that fits is kept, and one that does not loses less than one rune at the cut.\<close>

theorem truncate_message:
  "int (length (truncate_str s dlqErrorMessageMax)) \<le> 4096 \<and> ValidString (truncate_str s dlqErrorMessageMax) \<and>
   (ValidString s \<longrightarrow> prefix (truncate_str s dlqErrorMessageMax) s \<and>
      (length s \<le> 4096 \<longrightarrow> truncate_str s dlqErrorMessageMax = s) \<and>
      (4096 < length s \<longrightarrow> 4093 \<le> length (truncate_str s dlqErrorMessageMax)))"
  using truncate_bounds [of s dlqErrorMessageMax] truncate_str_cut [of s dlqErrorMessageMax]
  by (auto simp: dlqErrorMessageMax_def)

theorem truncate_message_witness: "truncate_str '''' dlqErrorMessageMax = ''''"
  using truncate_message [of "''''"] by simp

text \<open>C17: the cleanup adds no rows, and a row it removes was older than the
  retention (rounded down to the microsecond) at a tick at which this process was the leader.\<close>

theorem dlqCleanup_removes_expired:
  assumes "dlqCleanup evs db = (ms, db')"
  shows "set (db' t) \<subseteq> set (db t) \<and>
    (\<forall>e \<in> set (db t) - set (db' t). \<exists>d en. (Tick, d, en) \<in> set evs \<and> isLeader d \<and> t = dlqTable (cfg d) \<and>
       dead_lettered_at e < ce_now en - go_quot (DLQRetention (cfg d)) Microsecond * Microsecond)"
  using dlqCleanup_subset [OF assms] dlqCleanup_keeps [OF assms] by (fastforce simp: retention_interval_def)

theorem dlqCleanup_removes_expired_witness:
  "\<exists>ms db'. dlqCleanup [(Tick, ex_leader, \<lparr>ce_exec = None, ce_now = 100, ce_took = 0\<rparr>)]
       (\<lambda>t. [dlq_entry_of 50 ex_dead]) = (ms, db') \<and>
     set (db' ''public.outbox_dlq'') = {dlq_entry_of 50 ex_dead}"
proof -
  obtain ms db' where c: "dlqCleanup [(Tick, ex_leader, \<lparr>ce_exec = None, ce_now = 100, ce_took = 0\<rparr>)]
      (\<lambda>t. [dlq_entry_of 50 ex_dead]) = (ms, db')"
    by fastforce
  have "0 < DLQRetention ex_config" using setDefaults_set by (auto simp: ex_config_def defaults_set_def)
  then have "\<not> 50 < 100 - go_quot (DLQRetention ex_config) Microsecond * Microsecond"
    by (simp add: ex_config_def setDefaults_def zero_Config_def or_default_def)
  with dlqCleanup_removes_expired [OF c, of "''public.outbox_dlq''"] c show ?thesis
    by (auto simp: dlq_entry_of_def)
qed

section \<open>Partitions\<close>





text \<open>C20: dropping removes only partitions whose whole range is older than the
  retention, and on success removes all of them; an error changes nothing that is not expired.\<close>

theorem dropExpired_only_expired:
  assumes "pdb_ok d (pdatabase s)" "dropExpiredPartitions en now d s = (err, s')"
  shows "pdb_ok d (pdatabase s') \<and> set (meta (pdatabase s')) \<subseteq> set (meta (pdatabase s)) \<and>
    (\<forall>(n, l, u) \<in> set (meta (pdatabase s)) - set (meta (pdatabase s')). u \<le> now - PartitionRetention (cfg d)) \<and>
    (err = None \<longrightarrow> (\<forall>(n, l, u) \<in> set (meta (pdatabase s')). now - PartitionRetention (cfg d) < u))"
  using dropExpired_inv [OF assms] by blast

theorem dropExpired_only_expired_witness:
  "\<exists>err s'. dropExpiredPartitions ex_drop_env (100 * Hour) ex_driver \<lparr>pdatabase = ex_db, pmetrics = []\<rparr> = (err, s') \<and>
     pdb_ok ex_driver (pdatabase s')"
proof -
  obtain err s' where r: "dropExpiredPartitions ex_drop_env (100 * Hour) ex_driver \<lparr>pdatabase = ex_db, pmetrics = []\<rparr> = (err, s')"
    by fastforce
  have "pdb_ok ex_driver (pdatabase \<lparr>pdatabase = ex_db, pmetrics = []\<rparr>)" using ex_partition_ok(3) by simp
  from dropExpired_only_expired [OF this r] r show ?thesis by blast
qed

text \<open>C21: the name of a partition gives back its lower bound, so different
  lower bounds, at whole minutes, have different names.\<close>

theorem partition_name_round_trip:
  assumes "four_digit_year t" "Minute dvd t"
  shows "parsePartitionLower d (partitionName d t) = Some t \<and>
    (\<forall>t'. four_digit_year t' \<and> Minute dvd t' \<and> partitionName d t' = partitionName d t \<longrightarrow> t' = t)"
  using partition_names.dec_enc [of t d] partition_names.enc_inj [of _ t d] assms by blast

theorem partition_name_round_trip_witness:
  "parsePartitionLower ex_driver (partitionName ex_driver (100 * Hour)) = Some (100 * Hour)"
  using partition_name_round_trip [of "100 * Hour" ex_driver] modern_four_digit [of "100 * Hour"]
  by (simp add: modern_time_def)



text \<open>C23: of the names listed on a replica, exactly those are selected that parse as
  a partition name with a range ending at or before the cutoff, each once and in order.\<close>

theorem selectExpired_exact:
  assumes "distinct existing"
  shows "sorted_wrt (<) (map ep_name (selectExpiredPartitions d existing cutoff)) \<and>
    set (map ep_name (selectExpiredPartitions d existing cutoff)) =
      {n \<in> set existing. \<exists>lower. parsePartitionLower d n = Some lower \<and> lower + PartitionInterval (cfg d) \<le> cutoff}"
  using selectExpired_spec [OF assms, of d cutoff] by (auto simp: name_expired_def split: option.splits)

theorem selectExpired_exact_witness:
  "set (map ep_name (selectExpiredPartitions ex_driver [''other'', partitionName ex_driver (100 * Hour)] (101 * Hour))) =
     {partitionName ex_driver (100 * Hour)}"
proof -
  have p: "parsePartitionLower ex_driver (partitionName ex_driver (100 * Hour)) = Some (100 * Hour)"
    using partition_names.dec_enc [of "100 * Hour" ex_driver] modern_four_digit [of "100 * Hour"]
    by (simp add: modern_time_def)
  moreover have o: "parsePartitionLower ex_driver ''other'' = None"
    by (simp add: parsePartitionLower_def HasPrefix_def)
  ultimately have "''other'' \<noteq> partitionName ex_driver (100 * Hour)" by auto
  with selectExpired_exact [of "[''other'', partitionName ex_driver (100 * Hour)]" ex_driver "101 * Hour"] p o
  show ?thesis by auto
qed

text \<open>C24: a partition a replica loses was listed on it, and its range ended at least
  the retention before both the current time and the position up to which the replica has
  applied changes; with an unknown position nothing is dropped.\<close>

theorem replica_drop_safe:
  assumes "dropExpiredReplicaPartitions en now d r existing s = (err, s')" "distinct existing"
    and "(n, t) \<in> set (tables (pdatabase s))" "(n, t) \<notin> set (tables (pdatabase s'))"
  shows "n \<in> set existing \<and> (\<exists>lower applied. parsePartitionLower d n = Some lower \<and> rd_position en = Inr (Some applied) \<and>
    lower + PartitionInterval (cfg d) \<le> min applied now - PartitionRetention (cfg d))"
  by (rule dropExpiredReplica_safe [OF assms])

theorem replica_drop_safe_witness:
  "parsePartitionLower ex_driver (partitionName ex_driver (100 * Hour)) \<noteq> None"
proof -
  let ?n = "partitionName ex_driver (100 * Hour)"
  let ?en = "\<lparr>rd_position = Inr (Some (200 * Hour)), rd_begin = None, rd_detach = (\<lambda>n. None), rd_drop = (\<lambda>n. None),
    rd_commit = PCommitOk\<rparr>"
  let ?r = "\<lparr>rp_name = ''r'', rp_pool = ''h'', rp_subscriptionName = ''sub''\<rparr>"
  let ?s = "\<lparr>pdatabase = \<lparr>tables = [(?n, Attached (100 * Hour) (101 * Hour))], meta = []\<rparr>, pmetrics = []\<rparr>"
  have p: "parsePartitionLower ex_driver ?n = Some (100 * Hour)"
    using partition_names.dec_enc [of "100 * Hour" ex_driver] modern_four_digit [of "100 * Hour"]
    by (simp add: modern_time_def)
  obtain err s' where r: "dropExpiredReplicaPartitions ?en (200 * Hour) ex_driver ?r [?n] ?s = (err, s')" by fastforce
  have sel: "selectExpiredPartitions ex_driver [?n] (197 * Hour) = [\<lparr>ep_name = ?n, ep_upper = 101 * Hour\<rparr>]"
    using p by (simp add: selectExpiredPartitions_def)
  have "tables (pdatabase s') = []"
    using r sel by (auto simp: dropExpiredReplicaPartitions_def replica_cutoff_def part_emit_def sql_detach_def sql_drop_def)
  with replica_drop_safe [OF r, of ?n "Attached (100 * Hour) (101 * Hour)"] show ?thesis by auto
qed

section \<open>Leadership and reconnection\<close>

text \<open>C25: however the runner, the maintenance goroutine, the cleanup goroutine and a
  cancellation interleave, the leader flag is set exactly when the leadership was acquired once
  more than it was given up, and no maintenance or cleanup starts before the first acquisition.\<close>

theorem leadership_ledger:
  assumes "sys_reachable d s" "\<not> isLeader d" "\<not> maintWake d"
  shows "acquisitions (history s) = relinquishments (history s) + (if isLeader (drv s) then 1 else 0) \<and>
    after_acquire False (history s)"
  using sys_inv_reachable [OF assms] by (simp add: sys_inv_def)

theorem leadership_ledger_witness:
  "\<exists>s. sys_reachable ex_driver s \<and> isLeader (drv s) \<and> acquisitions (history s) = relinquishments (history s) + 1"
proof -
  have "\<not> isLeader ex_driver" "\<not> maintWake ex_driver" by (simp_all add: ex_driver_def)
  moreover obtain s where "sys_reachable ex_driver s" "isLeader (drv s)"
  proof
    show "sys_reachable ex_driver ((sys_start ex_driver)\<lparr>drv := (drv (sys_start ex_driver))\<lparr>isLeader := True, standbyLogged := False\<rparr>,
        runner := Signalling, history := history (sys_start ex_driver) @ [Acquired]\<rparr>)"
      by (rule sys_reachable.step [OF sys_reachable.start], rule sys_step.acquire)
        (simp_all add: sys_start_def ex_driver_def)
  qed simp
  ultimately show ?thesis using leadership_ledger [of ex_driver s] by auto
qed

text \<open>C26: the wake-up of the maintenance goroutine is not lost. However the
  goroutines interleave, while the driver leads and maintenance has not started since it acquired
  the leadership, the token is in the channel or about to be sent, or the goroutine is about to
  look at the flag, or it has ended; and unless it has ended, maintenance can start from there
  without the leadership being acquired again.\<close>

theorem leader_maintenance_starts:
  assumes "sys_reachable d s" "isLeader (drv s)" "maint s \<noteq> MaintDone"
  shows "(served True (history s) \<or> maintWake (drv s) \<or> runner s = Signalling \<or> maint s = CheckLeader) \<and>
    (\<exists>s'. sys_step\<^sup>*\<^sup>* s s' \<and> served True (history s') \<and> isLeader (drv s') \<and>
       acquisitions (history s') = acquisitions (history s))"
  using wake_inv_reachable [OF assms(1)] can_serve_leader [OF wake_inv_reachable [OF assms(1)] assms(2,3)] assms(2,3)
  unfolding wake_inv_def can_serve_def by blast

theorem leader_maintenance_starts_witness:
  "\<exists>s s'. sys_reachable ex_driver s \<and> \<not> served True (history s) \<and> sys_step\<^sup>*\<^sup>* s s' \<and> served True (history s')"
proof -
  let ?s = "(sys_start ex_driver)\<lparr>drv := (drv (sys_start ex_driver))\<lparr>isLeader := True, standbyLogged := False\<rparr>,
    runner := Signalling, history := history (sys_start ex_driver) @ [Acquired]\<rparr>"
  have "sys_reachable ex_driver ?s"
    by (rule sys_reachable.step [OF sys_reachable.start], rule sys_step.acquire) (simp_all add: sys_start_def ex_driver_def)
  from this leader_maintenance_starts [OF this] show ?thesis by (auto simp: sys_start_def)
qed







section \<open>Construction\<close>

text \<open>C30: no connection is leaked. When \<open>New\<close> fails, every pool it opened is closed
  again; otherwise, when \<open>Run\<close> of the driver returns or panics, all the pools \<open>New\<close> opened are closed, and every replication
  connection a session opened has been closed.\<close>

theorem resources_released:
  assumes "New pool_new c = (res, opened)"
  shows "case res of
      Inl err \<Rightarrow> opened = []
    | Inr d \<Rightarrow> (\<forall>e rs. Run fl la api rounds d opened w \<in> {RunReturned e rs, Panicked rs} \<longrightarrow>
           run_pools rs = [] \<and> open_connections (run_world rs) = open_connections w)"
proof (cases res)
  case (Inl err)
  then show ?thesis using assms New_Inl_closed by auto
next
  case (Inr d)
  note n = New_Inr [OF assms [unfolded Inr]]
  then have "opened = pool d # map rp_pool (replicaPools d)" by simp
  then show ?thesis using n Run_releases [of fl la api rounds d w] Inr by (auto simp del: insert_iff)
qed

theorem resources_released_witness:
  "snd (New (\<lambda>s. if s = ''b'' then Some (ExtError ''x'') else None) (zero_Config\<lparr>ConnString := ''a'', SlotName := ''s'',
     PublicationName := ''p'', Replicas := [\<lparr>R_Name = ''r'', R_ConnString = ''b'', R_SubscriptionName = ''u''\<rparr>]\<rparr>)) = []"
proof -
  let ?new = "\<lambda>s. if s = ''b'' then Some (ExtError ''x'') else None"
  let ?c = "zero_Config\<lparr>ConnString := ''a'', SlotName := ''s'', PublicationName := ''p'',
    Replicas := [\<lparr>R_Name = ''r'', R_ConnString = ''b'', R_SubscriptionName = ''u''\<rparr>]\<rparr>"
  obtain res opened where n: "New ?new ?c = (res, opened)" by fastforce
  have "\<exists>err. res = Inl err" using n
    by (auto simp: New_def validate_def setDefaults_def zero_Config_def split: option.splits)
  with resources_released [OF n] n show ?thesis by auto
qed

text \<open>C31: every driver has a complete and valid configuration and one pool per
  database the configuration names. \<open>New\<close> returns only such drivers, and \<open>Run\<close>, whatever the server,
  the service and the errors, keeps it so, with the configuration untouched; and with a busy-slot
  jitter below half of the range of a duration \<open>Run\<close> does not panic.\<close>

theorem driver_well_formed:
  assumes "New pool_new c = (Inr d, opened)"
  shows "driver_ok d \<and> \<not> isLeader d \<and>
    driver_ok (run_driver (run_result_state (Run fl la api rounds d opened w))) \<and>
    cfg (run_driver (run_result_state (Run fl la api rounds d opened w))) = setDefaults c \<and>
    (SlotBusyRetryJitter (setDefaults c) < 2 ^ 62 \<longrightarrow> (\<forall>rs. Run fl la api rounds d opened w \<noteq> Panicked rs))"
proof -
  note n = New_Inr [OF assms] and ok = New_driver_ok [OF assms] and k = Run_driver [of d fl la api rounds opened w]
  have "defaults_set (cfg d)" using n by blast
  then have "0 < SlotBusyRetryJitter (cfg d)" by (simp add: defaults_set_def)
  with k n have "SlotBusyRetryJitter (setDefaults c) < 2 ^ 62 \<longrightarrow> (\<forall>rs. Run fl la api rounds d opened w \<noteq> Panicked rs)"
    by (simp add: driver_kept_def)
  moreover have "cfg (run_driver (run_result_state (Run fl la api rounds d opened w))) = setDefaults c"
    using k n by (simp add: driver_kept_def)
  ultimately show ?thesis using ok n driver_kept_ok [OF k] by simp
qed

theorem driver_well_formed_witness:
  "driver_ok (run_driver (run_result_state
     (Run (\<lambda>x. x) decimal_lsn_api (ex_api 0) [ex_busy_round None] ex_driver [''host=db''] ex_world)))"
proof -
  have "New (\<lambda>s. None) ex_config = (Inr ex_driver, [''host=db''])"
    by (simp add: New_def validate_def ex_config_def setDefaults_keep [OF setDefaults_set] ex_driver_def)
      (simp add: setDefaults_def zero_Config_def)
  from driver_well_formed [OF this] show ?thesis by blast
qed

text \<open>C32: a process configured by its environment gets a driver, once the pools can be
  opened, exactly when the three required variables are set, the batch size and the durations that
  are set can be parsed, and a replica, if one is given, has a name and a subscription.\<close>

theorem env_config_starts:
  "(\<exists>c d opened. ConfigFromEnv env = Inr c \<and> New (\<lambda>s. None) c = (Inr d, opened)) \<longleftrightarrow>
     env ''PGLG_CONN_STRING'' \<noteq> [] \<and> env ''PGLG_SLOT_NAME'' \<noteq> [] \<and> env ''PGLG_PUBLICATION_NAME'' \<noteq> [] \<and>
     parses ParseInt (env ''PGLG_MAX_BATCH_SIZE'') \<and> list_all (parses ParseDuration \<circ> env) env_durations \<and>
     (env ''PGLG_REPLICA_CONN_STRING'' = [] \<or>
      env ''PGLG_REPLICA_NAME'' \<noteq> [] \<and> env ''PGLG_REPLICA_SUBSCRIPTION'' \<noteq> [])"
  (is "_ \<longleftrightarrow> ?named \<and> ?slot \<and> ?pub \<and> ?int \<and> ?durs \<and> ?replica")
proof -
  have "validate c = None \<longleftrightarrow> ?named \<and> ?slot \<and> ?pub \<and> ?replica" if "ConfigFromEnv env = Inr c" for c
    using ConfigFromEnv_fields [OF that] by (auto simp: validate_None replica_complete_def)
  then have "(\<exists>c d opened. ConfigFromEnv env = Inr c \<and> New (\<lambda>s. None) c = (Inr d, opened)) \<longleftrightarrow>
      (\<exists>c. ConfigFromEnv env = Inr c) \<and> ?named \<and> ?slot \<and> ?pub \<and> ?replica"
    using New_succeeds by blast
  then show ?thesis unfolding ConfigFromEnv_total by blast
qed

section \<open>The setup tool\<close>

text \<open>C33: a \<open>create\<close> that succeeds has sent to the server exactly the embedded
  migration files that apply, in the order of their names and with the placeholders filled, and
  then the partition statements: the current hour with its registration, or on a replica the
  back-fill range if one was asked for.\<close>

theorem create_statements:
  assumes "runCreate srv (ExportedMigrationFS content) now a s = Some (None, s')"
  shows "executed s' = executed s @
    map (\<lambda>n. Script (Replace (setup_replacer a) (content n)))
      (if a_replica a then [''001_create_outbox.sql'', ''002_create_cursor.sql'', ''003_create_partition_meta.sql'', ''006_create_dlq.sql'']
       else if a_skipPublication a then [''001_create_outbox.sql'', ''002_create_cursor.sql'', ''003_create_partition_meta.sql'',
         ''005_create_replication_slot.sql'', ''006_create_dlq.sql'']
       else migration_names) @ setup_statements now a"
  using runCreate_executes [OF assms] filter_skipped unfolding setup_scripts_def
  by (cases "a_replica a"; cases "a_skipPublication a") simp_all

theorem create_statements_witness:
  "\<exists>s'. runCreate ex_server (ExportedMigrationFS (\<lambda>n. n)) (100 * Hour) ex_args ex_tool = Some (None, s') \<and>
     length (executed s') = 8"
proof -
  obtain s' where r: "runCreate ex_server (ExportedMigrationFS (\<lambda>n. n)) (100 * Hour) ex_args ex_tool = Some (None, s')"
    using ex_setup_runs by blast
  from create_statements [OF r] have "length (executed s') = 8"
    by (simp add: ex_args_def ex_tool_def setup_statements_def initial_statements_def migration_names_def)
  with r show ?thesis by blast
qed

text \<open>C34: after a successful \<open>create\<close> the database is one the maintenance of a
  driver with the default interval of an hour works on: the partition tables are consistent, no
  partition that was there is lost, and the current hour has its partition.\<close>

theorem setup_prepares_driver:
  assumes "partition_server pg_in srv" "reads_RFC3339 pg_in" "\<not> a_replica a"
    and "PartitionInterval (cfg d) = Hour" "TablePrefix (cfg d) = a_prefix a"
    and "0 \<le> now" "modern_time (now + Hour)" "pdb_ok d (server_db s)"
    and "runCreate srv (ExportedMigrationFS content) now a s = Some (None, s')"
  shows "pdb_ok d (server_db s') \<and> set (meta (server_db s)) \<subseteq> set (meta (server_db s')) \<and> partitioned now (server_db s')"
proof -
  note r = runCreate_partitions [OF assms]
  have "Truncate now Hour \<le> now" "now < Truncate now Hour + Hour" using Truncate_bounds [of Hour now] by simp_all
  then have "partitioned now (server_db s')"
    using r registered_partitioned [of d "server_db s'" "Truncate now Hour" now] assms(4) by simp
  then show ?thesis using r by (simp add: registered_le_def)
qed

theorem setup_prepares_driver_witness:
  "\<exists>s'. runCreate ex_server (ExportedMigrationFS (\<lambda>n. n)) (100 * Hour) ex_args ex_tool = Some (None, s') \<and>
     partitioned (100 * Hour) (server_db s')"
proof -
  obtain s' where r: "runCreate ex_server (ExportedMigrationFS (\<lambda>n. n)) (100 * Hour) ex_args ex_tool = Some (None, s')"
    using ex_setup_runs by blast
  from setup_prepares_driver [OF ex_partition_server reads_RFC3339_Parse, of ex_args ex_driver "100 * Hour" ex_tool "\<lambda>n. n" s'] r
  show ?thesis using ex_partition_ok(3) [of ex_driver] by (auto simp: ex_args_def ex_tool_def modern_time_def)
qed



text \<open>C36: the tool sends a statement only for the commands \<open>create\<close> and \<open>destroy\<close>, with
  a connection string given; a replica setup and a back-fill only with \<open>create\<close>, a back-fill only
  on a replica; and, unless it sets up a replica, with a publication and a slot named.\<close>

theorem setup_main_guard:
  assumes "setup_main srv fs now Args s = Some (code, s')" "executed s' \<noteq> executed s"
  shows "\<exists>m. flag_Parse setup_flags (drop 2 Args) = Inr m \<and> Args ! 1 \<in> {''create'', ''destroy''} \<and>
    flag_string m ''conn-string'' \<noteq> '''' \<and>
    (flag_bool m ''replica'' \<longrightarrow> Args ! 1 = ''create'') \<and>
    (flag_string m ''create-partitions'' \<noteq> '''' \<longrightarrow> flag_bool m ''replica'') \<and>
    (flag_bool m ''replica'' \<or> flag_string m ''publication'' \<noteq> '''' \<and> flag_string m ''slot'' \<noteq> '''')"
  using assms(1)
proof (cases rule: setup_main_cases)
  case idle
  then show ?thesis using assms(2) by simp
next
  case (ran m start)
  have "Args ! 1 \<in> {''create'', ''destroy''}"
    using ran(5) assms(2) by (auto simp: run_command_def split: if_splits)
  then show ?thesis using ran(2,3) by (auto simp: flags_allowed_def)
qed

theorem setup_main_guard_witness:
  "\<exists>m. flag_Parse setup_flags [''--conn-string=c'', ''--publication=p'', ''--slot=s''] = Inr m \<and> flag_string m ''slot'' \<noteq> ''''"
proof -
  let ?Args = "[''pglg-setup'', ''destroy'', ''--conn-string=c'', ''--publication=p'', ''--slot=s'']"
  let ?fs = "ExportedMigrationFS (\<lambda>n. n)"
  obtain code s' where r: "setup_main ex_server ?fs 0 ?Args ex_tool = Some (code, s')" "executed s' \<noteq> executed ex_tool"
    using ex_destroy_runs by blast
  from setup_main_guard [OF r] show ?thesis by auto
qed

text \<open>C37: the privilege check passes exactly when the user may create in the schema
  and, for the parts that are not skipped, has the replication role and may create in the
  database; when it does not pass, \<open>create\<close> fails and no statement is sent.\<close>

theorem privileges_required:
  "(fst (checkPrivileges srv (a_schema a) (a_skipPublication a \<or> a_replica a) (a_replica a) s) = None \<longleftrightarrow>
     privileged srv (a_schema a) (a_skipPublication a \<or> a_replica a) (a_replica a) (server_db s)) \<and>
   (\<not> privileged srv (a_schema a) (a_skipPublication a \<or> a_replica a) (a_replica a) (server_db s) \<longrightarrow>
     (\<exists>err s'. runCreate srv fs now a s = Some (Some err, s') \<and> executed s' = executed s \<and> server_db s' = server_db s))"
  using runCreate_unprivileged [of srv a s fs now] unfolding checkPrivileges_None by blast

theorem privileges_required_witness:
  "\<exists>err s'. runCreate (ex_server\<lparr>srv_has_replication := (\<lambda>db. Inr False)\<rparr>) (ExportedMigrationFS (\<lambda>n. n)) 0 ex_args ex_tool =
     Some (Some err, s') \<and> executed s' = []"
proof -
  have "\<not> privileged (ex_server\<lparr>srv_has_replication := (\<lambda>db. Inr False)\<rparr>) (a_schema ex_args)
      (a_skipPublication ex_args \<or> a_replica ex_args) (a_replica ex_args) (server_db ex_tool)"
    by (simp add: privileged_def ex_args_def)
  moreover have "executed ex_tool = []" by (simp add: ex_tool_def)
  ultimately show ?thesis
    using privileges_required [of "ex_server\<lparr>srv_has_replication := (\<lambda>db. Inr False)\<rparr>" ex_args ex_tool
        "ExportedMigrationFS (\<lambda>n. n)" 0] by auto
qed

text \<open>C38: \<open>destroy\<close> drops the four tables the driver uses, after trying to drop
  the slot and the publication. The answers to those two are not looked at: when the tables can
  be dropped it reports success, even if the slot is still there.\<close>

theorem destroy_ignores_slot_error:
  assumes "\<And>t db. fst (srv_exec srv (DropTable t) db) = None"
  shows "\<exists>s'. runDestroy srv (Schema c) (TablePrefix c) publication slot s = (None, s') \<and>
    executed s' = executed s @ [DropSlot slot, DropPublication publication, DropTable (jobsTable c),
      DropTable (cursorTable c), DropTable (partitionMetaTable c), DropTable (dlqTable c)]"
proof -
  obtain err s' where r: "runDestroy srv (Schema c) (TablePrefix c) publication slot s = (err, s')" by fastforce
  have "err = None" using r drop_tables_succeeds [OF assms] by (metis fst_conv runDestroy_def)
  then show ?thesis using runDestroy_result [OF r] r destroyed_tables_driver [of c] by auto
qed

theorem destroy_ignores_slot_error_witness:
  "\<exists>s'. runDestroy (ex_server\<lparr>srv_exec := (\<lambda>st db. (if st = DropSlot ''s'' then Some (PgError ObjectInUse ''active'') else None, db))\<rparr>)
     ''public'' ''outbox'' ''p'' ''s'' ex_tool = (None, s') \<and> length (executed s') = 6"
  using destroy_ignores_slot_error
    [of "ex_server\<lparr>srv_exec := (\<lambda>st db. (if st = DropSlot ''s'' then Some (PgError ObjectInUse ''active'') else None, db))\<rparr>"
      ex_config "''p''" "''s''" ex_tool]
  by (auto simp: ex_tool_def)

text \<open>C39: the back-fill of a replica ends, and when it succeeds every instant from the
  hour of the given time up to the hour twelve to thirteen hours ahead lies in the range of a
  partition it asked the server to create.\<close>

theorem backfill_covers:
  "\<exists>err s'. createPartitionRange srv now schema pre start s = Some (err, s') \<and>
    (err = None \<longrightarrow> (\<forall>x. Truncate start Hour \<le> x \<and> x < Truncate (now + 13 * Hour) Hour \<longrightarrow>
       (\<exists>t. t \<le> x \<and> x < t + Hour \<and>
          CreatePartition schema (setup_partition_name pre t) pre (Format t RFC3339) (Format (t + Hour) RFC3339)
            \<in> set (executed s'))))"
proof (cases rule: createPartitionRange_result [of srv now schema pre start s])
  case (created s')
  have "\<exists>t. t \<le> x \<and> x < t + Hour \<and> range_statement schema pre t \<in> set (executed s')"
    if x: "Truncate start Hour \<le> x" "x < Truncate (now + 13 * Hour) Hour" for x
    using windows_cover [OF _ x, of Hour] created(2) by auto
  then show ?thesis using created(1) by (auto simp: range_statement_def)
qed auto

theorem backfill_covers_witness:
  "\<exists>err s'. createPartitionRange ex_server (100 * Hour) ''public'' ''outbox'' (90 * Hour) ex_tool = Some (err, s')"
  using backfill_covers [of ex_server "100 * Hour" "''public''" "''outbox''" "90 * Hour" ex_tool] by blast

section \<open>The benchmark\<close>



end
